(* ===== verification/Prelude.thy ===== *)
theory Prelude
  imports Main "HOL-Library.Word"
begin

text \<open>
  Vocabulary and lemmas shared by the component theories: the names of the
  machine integers the C++ sources use, the type of a monotonic time stamp,
  the interface of a bounded queue that drops its oldest element (the haptics
  queue of \<^verbatim>\<open>bridge.cpp\<close>, the FrameDone queue of \<^verbatim>\<open>video_intake.cpp\<close>), and the
  interface of a deterministic machine with an invariant, from which every
  component derives that its invariant holds after any sequence of calls.
\<close>

section \<open>Machine integers and time\<close>

type_synonym u8 = "8 word"
type_synonym u16 = "16 word"
type_synonym u32 = "32 word"
type_synonym u64 = "64 word"

text \<open>
  A \<^verbatim>\<open>std::chrono::steady_clock\<close> time point, or a duration, in nanoseconds. The
  library counts them in a signed 64-bit integer; the differences the sources
  form stay far inside it (292 years), so they are mathematical integers here.
  The default-constructed time point \<^verbatim>\<open>{}\<close> is 0.
\<close>

type_synonym time_ns = int

abbreviation ms :: "int \<Rightarrow> time_ns" where
  "ms n \<equiv> n * 1000000"

text \<open>Integer division of C++, which truncates towards zero.\<close>

definition cdiv :: "int \<Rightarrow> int \<Rightarrow> int" where
  "cdiv a b = sgn a * sgn b * (\<bar>a\<bar> div \<bar>b\<bar>)"

lemma cdiv_pos: "0 \<le> a \<Longrightarrow> 0 < b \<Longrightarrow> cdiv a b = a div b"
  by (cases "a = 0") (simp_all add: cdiv_def)

named_theorems op_defs \<open>definitions of a component's operations\<close>
named_theorems inv_defs \<open>definitions of a component's invariant\<close>

section \<open>Words\<close>

lemma word_succ_neq [simp]: "(w :: 'a :: len word) + 1 \<noteq> w" "w \<noteq> w + 1"
  by simp_all

lemma of_nat_small_zero: "(of_nat n :: 64 word) = 0 \<Longrightarrow> n < 2 ^ 64 \<Longrightarrow> 0 < n \<Longrightarrow> False"
  by (simp add: word_of_nat_eq_0_iff nat_dvd_not_less)

section \<open>Machines\<close>

text \<open>
  A component is a state and a function that performs one call. The contract
  of an invariant is that every call keeps it; what a client may use is that a
  sequence of calls keeps it.
\<close>

locale machine_invariant =
  fixes step :: "'s \<Rightarrow> 'e \<Rightarrow> 's"
    and inv :: "'s \<Rightarrow> bool"
  assumes inv_step: "inv s \<Longrightarrow> inv (step s e)"
begin

lemma inv_run: "inv s \<Longrightarrow> inv (foldl step s es)"
  by (induction es arbitrary: s) (auto simp: inv_step)

end

text \<open>A machine whose calls are only made in the order the clock allows.\<close>

fun timed :: "('e \<Rightarrow> time_ns option) \<Rightarrow> time_ns \<Rightarrow> 'e list \<Rightarrow> bool" where
  "timed at t [] = True"
| "timed at t (e # es) =
     (case at e of None \<Rightarrow> timed at t es | Some t' \<Rightarrow> t \<le> t' \<and> timed at t' es)"

section \<open>Bounded queues\<close>

text \<open>
  \<^verbatim>\<open>if (q.size() >= cap) q.pop_front(); q.push_back(x);\<close>
\<close>

definition push_bounded :: "nat \<Rightarrow> 'a \<Rightarrow> 'a list \<Rightarrow> 'a list" where
  "push_bounded cap x q = (if cap \<le> length q then tl q else q) @ [x]"

lemma length_push_bounded: "0 < cap \<Longrightarrow> length q \<le> cap \<Longrightarrow> length (push_bounded cap x q) \<le> cap"
  by (auto simp: push_bounded_def)

lemma push_bounded_room [simp]: "length q < cap \<Longrightarrow> push_bounded cap x q = q @ [x]"
  by (simp add: push_bounded_def)

lemma last_push_bounded [simp]: "last (push_bounded cap x q) = x"
  by (simp add: push_bounded_def)

lemma push_bounded_not_Nil [simp]: "push_bounded cap x q \<noteq> []"
  by (simp add: push_bounded_def)

text \<open>
  The interface: a queue embedded in some component state, read through
  \<open>items\<close>. The provider promises what one push and one pop do to the items;
  the client gets the length bound over any run and that a queue fed within
  its capacity delivers everything, oldest first.
\<close>

locale bounded_fifo =
  fixes items :: "'s \<Rightarrow> 'a list"
    and push :: "'a \<Rightarrow> 's \<Rightarrow> 's"
    and pop :: "'s \<Rightarrow> 'a option \<times> 's"
    and cap :: nat
  assumes cap_pos: "0 < cap"
    and items_push: "items (push x s) = push_bounded cap x (items s)"
    and pop_empty: "items s = [] \<Longrightarrow> pop s = (None, s)"
    and pop_first: "items s = x # xs \<Longrightarrow> \<exists>s'. pop s = (Some x, s') \<and> items s' = xs"
begin

fun push_all :: "'a list \<Rightarrow> 's \<Rightarrow> 's" where
  "push_all [] s = s"
| "push_all (x # xs) s = push_all xs (push x s)"

fun pop_n :: "nat \<Rightarrow> 's \<Rightarrow> 'a list \<times> 's" where
  "pop_n 0 s = ([], s)"
| "pop_n (Suc n) s =
     (case pop s of (None, s') \<Rightarrow> ([], s')
      | (Some x, s') \<Rightarrow> (case pop_n n s' of (xs, t) \<Rightarrow> (x # xs, t)))"

lemma bound_push: "length (items s) \<le> cap \<Longrightarrow> length (items (push x s)) \<le> cap"
  by (simp add: items_push length_push_bounded cap_pos)

lemma bound_pop: "length (items s) \<le> cap \<Longrightarrow> length (items (snd (pop s))) \<le> cap"
proof (cases "items s")
  case (Cons x xs)
  assume "length (items s) \<le> cap"
  with Cons show ?thesis using pop_first [OF Cons] by auto
qed (simp add: pop_empty)

lemma bound_push_all: "length (items s) \<le> cap \<Longrightarrow> length (items (push_all xs s)) \<le> cap"
  by (induction xs arbitrary: s) (auto simp: bound_push)

lemma items_push_all:
  "length (items s) + length xs \<le> cap \<Longrightarrow> items (push_all xs s) = items s @ xs"
  by (induction xs arbitrary: s) (auto simp: items_push)

lemma pop_n_items: "fst (pop_n n s) = take n (items s) \<and> items (snd (pop_n n s)) = drop n (items s)"
proof (induction n arbitrary: s)
  case (Suc n)
  show ?case
  proof (cases "items s")
    case Nil
    then show ?thesis by (simp add: pop_empty)
  next
    case (Cons x xs)
    obtain s' where s': "pop s = (Some x, s')" "items s' = xs"
      using pop_first [OF Cons] by auto
    with Cons Suc.IH [of s'] show ?thesis by (auto split: prod.splits)
  qed
qed simp

text \<open>What goes in comes out, in order: nothing is lost or reordered within the capacity.\<close>

lemma fifo_delivery:
  assumes "items s = []" and "length xs \<le> cap"
  shows "fst (pop_n (length xs) (push_all xs s)) = xs"
  using assms items_push_all [of s xs] pop_n_items [of "length xs" "push_all xs s"] by simp

end

section \<open>Values with a generation counter\<close>

text \<open>
  A value another thread reads, guarded by a 64-bit counter: every write of a
  new value also increments the counter, and the reader compares the counter
  with the last one it saw (the per-device slots of \<^verbatim>\<open>bridge.cpp\<close>, the stream
  description and the request of \<^verbatim>\<open>video_bridge.cpp\<close>). The provider promises
  that a call that leaves the counter alone leaves the value alone; the reader
  may conclude that an unchanged counter means nothing was missed, as long as
  fewer than \<open>2 ^ 64\<close> calls were made since it looked.
\<close>

locale generation_cell = machine_invariant step inv
  for step :: "'s \<Rightarrow> 'e \<Rightarrow> 's" and inv :: "'s \<Rightarrow> bool" +
  fixes val :: "'s \<Rightarrow> 'v"
    and gen :: "'s \<Rightarrow> 64 word"
  assumes write_bumps:
    "inv s \<Longrightarrow> gen (step s e) = gen s + 1 \<or> gen (step s e) = gen s \<and> val (step s e) = val s"
begin

lemma run_counts:
  "inv s \<Longrightarrow> \<exists>k \<le> length es. gen (foldl step s es) = gen s + of_nat k
     \<and> (k = 0 \<longrightarrow> val (foldl step s es) = val s)"
proof (induction es rule: rev_induct)
  case (snoc e es)
  then obtain k where k: "k \<le> length es" "gen (foldl step s es) = gen s + of_nat k"
    "k = 0 \<longrightarrow> val (foldl step s es) = val s" by blast
  from write_bumps [OF inv_run [OF snoc.prems, of es], of e] show ?case
  proof
    assume "gen (step (foldl step s es) e) = gen (foldl step s es) + 1"
    with k show ?thesis by (intro exI [of _ "Suc k"]) simp
  next
    assume "gen (step (foldl step s es) e) = gen (foldl step s es)
      \<and> val (step (foldl step s es) e) = val (foldl step s es)"
    with k show ?thesis by (intro exI [of _ k]) simp
  qed
qed simp

lemma same_gen_same_val:
  assumes "inv s" and "length es < 2 ^ 64" and "gen (foldl step s es) = gen s"
  shows "val (foldl step s es) = val s"
proof -
  obtain k where k: "k \<le> length es" "gen (foldl step s es) = gen s + of_nat k"
    "k = 0 \<longrightarrow> val (foldl step s es) = val s" using run_counts [OF assms(1), of es] by blast
  with assms have "(of_nat k :: 64 word) = 0" and "k < 2 ^ 64" by simp_all
  then have "k = 0" by (metis neq0_conv of_nat_small_zero)
  with k show ?thesis by simp
qed

text \<open>A counter that started above 0 does not come back to 0.\<close>

lemma gen_stays_positive:
  assumes "inv s" and "gen s \<noteq> 0" and "unat (gen s) + length es < 2 ^ 64"
  shows "gen (foldl step s es) \<noteq> 0"
proof -
  obtain k where k: "k \<le> length es" "gen (foldl step s es) = gen s + of_nat k"
    using run_counts [OF assms(1), of es] by blast
  then have "gen (foldl step s es) = of_nat (unat (gen s) + k)" by simp
  moreover have "unat (gen s) + k < 2 ^ 64" using k(1) assms(3) by simp
  moreover have "0 < unat (gen s) + k" using assms(2) by (simp add: unat_gt_0)
  ultimately show ?thesis
    by (metis of_nat_small_zero)
qed

end

end
