(* ===== verification/Wivrn_Packets.thy ===== *)
theory Wivrn_Packets
  imports Prelude
begin

text \<open>
  The packets of the headset protocol. Their declarations are in
  \<^verbatim>\<open>common/wivrn_packets.h\<close> of the Linux repository, which the build fetches; it
  is not part of this tree. Each record holds the members the helper's sources
  read, and nothing is assumed of them.
\<close>

text \<open>
  \<^verbatim>\<open>from_headset::feedback\<close>: what the headset reports of one video frame. The
  time stamps are \<^verbatim>\<open>XrTime\<close> nanoseconds in the headset's clock; 0 stands for
  "has not happened".
\<close>

record feedback =
  frame_index :: u64
  stream_index :: u8
  sent_to_decoder :: int
  received_first_packet :: int
  received_last_packet :: int
  received_from_decoder :: int
  blitted :: int
  times_displayed :: nat

end
