(* ===== verification/Idr_Tracker.thy ===== *)
theory Idr_Tracker
  imports Wivrn_Packets
begin

text \<open>
  When the stream needs a key frame: \<^verbatim>\<open>helper/src/wivrn/idr_tracker.h\<close>. The
  definitions follow the class member for member; the theorems are the damping
  floor between two recovery requests, that a held request is not lost, and
  that one loss asks for one key frame.
\<close>

section \<open>The tracker\<close>

datatype idr_state = Need_idr | Wait_idr_feedback | Idr_received | Running

record idr_tracker =
  it_state :: idr_state
  it_idr_id :: u64
  it_first_p :: u64
  it_pending :: bool
  it_last_request :: time_ns
  it_damped :: u64

definition min_recovery_interval :: time_ns where
  "min_recovery_interval = ms 500"

definition idr_init :: idr_tracker where
  "idr_init = \<lparr>it_state = Need_idr, it_idr_id = 0, it_first_p = 0,
     it_pending = False, it_last_request = 0, it_damped = 0\<rparr>"

definition idr_reset :: "idr_tracker \<Rightarrow> idr_tracker" where
  "idr_reset s = s\<lparr>it_state := Need_idr, it_idr_id := 0, it_first_p := 0,
     it_pending := False, it_last_request := 0, it_damped := 0\<rparr>"

definition idr_on_frame_sent :: "u64 \<Rightarrow> bool \<Rightarrow> idr_tracker \<Rightarrow> idr_tracker" where
  "idr_on_frame_sent frame idr s =
     (if idr then s\<lparr>it_state := Wait_idr_feedback, it_idr_id := frame, it_pending := False\<rparr>
      else if it_state s = Idr_received then s\<lparr>it_state := Running, it_first_p := frame\<rparr>
      else s)"

definition idr_request :: "time_ns \<Rightarrow> idr_tracker \<Rightarrow> bool \<times> idr_tracker" where
  "idr_request now s =
     (if it_last_request s \<noteq> 0 \<and> now - it_last_request s < min_recovery_interval
      then (False, s\<lparr>it_damped := (if it_pending s then it_damped s else it_damped s + 1),
                     it_pending := True\<rparr>)
      else (True, s\<lparr>it_pending := False, it_last_request := now\<rparr>))"

definition idr_on_feedback :: "feedback \<Rightarrow> time_ns \<Rightarrow> idr_tracker \<Rightarrow> bool \<times> idr_tracker" where
  "idr_on_feedback f now s =
     (case it_state s of
        Need_idr \<Rightarrow> (False, s)
      | Idr_received \<Rightarrow> (False, s)
      | Wait_idr_feedback \<Rightarrow>
          (if frame_index f \<noteq> it_idr_id s then (False, s)
           else if sent_to_decoder f \<noteq> 0 then (False, s\<lparr>it_state := Idr_received\<rparr>)
           else idr_request now (s\<lparr>it_state := Need_idr\<rparr>))
      | Running \<Rightarrow>
          (if sent_to_decoder f \<noteq> 0 \<or> frame_index f < it_first_p s then (False, s)
           else idr_request now (s\<lparr>it_state := Need_idr\<rparr>)))"

definition idr_poll :: "time_ns \<Rightarrow> idr_tracker \<Rightarrow> bool \<times> idr_tracker" where
  "idr_poll now s =
     (if \<not> it_pending s then (False, s)
      else if now - it_last_request s < min_recovery_interval then (False, s)
      else (True, s\<lparr>it_pending := False, it_last_request := now\<rparr>))"

definition waiting_for_idr :: "idr_tracker \<Rightarrow> bool" where
  "waiting_for_idr s \<longleftrightarrow> it_state s = Need_idr"

lemmas idr_defs [op_defs] =
  idr_on_frame_sent_def idr_request_def idr_on_feedback_def idr_poll_def

section \<open>Runs of one session\<close>

text \<open>
  One session is a sequence of the calls the session loop makes between two
  resets. \<open>grants\<close> collects the instants at which a call answered true, which
  is when the session asks the encoder for a key frame.
\<close>

datatype idr_event = Sent u64 bool | Feedback feedback time_ns | Poll time_ns

fun idr_at :: "idr_event \<Rightarrow> time_ns option" where
  "idr_at (Sent _ _) = None"
| "idr_at (Feedback _ t) = Some t"
| "idr_at (Poll t) = Some t"

fun idr_step :: "idr_tracker \<Rightarrow> idr_event \<Rightarrow> bool \<times> idr_tracker" where
  "idr_step s (Sent i k) = (False, idr_on_frame_sent i k s)"
| "idr_step s (Feedback f t) = idr_on_feedback f t s"
| "idr_step s (Poll t) = idr_poll t s"

fun grants :: "idr_tracker \<Rightarrow> idr_event list \<Rightarrow> time_ns list" where
  "grants s [] = []"
| "grants s (e # es) =
     (let (g, s') = idr_step s e
      in (if g then [the (idr_at e)] else []) @ grants s' es)"

definition no_idr_sent :: "idr_event list \<Rightarrow> bool" where
  "no_idr_sent es \<longleftrightarrow> list_all (\<lambda>e. case e of Sent _ k \<Rightarrow> \<not> k | _ \<Rightarrow> True) es"

definition idr_next :: "idr_tracker \<Rightarrow> idr_event \<Rightarrow> idr_tracker" where
  "idr_next s e = snd (idr_step s e)"

lemma grants_append: "grants s (xs @ ys) = grants s xs @ grants (foldl idr_next s xs) ys"
  by (induction xs arbitrary: s) (auto simp: idr_next_def split: prod.splits)

text \<open>What one call does to the request bookkeeping.\<close>

lemma idr_step_granted:
  assumes "idr_step s e = (True, s')"
  shows "it_last_request s' = the (idr_at e) \<and> \<not> it_pending s' \<and> idr_at e \<noteq> None
    \<and> (it_last_request s \<noteq> 0 \<longrightarrow> the (idr_at e) - it_last_request s \<ge> min_recovery_interval)"
  using assms
  by (cases e) (auto simp: idr_defs split: idr_state.splits if_splits)

lemma idr_step_pending:
  assumes "idr_step s e = (False, s')" and "it_pending s" and "no_idr_sent [e]"
  shows "it_pending s'"
  using assms
  by (cases e) (auto simp: idr_defs no_idr_sent_def split: idr_state.splits if_splits)

lemma idr_step_not_granted:
  assumes "idr_step s e = (False, s')"
  shows "it_last_request s' = it_last_request s"
  using assms
  by (cases e) (auto simp: idr_defs split: idr_state.splits if_splits)

section \<open>The damping floor\<close>

lemma grants_separated:
  assumes "timed idr_at t es" and "0 < t" and "it_last_request s \<le> t"
  shows "sorted_wrt (\<lambda>a b. b - a \<ge> min_recovery_interval) (grants s es)
    \<and> (it_last_request s \<noteq> 0 \<longrightarrow>
         (\<forall>g \<in> set (grants s es). g - it_last_request s \<ge> min_recovery_interval))"
  using assms
proof (induction es arbitrary: s t)
  case (Cons e es)
  obtain g s' where step: "idr_step s e = (g, s')" by (cases "idr_step s e")
  define t' where "t' = (case idr_at e of None \<Rightarrow> t | Some u \<Rightarrow> u)"
  have t': "timed idr_at t' es" "0 < t'" "t \<le> t'"
    using Cons.prems by (auto simp: t'_def split: option.splits)
  show ?case
  proof (cases g)
    case True
    with step have granted: "idr_step s e = (True, s')" by simp
    note granted = idr_step_granted [OF granted]
    then have now: "it_last_request s' = t'" "the (idr_at e) = t'"
      by (auto simp: t'_def)
    with Cons.IH [OF t'(1,2), of s'] t' True granted show ?thesis
      by (force simp: step min_recovery_interval_def)
  next
    case False
    with idr_step_not_granted [of s e s'] step have "it_last_request s' = it_last_request s"
      by simp
    with Cons.IH [OF t'(1,2), of s'] t' False Cons.prems show ?thesis
      by (simp add: step)
  qed
qed simp

text \<open>
  C38. Within one session, two recovery key frames are never asked for less
  than half a second apart, whatever the headset reports and however often the
  session loop polls. The clock is only assumed not to run backwards and to be
  past its origin.
\<close>

theorem recovery_floor:
  assumes "timed idr_at t es" and "0 < t"
  shows "sorted_wrt (\<lambda>a b. b - a \<ge> ms 500) (grants idr_init es)"
  using grants_separated [OF assms, of idr_init] assms(2)
  by (simp add: idr_init_def min_recovery_interval_def)

theorem recovery_floor_witness:
  "sorted_wrt (\<lambda>a b. b - a \<ge> ms 500)
     (grants idr_init
        [Sent 1 True, Feedback \<lparr>frame_index = 1, stream_index = 0, sent_to_decoder = 0,
           received_first_packet = 0, received_last_packet = 0, received_from_decoder = 0,
           blitted = 0, times_displayed = 0\<rparr> (ms 10),
         Sent 2 True, Feedback \<lparr>frame_index = 2, stream_index = 0, sent_to_decoder = 0,
           received_first_packet = 0, received_last_packet = 0, received_from_decoder = 0,
           blitted = 0, times_displayed = 0\<rparr> (ms 20),
         Poll (ms 30), Poll (ms 600)])"
  by (rule recovery_floor [where t = "ms 1"]) simp_all

section \<open>No request is lost, none is repeated\<close>

lemma pending_survives:
  assumes "it_pending s" and "no_idr_sent es"
  shows "grants s es \<noteq> []
    \<or> (it_pending (foldl idr_next s es)
        \<and> it_last_request (foldl idr_next s es) = it_last_request s)"
  using assms
proof (induction es arbitrary: s)
  case (Cons e es)
  obtain g s' where step: "idr_step s e = (g, s')" by (cases "idr_step s e")
  show ?case
  proof (cases g)
    case False
    with step have step: "idr_step s e = (False, s')" by simp
    from Cons.prems have e: "no_idr_sent [e]" "no_idr_sent es"
      by (simp_all add: no_idr_sent_def)
    from idr_step_pending [OF step Cons.prems(1) e(1)] Cons.IH [OF _ e(2), of s']
      idr_step_not_granted [OF step]
    show ?thesis by (auto simp: step idr_next_def)
  qed (simp add: step)
qed simp

text \<open>
  C39. A frame the headset lost while the stream was running is recovered: if
  no key frame goes out in the meantime, then at the latest the first poll
  half a second after the report asks for one, whatever else happens in
  between. A request that falls inside the damping floor is held, not dropped.
\<close>

theorem loss_is_recovered:
  assumes "it_state s = Running" and "sent_to_decoder f = 0"
    and "it_first_p s \<le> frame_index f" and "it_last_request s \<le> t"
    and "no_idr_sent es" and "t + ms 500 \<le> T"
  shows "grants s (Feedback f t # es @ [Poll T]) \<noteq> []"
proof -
  obtain g s' where step: "idr_on_feedback f t s = (g, s')" by (cases "idr_on_feedback f t s")
  show ?thesis
  proof (cases g)
    case False
    with step assms have s': "it_pending s'" "it_last_request s' = it_last_request s"
      by (auto simp: idr_on_feedback_def idr_request_def split: if_splits)
    with pending_survives [OF s'(1) assms(5)] assms show ?thesis
      by (auto simp: step grants_append idr_poll_def min_recovery_interval_def)
  qed (simp add: step)
qed

theorem loss_is_recovered_witness:
  "grants (idr_init\<lparr>it_state := Running, it_first_p := 3, it_last_request := ms 900\<rparr>)
     (Feedback \<lparr>frame_index = 5, stream_index = 0, sent_to_decoder = 0,
           received_first_packet = 0, received_last_packet = 0, received_from_decoder = 0,
           blitted = 0, times_displayed = 0\<rparr> (ms 1000) #
      [Sent 6 False, Poll (ms 1200)] @ [Poll (ms 1500)]) \<noteq> []"
  by (rule loss_is_recovered) (simp_all add: no_idr_sent_def idr_init_def)

definition idr_inv :: "idr_tracker \<Rightarrow> bool" where
  "idr_inv s \<longleftrightarrow> (it_pending s \<longrightarrow> it_state s = Need_idr)"

interpretation idr: machine_invariant idr_next idr_inv
proof
  fix s e
  assume "idr_inv s"
  then show "idr_inv (idr_next s e)"
    by (cases e) (auto simp: idr_next_def idr_inv_def idr_defs split: idr_state.splits)
qed

lemma idr_inv_init: "idr_inv idr_init"
  by (simp add: idr_inv_def idr_init_def)

lemma grants_need_idr:
  assumes "it_state s = Need_idr" and "no_idr_sent es"
  shows "length (grants s es) \<le> (if it_pending s then 1 else 0)"
  using assms
proof (induction es arbitrary: s)
  case (Cons e es)
  obtain g s' where step: "idr_step s e = (g, s')" by (cases "idr_step s e")
  with Cons.prems have "it_state s' = Need_idr" "no_idr_sent es"
    "g \<longrightarrow> it_pending s \<and> \<not> it_pending s'" "\<not> g \<longrightarrow> it_pending s' = it_pending s"
    by (cases e; auto simp: idr_defs no_idr_sent_def split: if_splits)+
  with Cons.IH [of s'] show ?case by (auto simp: step split: if_splits)
qed simp

lemma grants_at_most_one:
  assumes "idr_inv s" and "no_idr_sent es"
  shows "length (grants s es) \<le> 1"
  using assms
proof (induction es arbitrary: s)
  case (Cons e es)
  show ?case
  proof (cases "it_state s = Need_idr")
    case True
    with grants_need_idr [OF True Cons.prems(2)] show ?thesis by (simp split: if_splits)
  next
    case False
    obtain g s' where step: "idr_step s e = (g, s')" by (cases "idr_step s e")
    have es: "no_idr_sent es" using Cons.prems by (simp add: no_idr_sent_def)
    have inv: "idr_inv s'"
      using idr.inv_step [OF Cons.prems(1), of e] by (simp add: idr_next_def step)
    show ?thesis
    proof (cases g)
      case True
      with step False Cons.prems have "it_state s' = Need_idr" "\<not> it_pending s'"
        by (cases e; auto simp: idr_defs idr_inv_def split: idr_state.splits if_splits)+
      with grants_need_idr [OF _ es, of s'] step True show ?thesis by simp
    next
      case False
      with Cons.IH [OF inv es] step show ?thesis by simp
    qed
  qed
qed simp

text \<open>
  A burst of feedback about the same loss asks for one key frame: between
  two key frames put on the wire, at most one request is made, after any
  history of the session.
\<close>

theorem one_request_per_key_frame:
  assumes "no_idr_sent es"
  shows "length (grants (foldl idr_next idr_init history) es) \<le> 1"
  by (rule grants_at_most_one [OF idr.inv_run [OF idr_inv_init] assms])

theorem one_request_per_key_frame_witness:
  "length (grants (foldl idr_next idr_init [Sent 1 True])
     [Feedback \<lparr>frame_index = 1, stream_index = 0, sent_to_decoder = 0,
           received_first_packet = 0, received_last_packet = 0, received_from_decoder = 0,
           blitted = 0, times_displayed = 0\<rparr> (ms 1000), Poll (ms 1000), Poll (ms 2000)]) \<le> 1"
  by (rule one_request_per_key_frame) (simp add: no_idr_sent_def)

end
