(* ===== verification/Ieee.thy ===== *)
theory Ieee
  imports Complex_Main Prelude
begin

text \<open>
  The floating point arithmetic of the C++ sources: IEEE 754 binary32 and
  binary64 with round-to-nearest-even, as the compilers the project builds with
  provide it. A finite value is the rational number it stands for, so the
  operations are the exact ones followed by one rounding, and everything
  computes. The two zeros are one value here: the sources never divide by a
  zero, print a zero or look at its sign.
\<close>

section \<open>Values and formats\<close>

datatype fp = NaN | Inf bool | Num rat

datatype format = F32 | F64

fun prec :: "format \<Rightarrow> nat" where
  "prec F32 = 24"
| "prec F64 = 53"

text \<open>Exponent of the least subnormal, and the largest finite value.\<close>

fun emin :: "format \<Rightarrow> int" where
  "emin F32 = - 149"
| "emin F64 = - 1074"

fun fmax :: "format \<Rightarrow> rat" where
  "fmax F32 = (2 ^ 24 - 1) * 2 ^ 104"
| "fmax F64 = (2 ^ 53 - 1) * 2 ^ 971"

section \<open>Binary logarithm\<close>

fun log2_nat :: "nat \<Rightarrow> nat" where
  "log2_nat n = (if n \<le> 1 then 0 else Suc (log2_nat (n div 2)))"

declare log2_nat.simps [simp del]

lemma log2_nat_bounds: "0 < n \<Longrightarrow> 2 ^ log2_nat n \<le> n \<and> n < 2 ^ Suc (log2_nat n)"
proof (induction n rule: log2_nat.induct)
  case (1 n)
  show ?case
  proof (cases "n \<le> 1")
    case True
    with "1.prems" show ?thesis by (simp add: log2_nat.simps)
  next
    case False
    with "1.IH" have "2 ^ log2_nat (n div 2) \<le> n div 2 \<and> n div 2 < 2 ^ Suc (log2_nat (n div 2))"
      by simp
    with False show ?thesis by (subst (1 2) log2_nat.simps) auto
  qed
qed

text \<open>The same on integers, whose binary numerals evaluate fast.\<close>

function log2_int :: "int \<Rightarrow> int" where
  "log2_int n = (if n \<le> 1 then 0 else log2_int (n div 2) + 1)"
  by pat_completeness auto
termination
  by (relation "measure nat") auto

declare log2_int.simps [simp del]

lemma log2_int_nat: "log2_int n = int (log2_nat (nat n))"
proof (induction n rule: log2_int.induct)
  case (1 n)
  show ?case
  proof (cases "n \<le> 1")
    case True
    then show ?thesis by (simp add: log2_int.simps log2_nat.simps)
  next
    case False
    with 1 have "log2_int (n div 2) = int (log2_nat (nat n div 2))"
      by (simp add: nat_div_distrib)
    with False show ?thesis by (subst log2_int.simps, subst log2_nat.simps) auto
  qed
qed

definition ilog2 :: "rat \<Rightarrow> int" where
  "ilog2 x = (if 1 \<le> x then log2_int \<lfloor>x\<rfloor> else - (log2_int (\<lceil>1 / x\<rceil> - 1) + 1))"

abbreviation two :: "int \<Rightarrow> rat" where
  "two e \<equiv> 2 powi e"

lemma two_mono: "a \<le> b \<Longrightarrow> two a \<le> two b"
  by (simp add: power_int_increasing)

lemma two_add: "two (a + b) = two a * two b"
  by (simp add: power_int_add)

lemma ilog2_bounds:
  assumes "0 < x"
  shows "two (ilog2 x) \<le> x \<and> x < two (ilog2 x + 1)"
proof (cases "1 \<le> x")
  case True
  define n where "n = nat \<lfloor>x\<rfloor>"
  have n: "0 < n" "of_nat n = (of_int \<lfloor>x\<rfloor> :: rat)" using True by (auto simp: n_def)
  from log2_nat_bounds [OF n(1)] have b: "2 ^ log2_nat n \<le> n" "n + 1 \<le> 2 ^ Suc (log2_nat n)" by auto
  have "(2 :: rat) ^ log2_nat n \<le> of_nat n" using b(1) by (metis of_nat_le_iff of_nat_numeral of_nat_power)
  moreover have "of_nat (n + 1) \<le> (2 :: rat) ^ Suc (log2_nat n)"
    using b(2) by (metis of_nat_le_iff of_nat_numeral of_nat_power)
  ultimately have "(2 :: rat) ^ log2_nat n \<le> of_int \<lfloor>x\<rfloor>" "of_int \<lfloor>x\<rfloor> + 1 \<le> (2 :: rat) ^ Suc (log2_nat n)"
    using n(2) by simp_all
  then have "(2 :: rat) ^ log2_nat n \<le> x" "x < 2 ^ Suc (log2_nat n)"
    using of_int_floor_le [of x] floor_correct [of x] by linarith+
  moreover have "ilog2 x = int (log2_nat n)" using True by (simp add: ilog2_def log2_int_nat n_def)
  ultimately show ?thesis by (simp add: power_int_def nat_add_distrib)
next
  case False
  define m where "m = \<lceil>1 / x\<rceil>"
  define n where "n = nat (m - 1)"
  define c where "c = Suc (log2_nat n)"
  have y: "1 < 1 / x" using False assms by simp
  have m: "1 < m" unfolding m_def using y by (simp only: less_ceiling_iff of_int_1)
  then have n: "0 < n" "of_nat n = (of_int m - 1 :: rat)" by (simp_all add: n_def)
  from log2_nat_bounds [OF n(1)] have b: "2 ^ log2_nat n \<le> n" "n + 1 \<le> 2 ^ c" by (auto simp: c_def)
  have "(2 :: rat) ^ log2_nat n \<le> of_nat n" using b(1) by (metis of_nat_le_iff of_nat_numeral of_nat_power)
  moreover have "of_nat (n + 1) \<le> (2 :: rat) ^ c"
    using b(2) by (metis of_nat_le_iff of_nat_numeral of_nat_power)
  ultimately have "(2 :: rat) ^ log2_nat n \<le> of_int m - 1" "of_int m \<le> (2 :: rat) ^ c"
    using n(2) by simp_all
  then have "(2 :: rat) ^ log2_nat n < 1 / x" "1 / x \<le> 2 ^ c"
    using ceiling_correct [of "1 / x"] unfolding m_def by linarith+
  then have "1 / 2 ^ c \<le> x" "x < 1 / 2 ^ log2_nat n"
    using assms by (auto simp: field_simps)
  moreover have "ilog2 x = - int c" using False by (simp add: ilog2_def log2_int_nat m_def n_def c_def)
  moreover from this have "ilog2 x + 1 = - int (log2_nat n)" by (simp add: c_def)
  ultimately show ?thesis by (simp only: power_int_minus power_int_of_nat inverse_eq_divide)
qed

lemma ilog2_le: "0 < x \<Longrightarrow> x < two (e + 1) \<Longrightarrow> ilog2 x \<le> e"
proof (rule ccontr)
  assume "0 < x" "x < two (e + 1)" "\<not> ilog2 x \<le> e"
  then have "two (e + 1) \<le> two (ilog2 x)" by (simp add: two_mono)
  with ilog2_bounds [OF \<open>0 < x\<close>] \<open>x < two (e + 1)\<close> show False by simp
qed

lemma ilog2_mono: "0 < x \<Longrightarrow> x \<le> y \<Longrightarrow> ilog2 x \<le> ilog2 y"
  using ilog2_le [of x "ilog2 y"] ilog2_bounds [of y] by simp

section \<open>Rounding\<close>

text \<open>Nearest integer, ties to even.\<close>

definition rhe :: "rat \<Rightarrow> int" where
  "rhe x = (let f = \<lfloor>x\<rfloor>; d = x - of_int f
     in if d < 1 / 2 then f else if 1 / 2 < d then f + 1 else if even f then f else f + 1)"

lemma rhe_near: "\<bar>of_int (rhe x) - x\<bar> \<le> 1 / 2"
proof -
  define d where "d = x - of_int \<lfloor>x\<rfloor>"
  have d: "0 \<le> d" "d < 1" "x = of_int \<lfloor>x\<rfloor> + d"
    using floor_correct [of x] by (simp_all add: d_def)
  then show ?thesis
    by (auto simp: rhe_def Let_def d_def [symmetric])
qed

lemma rhe_int [simp]: "rhe (of_int n) = n"
  by (simp add: rhe_def)

lemma rhe_mono: "x \<le> y \<Longrightarrow> rhe x \<le> rhe y"
proof -
  assume le: "x \<le> y"
  then have "\<lfloor>x\<rfloor> \<le> \<lfloor>y\<rfloor>" by (rule floor_mono)
  then consider "\<lfloor>x\<rfloor> = \<lfloor>y\<rfloor>" | "\<lfloor>x\<rfloor> + 1 \<le> \<lfloor>y\<rfloor>" by linarith
  then show ?thesis
    by cases (use le in \<open>auto simp: rhe_def Let_def\<close>)
qed

text \<open>
  The exponent of the last place of a value of this magnitude, and the
  rounding of a positive value with no bound on its size.
\<close>

definition ulp_exp :: "format \<Rightarrow> rat \<Rightarrow> int" where
  "ulp_exp f x = max (ilog2 x - (int (prec f) - 1)) (emin f)"

definition rn_pos :: "format \<Rightarrow> rat \<Rightarrow> rat" where
  "rn_pos f x = of_int (rhe (x / two (ulp_exp f x))) * two (ulp_exp f x)"

definition rn :: "format \<Rightarrow> rat \<Rightarrow> rat" where
  "rn f x = (if x = 0 then 0 else if x < 0 then - rn_pos f (- x) else rn_pos f x)"

definition round_fp :: "format \<Rightarrow> rat \<Rightarrow> fp" where
  "round_fp f x = (let y = rn f x in if fmax f < \<bar>y\<bar> then Inf (y < 0) else Num y)"

text \<open>For evaluation: a small result is compared with the largest value only when it has to be.\<close>

lemma round_fp_code [code]:
  "round_fp f x = (let y = rn f x
     in if \<bar>y\<bar> \<le> 18446744073709551616 then Num y else if fmax f < \<bar>y\<bar> then Inf (y < 0) else Num y)"
proof -
  have "18446744073709551616 \<le> fmax f" by (cases f) simp_all
  then show ?thesis by (auto simp: round_fp_def Let_def)
qed

lemma prec_pos: "0 < prec f"
  by (cases f) simp_all

lemma rn_pos_le_two:
  assumes "0 < x" and "x \<le> two e" and "ulp_exp f x \<le> e"
  shows "rn_pos f x \<le> two e"
proof -
  define u where "u = ulp_exp f x"
  have e: "two e = two (e - u) * two u" by (simp flip: two_add)
  have "two (e - u) = of_int (2 ^ nat (e - u))"
    using assms(3) by (simp add: u_def power_int_def)
  moreover have "x / two u \<le> two (e - u)"
    using assms(2) by (simp add: e field_simps)
  ultimately have "rhe (x / two u) \<le> 2 ^ nat (e - u)"
    by (metis rhe_int rhe_mono)
  then have "of_int (rhe (x / two u)) \<le> two (e - u)"
    using \<open>two (e - u) = _\<close> by (metis of_int_le_iff)
  then show ?thesis by (simp add: rn_pos_def u_def [symmetric] e mult_right_mono)
qed

lemma two_le_rn_pos:
  assumes "0 < x" and "two e \<le> x" and "ulp_exp f x \<le> e"
  shows "two e \<le> rn_pos f x"
proof -
  define u where "u = ulp_exp f x"
  have e: "two e = two (e - u) * two u" by (simp flip: two_add)
  have "two (e - u) = of_int (2 ^ nat (e - u))"
    using assms(3) by (simp add: u_def power_int_def)
  moreover have "two (e - u) \<le> x / two u"
    using assms(2) by (simp add: e field_simps)
  ultimately have "2 ^ nat (e - u) \<le> rhe (x / two u)"
    by (metis rhe_int rhe_mono)
  then have "two (e - u) \<le> of_int (rhe (x / two u))"
    using \<open>two (e - u) = _\<close> by (metis of_int_le_iff)
  then show ?thesis by (simp add: rn_pos_def u_def [symmetric] e mult_right_mono)
qed

lemma rn_pos_mono:
  assumes "0 < x" and "x \<le> y"
  shows "rn_pos f x \<le> rn_pos f y"
proof (cases "ulp_exp f x = ulp_exp f y")
  case True
  have "x / two (ulp_exp f y) \<le> y / two (ulp_exp f y)"
    using assms by (simp add: divide_right_mono)
  then have "rhe (x / two (ulp_exp f y)) \<le> rhe (y / two (ulp_exp f y))" by (rule rhe_mono)
  with True show ?thesis by (simp add: rn_pos_def mult_right_mono)
next
  case False
  have log: "ilog2 x \<le> ilog2 y" using assms by (rule ilog2_mono)
  with False have lt: "ilog2 x < ilog2 y" "ulp_exp f x \<le> ilog2 y" "ulp_exp f y \<le> ilog2 y"
    using prec_pos [of f] by (auto simp: ulp_exp_def max_def split: if_splits)
  have "x \<le> two (ilog2 y)"
    using ilog2_bounds [OF assms(1)] two_mono [of "ilog2 x + 1" "ilog2 y"] lt(1) by simp
  then have "rn_pos f x \<le> two (ilog2 y)" using rn_pos_le_two [OF assms(1)] lt(2) by blast
  also have "\<dots> \<le> rn_pos f y" using two_le_rn_pos [of y "ilog2 y" f] ilog2_bounds [of y] assms lt(3) by simp
  finally show ?thesis .
qed

lemma rn_pos_nonneg: "0 < x \<Longrightarrow> 0 \<le> rn_pos f x"
  using rhe_mono [of 0 "x / two (ulp_exp f x)"] rhe_int [of 0] by (simp add: rn_pos_def)

lemma rn_mono: "x \<le> y \<Longrightarrow> rn f x \<le> rn f y"
  using rn_pos_mono [of x y f] rn_pos_mono [of "- y" "- x" f] rn_pos_nonneg [of "- x" f] rn_pos_nonneg [of y f]
  by (auto simp: rn_def)

lemma rn_zero [simp]: "rn f 0 = 0"
  by (simp add: rn_def)

lemma rn_minus: "rn f (- x) = - rn f x"
  by (simp add: rn_def)

text \<open>Integers up to \<open>2 ^ prec\<close> are exact.\<close>

lemma rn_int:
  assumes "\<bar>n\<bar> < 2 ^ prec f"
  shows "rn f (of_int n) = of_int n"
proof -
  have pos: "rn_pos f (of_int m) = of_int m" if "0 < m" "m < 2 ^ prec f" for m
  proof -
    have "(of_int m :: rat) < two (int (prec f) - 1 + 1)"
      using that(2) by (simp add: power_int_def)
    then have "ilog2 (of_int m) \<le> int (prec f) - 1"
      using that(1) by (intro ilog2_le) simp_all
    then have u: "ulp_exp f (of_int m) \<le> 0" by (cases f) (simp_all add: ulp_exp_def)
    define k where "k = nat (- ulp_exp f (of_int m))"
    have "two (ulp_exp f (of_int m)) = 1 / 2 ^ k" using u by (simp add: k_def power_int_def field_simps)
    moreover have "rhe (of_int m * 2 ^ k) = m * 2 ^ k" using rhe_int [of "m * 2 ^ k"] by simp
    ultimately show ?thesis by (simp add: rn_pos_def)
  qed
  show ?thesis
    using pos [of n] pos [of "- n"] assms by (auto simp: rn_def)
qed

text \<open>For evaluation: small integers need no rounding.\<close>

lemma rn_code [code]:
  "rn f x = (if x = of_int \<lfloor>x\<rfloor> \<and> \<bar>\<lfloor>x\<rfloor>\<bar> < 16777216 then x
     else if x < 0 then - rn_pos f (- x) else rn_pos f x)"
proof (cases "x = of_int \<lfloor>x\<rfloor> \<and> \<bar>\<lfloor>x\<rfloor>\<bar> < 16777216")
  case True
  have "(16777216 :: int) \<le> 2 ^ prec f" by (cases f) simp_all
  with True have "rn f (of_int \<lfloor>x\<rfloor>) = of_int \<lfloor>x\<rfloor>" by (intro rn_int) simp
  with True show ?thesis by simp
next
  case False
  then have "x \<noteq> 0" by auto
  then show ?thesis unfolding if_not_P [OF False] by (simp only: rn_def if_False)
qed

lemma rn_int_bounds:
  assumes "of_int a \<le> x" and "x \<le> of_int b" and "\<bar>a\<bar> < 2 ^ prec f" and "\<bar>b\<bar> < 2 ^ prec f"
  shows "of_int a \<le> rn f x \<and> rn f x \<le> of_int b"
  using rn_mono [OF assms(1), of f] rn_mono [OF assms(2), of f] assms(3,4) by (simp add: rn_int)

section \<open>Operations\<close>

fun fp_neg :: "fp \<Rightarrow> fp" where
  "fp_neg NaN = NaN"
| "fp_neg (Inf s) = Inf (\<not> s)"
| "fp_neg (Num a) = Num (- a)"

fun fp_add :: "format \<Rightarrow> fp \<Rightarrow> fp \<Rightarrow> fp" where
  "fp_add f (Num a) (Num b) = round_fp f (a + b)"
| "fp_add f (Inf s) (Num _) = Inf s"
| "fp_add f (Num _) (Inf s) = Inf s"
| "fp_add f (Inf s) (Inf t) = (if s = t then Inf s else NaN)"
| "fp_add f _ _ = NaN"

definition fp_sub :: "format \<Rightarrow> fp \<Rightarrow> fp \<Rightarrow> fp" where
  "fp_sub f a b = fp_add f a (fp_neg b)"

fun fp_mul :: "format \<Rightarrow> fp \<Rightarrow> fp \<Rightarrow> fp" where
  "fp_mul f (Num a) (Num b) = round_fp f (a * b)"
| "fp_mul f (Inf s) (Num a) = (if a = 0 then NaN else Inf (s \<noteq> (a < 0)))"
| "fp_mul f (Num a) (Inf s) = (if a = 0 then NaN else Inf (s \<noteq> (a < 0)))"
| "fp_mul f (Inf s) (Inf t) = Inf (s \<noteq> t)"
| "fp_mul f _ _ = NaN"

fun fp_div :: "format \<Rightarrow> fp \<Rightarrow> fp \<Rightarrow> fp" where
  "fp_div f (Num a) (Num b) =
     (if b = 0 then (if a = 0 then NaN else Inf (a < 0)) else round_fp f (a / b))"
| "fp_div f (Inf s) (Num b) = Inf (s \<noteq> (b < 0))"
| "fp_div f (Num _) (Inf _) = Num 0"
| "fp_div f _ _ = NaN"

fun fp_abs :: "fp \<Rightarrow> fp" where
  "fp_abs NaN = NaN"
| "fp_abs (Inf _) = Inf False"
| "fp_abs (Num a) = Num \<bar>a\<bar>"

text \<open>Comparisons: every one with a NaN is false, except \<open>\<noteq>\<close>.\<close>

fun fp_lt :: "fp \<Rightarrow> fp \<Rightarrow> bool" where
  "fp_lt (Num a) (Num b) = (a < b)"
| "fp_lt (Inf s) (Num _) = s"
| "fp_lt (Num _) (Inf s) = (\<not> s)"
| "fp_lt (Inf s) (Inf t) = (s \<and> \<not> t)"
| "fp_lt _ _ = False"

fun fp_eq :: "fp \<Rightarrow> fp \<Rightarrow> bool" where
  "fp_eq (Num a) (Num b) = (a = b)"
| "fp_eq (Inf s) (Inf t) = (s = t)"
| "fp_eq _ _ = False"

definition fp_le :: "fp \<Rightarrow> fp \<Rightarrow> bool" where
  "fp_le a b \<longleftrightarrow> fp_lt a b \<or> fp_eq a b"

text \<open>\<^verbatim>\<open>std::min\<close> and \<^verbatim>\<open>std::max\<close>: the second argument only if it compares smaller, or larger.\<close>

definition fp_min :: "fp \<Rightarrow> fp \<Rightarrow> fp" where
  "fp_min a b = (if fp_lt b a then b else a)"

definition fp_max :: "fp \<Rightarrow> fp \<Rightarrow> fp" where
  "fp_max a b = (if fp_lt a b then b else a)"

text \<open>\<^verbatim>\<open>std::clamp(v, lo, hi)\<close>.\<close>

definition fp_clamp :: "fp \<Rightarrow> fp \<Rightarrow> fp \<Rightarrow> fp" where
  "fp_clamp v lo hi = (if fp_lt v lo then lo else if fp_lt hi v then hi else v)"

fun is_num :: "fp \<Rightarrow> bool" where
  "is_num (Num _) = True"
| "is_num _ = False"

text \<open>Conversions: from integers and literals, between the formats, and back to integers.\<close>

definition fp_of_int :: "format \<Rightarrow> int \<Rightarrow> fp" where
  "fp_of_int f n = round_fp f (of_int n)"

fun fp_convert :: "format \<Rightarrow> fp \<Rightarrow> fp" where
  "fp_convert f (Num a) = round_fp f a"
| "fp_convert f x = x"

definition trunc :: "rat \<Rightarrow> int" where
  "trunc x = (if x < 0 then \<lceil>x\<rceil> else \<lfloor>x\<rfloor>)"

text \<open>
  C++ leaves a conversion whose truncated value does not fit undefined; the
  value used here is the one the x86-64 conversion instructions deliver, with
  only the top bit set.
\<close>

fun fp_to_i64 :: "fp \<Rightarrow> int" where
  "fp_to_i64 (Num a) = (if - (2 ^ 63) \<le> trunc a \<and> trunc a < 2 ^ 63 then trunc a else - (2 ^ 63))"
| "fp_to_i64 _ = - (2 ^ 63)"

fun fp_to_u64 :: "fp \<Rightarrow> int" where
  "fp_to_u64 (Num a) = (if 0 \<le> trunc a \<and> trunc a < 2 ^ 64 then trunc a else 2 ^ 63)"
| "fp_to_u64 _ = 2 ^ 63"

fun fp_to_u32 :: "fp \<Rightarrow> int" where
  "fp_to_u32 (Num a) = (if 0 \<le> trunc a \<and> trunc a < 2 ^ 32 then trunc a else 2 ^ 31)"
| "fp_to_u32 _ = 2 ^ 31"

subsection \<open>Facts the components use\<close>

lemma fp_clamp_num:
  "fp_clamp (Num v) (Num lo) (Num hi) = Num (if v < lo then lo else if hi < v then hi else v)"
  by (simp add: fp_clamp_def)

lemma rat_succ_le_power: "n < 2 ^ k \<Longrightarrow> (of_int n :: rat) + 1 \<le> 2 ^ k"
proof -
  assume "n < 2 ^ k"
  then have "n + 1 \<le> 2 ^ k" by simp
  then have "(of_int (n + 1) :: rat) \<le> of_int (2 ^ k)" by (simp only: of_int_le_iff)
  then show ?thesis by simp
qed

lemma round_fp_bounded:
  assumes "of_int a \<le> x" and "x \<le> of_int b" and "\<bar>a\<bar> < 2 ^ prec f" and "\<bar>b\<bar> < 2 ^ prec f"
  obtains y where "round_fp f x = Num y" and "of_int a \<le> y" and "y \<le> of_int b"
proof
  note b = rn_int_bounds [OF assms]
  have "(of_int \<bar>a\<bar> :: rat) \<le> fmax f" "(of_int \<bar>b\<bar> :: rat) \<le> fmax f"
  proof -
    have "(2 ^ prec f :: rat) \<le> fmax f + 1" by (cases f) simp_all
    moreover have "(of_int \<bar>a\<bar> :: rat) + 1 \<le> 2 ^ prec f" "(of_int \<bar>b\<bar> :: rat) + 1 \<le> 2 ^ prec f"
      using rat_succ_le_power assms(3,4) by blast+
    ultimately show "(of_int \<bar>a\<bar> :: rat) \<le> fmax f" "(of_int \<bar>b\<bar> :: rat) \<le> fmax f" by linarith+
  qed
  with b have "\<bar>rn f x\<bar> \<le> fmax f" by (auto simp: abs_if split: if_splits)
  then show "round_fp f x = Num (rn f x)" by (simp add: round_fp_def)
  show "of_int a \<le> rn f x" "rn f x \<le> of_int b" using b by simp_all
qed

lemma fp_of_int_exact:
  assumes "\<bar>n\<bar> < 2 ^ prec f"
  shows "fp_of_int f n = Num (of_int n)"
proof -
  from assms obtain y where "round_fp f (of_int n) = Num y" "of_int n \<le> y" "y \<le> of_int n"
    using round_fp_bounded [of n "of_int n" n f] by auto
  then show ?thesis by (simp add: fp_of_int_def)
qed

lemma trunc_bounds:
  assumes "of_int a \<le> x" and "x \<le> of_int b"
  shows "a \<le> trunc x \<and> trunc x \<le> b"
  using assms by (auto simp: trunc_def le_floor_iff ceiling_le_iff floor_le_iff le_ceiling_iff)

lemma rn_le_two: "x \<le> two e \<Longrightarrow> emin f \<le> e \<Longrightarrow> rn f x \<le> two e"
proof -
  assume x: "x \<le> two e" and e: "emin f \<le> e"
  show ?thesis
  proof (cases "0 < x")
    case True
    have pos: "(0 :: rat) < two e" by simp
    have "x < two (e + 1)" unfolding two_add using x pos by (simp only: power_int_1_right)
    then have "ilog2 x \<le> e" by (rule ilog2_le [OF True])
    then have "ulp_exp f x \<le> e" using prec_pos [of f] e by (simp add: ulp_exp_def)
    with True x show ?thesis by (simp add: rn_def rn_pos_le_two)
  next
    case False
    then have "rn f x \<le> rn f 0" by (intro rn_mono) simp
    then show ?thesis by (simp add: order_trans [of _ 0])
  qed
qed

lemma rn_nonneg: "0 \<le> x \<Longrightarrow> 0 \<le> rn f x"
  using rn_mono [of 0 x f] by simp

text \<open>Halves of integers are exact too.\<close>

lemma rn_half_int:
  assumes "0 < n" and "n < 2 ^ prec f"
  shows "rn f (of_int n / 2) = of_int n / 2"
proof -
  have "(of_int n :: rat) < of_int (2 ^ prec f)" using assms(2) by (simp only: of_int_less_iff)
  then have "(of_int n / 2 :: rat) < two (int (prec f) - 2 + 1)"
    using prec_pos [of f] by (simp add: power_int_diff field_simps)
  then have "ilog2 (of_int n / 2) \<le> int (prec f) - 2"
    using assms(1) by (intro ilog2_le) simp_all
  then have u: "ulp_exp f (of_int n / 2) \<le> - 1" by (cases f) (simp_all add: ulp_exp_def)
  define k where "k = nat (- 1 - ulp_exp f (of_int n / 2))"
  have "ulp_exp f (of_int n / 2) = - int (Suc k)" using u by (simp add: k_def)
  then have "two (ulp_exp f (of_int n / 2)) = 1 / 2 ^ Suc k"
    by (simp only: power_int_minus power_int_of_nat inverse_eq_divide)
  moreover have "rhe (of_int n * 2 ^ k) = n * 2 ^ k" using rhe_int [of "n * 2 ^ k"] by simp
  ultimately show ?thesis using assms(1) by (simp add: rn_def rn_pos_def)
qed

end
