(* ===== verification/Shard_Pacer.thy ===== *)
theory Shard_Pacer
  imports Ieee
begin

text \<open>
  The leaky-bucket schedule of one frame's shards and the pacing window of a
  frame slot: \<^verbatim>\<open>helper/src/wivrn/shard_pacer.h\<close>. Byte counts are the 64-bit
  \<^verbatim>\<open>size_t\<close> of the build, so the product in \<^verbatim>\<open>deadline\<close> wraps as it does there;
  the window fraction is a binary32 value and is multiplied as one.
\<close>

section \<open>The schedule of one frame\<close>

definition group_bytes :: u64 where "group_bytes = 12 * 1024"
definition min_sleep_ns :: time_ns where "min_sleep_ns = 150000"
definition max_window :: fp where "max_window = Num (1 / 2)"

record shard_pacer =
  pc_start :: time_ns
  pc_budget :: time_ns
  pc_total :: u64
  pc_next_group :: u64

definition pacer_inactive :: shard_pacer where
  "pacer_inactive = \<lparr>pc_start = 0, pc_budget = 0, pc_total = 0, pc_next_group = group_bytes\<rparr>"

definition shard_pacer_new :: "time_ns \<Rightarrow> time_ns \<Rightarrow> u64 \<Rightarrow> shard_pacer" where
  "shard_pacer_new start_ns budget_ns total_bytes =
     \<lparr>pc_start = start_ns, pc_budget = max budget_ns 0, pc_total = total_bytes,
      pc_next_group = group_bytes\<rparr>"

definition pacer_active :: "shard_pacer \<Rightarrow> bool" where
  "pacer_active p \<longleftrightarrow> 0 < pc_budget p \<and> group_bytes < pc_total p"

definition window_ns :: "shard_pacer \<Rightarrow> time_ns" where
  "window_ns p = (if pacer_active p then pc_budget p else 0)"

definition deadline :: "u64 \<Rightarrow> shard_pacer \<Rightarrow> time_ns" where
  "deadline offset p =
     (if \<not> pacer_active p then pc_start p
      else if pc_total p \<le> offset then pc_start p + pc_budget p
      else pc_start p + sint ((word_of_int (pc_budget p) * offset) div pc_total p))"

definition group_count :: "shard_pacer \<Rightarrow> u64" where
  "group_count p = (if \<not> pacer_active p then 1
     else (pc_total p + group_bytes - 1) div group_bytes)"

definition group_deadline :: "u64 \<Rightarrow> shard_pacer \<Rightarrow> time_ns" where
  "group_deadline index p = deadline (min (index * group_bytes) (pc_total p)) p"

definition wait_until :: "u64 \<Rightarrow> time_ns \<Rightarrow> shard_pacer \<Rightarrow> time_ns option \<times> shard_pacer" where
  "wait_until sent_bytes now p =
     (if \<not> pacer_active p \<or> sent_bytes < pc_next_group p \<or> pc_total p \<le> sent_bytes then (None, p)
      else let p' = p\<lparr>pc_next_group := (sent_bytes div group_bytes + 1) * group_bytes\<rparr>;
               due = deadline sent_bytes p'
           in if due - now < min_sleep_ns then (None, p') else (Some due, p'))"

section \<open>The window of a frame slot\<close>

record pacing_slot =
  sl_slot_start :: time_ns
  sl_slot_open :: bool

definition pacing_slot_new :: pacing_slot where
  "pacing_slot_new = \<lparr>sl_slot_start = 0, sl_slot_open = False\<rparr>"

definition pacing_slot_reset :: "pacing_slot \<Rightarrow> pacing_slot" where
  "pacing_slot_reset s = s\<lparr>sl_slot_open := False\<rparr>"

definition begin_frame ::
    "time_ns \<Rightarrow> time_ns \<Rightarrow> fp \<Rightarrow> u64 \<Rightarrow> pacing_slot \<Rightarrow> time_ns \<times> pacing_slot" where
  "begin_frame now frame_period_ns window queued s =
     (if frame_period_ns \<le> 0 \<or> fp_le window (Num 0) then (0, s)
      else let full = fp_to_i64 (fp_mul F32 (fp_of_int F32 frame_period_ns)
                        (fp_clamp window (Num 0) max_window));
               s' = (if \<not> sl_slot_open s \<or> frame_period_ns \<le> now - sl_slot_start s
                     then s\<lparr>sl_slot_start := now, sl_slot_open := True\<rparr> else s);
               left = sl_slot_start s' + full - now
           in if left \<le> 0 then (0, s') else (cdiv left (sint (queued + 1)), s'))"

section \<open>The schedule stays in its budget\<close>

lemma div_total_bound:
  fixes b o' t :: "64 word"
  assumes "t \<noteq> 0" and "o' < t"
  shows "uint (b * o' div t) \<le> uint b"
proof -
  have "uint (b * o') \<le> uint b * uint o'"
    by (simp add: uint_word_ariths zmod_le_nonneg_dividend)
  moreover have t: "0 < uint t" using assms(1) by (simp add: word_neq_0_conv word_less_def)
  ultimately have "uint (b * o') div uint t \<le> (uint b * uint o') div uint t"
    by (rule zdiv_mono1)
  also have "\<dots> \<le> (uint b * uint t) div uint t"
    using assms t by (intro zdiv_mono1 mult_left_mono) (simp_all add: word_less_def)
  also have "\<dots> = uint b" using t by simp
  finally show ?thesis by (simp add: uint_div)
qed

lemma sint_small: "uint (w :: 64 word) < 2 ^ 63 \<Longrightarrow> sint w = uint w"
  by (simp add: sint_uint signed_take_bit_int_eq_self order_trans [OF _ uint_ge_0])

lemma deadline_share:
  assumes "pacer_active p" and "pc_budget p < 2 ^ 63" and "offset < pc_total p"
  shows "deadline offset p = pc_start p + uint ((word_of_int (pc_budget p) * offset) div pc_total p)"
    and "uint ((word_of_int (pc_budget p) * offset) div pc_total p) \<le> pc_budget p"
proof -
  have b: "uint (word_of_int (pc_budget p) :: u64) = pc_budget p"
    using assms by (simp add: pacer_active_def uint_word_of_int)
  show le: "uint ((word_of_int (pc_budget p) * offset) div pc_total p) \<le> pc_budget p"
    using div_total_bound [of "pc_total p" offset "word_of_int (pc_budget p)"] assms(3) b
    by (cases "pc_total p = 0") auto
  with assms leD [of "pc_total p" offset] show "deadline offset p =
      pc_start p + uint ((word_of_int (pc_budget p) * offset) div pc_total p)"
    by (auto simp: deadline_def not_le sint_small)
qed

lemma deadline_bounds:
  assumes "0 \<le> pc_budget p" and "pc_budget p < 2 ^ 63"
  shows "pc_start p \<le> deadline offset p \<and> deadline offset p \<le> pc_start p + pc_budget p"
proof (cases "pacer_active p \<and> offset < pc_total p")
  case True
  with deadline_share [of p offset] assms show ?thesis by auto
next
  case False
  with assms show ?thesis by (auto simp: deadline_def not_less)
qed

lemma deadline_mono:
  assumes "0 \<le> pc_budget p" and "pc_budget p < 2 ^ 63"
    and "pc_budget p * uint (pc_total p) < 2 ^ 64" and "x \<le> y"
  shows "deadline x p \<le> deadline y p"
proof (cases "pacer_active p \<and> y < pc_total p")
  case True
  have exact: "uint ((word_of_int (pc_budget p) :: u64) * z) = pc_budget p * uint z"
    if "z < pc_total p" for z
  proof -
    have "pc_budget p * uint z \<le> pc_budget p * uint (pc_total p)"
      using that assms(1) by (intro mult_left_mono) (simp_all add: word_less_def)
    with assms show ?thesis by (simp add: uint_word_ariths uint_word_of_int)
  qed
  have x: "x < pc_total p" using True assms(4) by auto
  have total: "0 < uint (pc_total p)" using True order_le_less_trans [OF uint_ge_0 [of y]] by (simp add: word_less_def)
  have "pc_budget p * uint x div uint (pc_total p) \<le> pc_budget p * uint y div uint (pc_total p)"
    using assms(1,4) True total by (intro zdiv_mono1 mult_left_mono) (auto simp: word_le_def)
  then show ?thesis
    using True x deadline_share [of p x] deadline_share [of p y] assms(2)
    by (simp add: uint_div exact)
next
  case False
  then have "deadline y p = (if pacer_active p then pc_start p + pc_budget p else pc_start p)"
    by (auto simp: deadline_def)
  with deadline_bounds [OF assms(1,2), of x] show ?thesis by (auto simp: deadline_def)
qed

text \<open>
  Every byte's deadline lies between the frame's start and the end of its
  budget, whatever the sizes (even where the 64-bit product wraps); and as
  long as it does not wrap, a later byte never has an earlier deadline.
\<close>

theorem deadline_in_budget:
  assumes "budget_ns < 2 ^ 63" and "p = shard_pacer_new start_ns budget_ns total_bytes"
  shows "start_ns \<le> deadline x p \<and> deadline x p \<le> start_ns + max budget_ns 0
    \<and> (x \<le> y \<and> budget_ns * uint total_bytes < 2 ^ 64 \<longrightarrow> deadline x p \<le> deadline y p)"
  using deadline_bounds [of p x] deadline_mono [of p x y] assms
  by (auto simp: shard_pacer_new_def max_def)

theorem deadline_in_budget_witness:
  "let p = shard_pacer_new 1000 4000000 100000 in
   1000 \<le> deadline 25000 p \<and> deadline 25000 p \<le> 1000 + max 4000000 0
    \<and> deadline 25000 p \<le> deadline 50000 p \<and> deadline 50000 p = 2001000"
  using deadline_in_budget [of 4000000 "shard_pacer_new 1000 4000000 100000" 1000 100000 25000 50000]
  by (simp add: Let_def deadline_def shard_pacer_new_def pacer_active_def group_bytes_def)

section \<open>A pause is worth taking, and is taken once per micro-burst\<close>

lemma wait_until_some:
  assumes "wait_until sent now p = (Some due, p')"
  shows "due = deadline sent p" and "min_sleep_ns \<le> due - now"
    and "pc_next_group p \<le> sent" and "sent < pc_total p" and "pacer_active p"
  using assms by (auto simp: wait_until_def Let_def deadline_def pacer_active_def split: if_splits)

lemma wait_until_frame:
  "wait_until sent now p = (r, p') \<Longrightarrow>
     pc_start p' = pc_start p \<and> pc_budget p' = pc_budget p \<and> pc_total p' = pc_total p"
  by (auto simp: wait_until_def Let_def split: if_splits)

lemma wait_until_inactive: "\<not> pacer_active p \<Longrightarrow> wait_until sent now p = (None, p)"
  by (simp add: wait_until_def)

section \<open>The slot's window\<close>

lemma half_window: "\<exists>w :: rat. w * 2 = 1 \<and> 0 \<le> w \<and> w * 2 \<le> 1"
  by (rule exI [of _ "1 / 2"]) simp

lemma clamp_window:
  assumes "\<not> fp_le window (Num 0)"
  shows "fp_clamp window (Num 0) max_window = NaN
    \<or> (\<exists>w. fp_clamp window (Num 0) max_window = Num w \<and> 0 \<le> w \<and> w \<le> 1 / 2)"
  using assms half_window by (cases window) (auto simp: fp_clamp_def max_window_def fp_le_def)

text \<open>The window in nanoseconds, for a period and a clamped fraction.\<close>

lemma full_window_bounds:
  assumes "0 < period" and "0 \<le> w" and "w \<le> 1 / 2" and "period < 2 ^ 62"
  shows "0 \<le> fp_to_i64 (fp_mul F32 (fp_of_int F32 period) (Num w))
    \<and> fp_to_i64 (fp_mul F32 (fp_of_int F32 period) (Num w)) \<le> period
    \<and> (period < 2 ^ 24 \<longrightarrow> 2 * fp_to_i64 (fp_mul F32 (fp_of_int F32 period) (Num w)) \<le> period)"
proof -
  define e where "e = ilog2 (of_int period)"
  have e: "two e \<le> of_int period" "(of_int period :: rat) < two (e + 1)"
    using ilog2_bounds [of "of_int period"] assms(1) by (simp_all add: e_def)
  have e0: "0 \<le> e" using ilog2_mono [of 1 "of_int period"] assms(1) by (simp add: e_def ilog2_def log2_int.simps)
  define q where "q = rn F32 (of_int period)"
  have q: "0 \<le> q" "q \<le> two (e + 1)"
    using rn_nonneg [of "of_int period" F32] rn_le_two [of "of_int period" "e + 1" F32] e e0 assms(1)
    by (simp_all add: q_def)
  have e62: "e \<le> 62" using ilog2_le [of "of_int period" 62] assms by (simp add: e_def)
  have top: "two (e + 1) \<le> fmax F32" "two e \<le> fmax F32"
    using two_mono [of "e + 1" 63] two_mono [of e 63] e62 by simp_all
  have num: "fp_of_int F32 period = Num q"
    using q top by (simp add: fp_of_int_def round_fp_def q_def [symmetric])
  define r where "r = rn F32 (q * w)"
  have "q * w \<le> two (e + 1) * (1 / 2)" using q assms by (intro mult_mono) simp_all
  then have qw: "q * w \<le> two e" by (simp add: power_int_add_1')
  have r: "0 \<le> r" "r \<le> two e" "r \<le> of_int period"
    using rn_nonneg [of "q * w" F32] rn_le_two [OF qw, of F32] q assms e e0 by (simp_all add: r_def)
  have mul: "fp_mul F32 (fp_of_int F32 period) (Num w) = Num r"
    using r top by (simp add: num round_fp_def r_def [symmetric])
  have t: "0 \<le> trunc r" "trunc r \<le> period" using trunc_bounds [of 0 r period] r by simp_all
  then have to: "fp_to_i64 (Num r) = trunc r" using assms(4) by simp
  have half: "2 * trunc r \<le> period" if "period < 2 ^ 24"
  proof -
    have "q = of_int period" using rn_int [of period F32] assms that by (simp add: q_def)
    then have "q * w \<le> of_int period / 2" using assms mult_left_mono [of w "1 / 2" "of_int period"] by simp
    then have "r \<le> rn F32 (of_int period / 2)" unfolding r_def by (rule rn_mono)
    moreover have "rn F32 (of_int period / 2) = of_int period / 2"
      by (rule rn_half_int) (use that assms in simp_all)
    ultimately have "2 * r \<le> of_int period" by simp
    moreover have "of_int (trunc r) \<le> r" using r(1) by (simp add: trunc_def)
    ultimately have "(of_int (2 * trunc r) :: rat) \<le> of_int period" by simp
    then show ?thesis by (simp only: of_int_le_iff)
  qed
  show ?thesis using t to half by (simp add: mul)
qed

lemma begin_frame_share:
  assumes "0 < left" and "uint (queued :: u64) < 2 ^ 62"
  shows "0 \<le> cdiv left (sint (queued + 1)) \<and> cdiv left (sint (queued + 1)) * (uint queued + 1) \<le> left"
proof -
  have "uint (queued + 1) = uint queued + 1"
    using assms(2) by (simp add: uint_word_ariths)
  then have "sint (queued + 1) = uint queued + 1"
    using assms(2) sint_small [of "queued + 1"] by simp
  moreover have "0 < uint queued + 1" by (simp add: add_nonneg_pos)
  ultimately show ?thesis
    using assms(1) by (simp add: cdiv_pos pos_imp_zdiv_nonneg_iff flip: minus_mod_eq_div_mult)
qed

text \<open>
  The budget a frame gets is never negative, and together with the equal
  shares of the frames queued behind it it ends inside the frame slot: at most
  one period after the slot opened, and at most half a period when the period
  is below \<open>2 ^ 24\<close> ns (60 Hz and faster), where its binary32 conversion is
  exact. A window that is not a number, negative or zero gives no budget.
\<close>

theorem pacing_stays_in_slot:
  assumes "begin_frame now period window queued s = (r, s')"
    and "period < 2 ^ 62" and "uint queued < 2 ^ 62" and "sl_slot_start s \<le> now"
  shows "0 \<le> r \<and> (0 < r \<longrightarrow> sl_slot_open s'
      \<and> now + r * (uint queued + 1) \<le> sl_slot_start s' + period
      \<and> (period < 2 ^ 24 \<longrightarrow> 2 * (now + r * (uint queued + 1) - sl_slot_start s') \<le> period))
    \<and> (window = NaN \<or> fp_le window (Num 0) \<longrightarrow> r = 0)"
proof (cases "period \<le> 0 \<or> fp_le window (Num 0)")
  case True
  with assms(1) show ?thesis by (auto simp: begin_frame_def)
next
  case False
  define c where "c = fp_clamp window (Num 0) max_window"
  define full where "full = fp_to_i64 (fp_mul F32 (fp_of_int F32 period) c)"
  define left where "left = sl_slot_start s' + full - now"
  have r: "r = (if left \<le> 0 then 0 else cdiv left (sint (queued + 1)))"
    and open': "sl_slot_start s' \<le> now" "sl_slot_open s'"
    using assms(1,4) False
    by (auto simp: begin_frame_def Let_def left_def full_def c_def split: if_splits)
  show ?thesis
  proof (cases c)
    case (Num w)
    then have "0 \<le> w" "w \<le> 1 / 2" using clamp_window [of window] False by (auto simp: c_def)
    then have full: "0 \<le> full" "full \<le> period" "period < 2 ^ 24 \<longrightarrow> 2 * full \<le> period"
      using full_window_bounds [of period w] False assms(2) by (simp_all add: full_def Num)
    have "window \<noteq> NaN" using Num by (auto simp: c_def fp_clamp_def)
    then show ?thesis
      using r open' full begin_frame_share [of left queued] assms(3) False by (auto simp: left_def)
  next
    case NaN
    then have "full = - (2 ^ 63)" by (cases "fp_of_int F32 period") (simp_all add: full_def)
    moreover have "fp_of_int F32 period \<noteq> NaN" by (simp add: fp_of_int_def round_fp_def Let_def)
    ultimately show ?thesis
      using r open' begin_frame_share [of left queued] assms(2,3) False by (auto simp: left_def)
  next
    case (Inf x)
    then show ?thesis using clamp_window [of window] False by (auto simp: c_def)
  qed
qed

theorem pacing_stays_in_slot_witness:
  "let (r, s') = begin_frame 1000000 11111111 (Num (2 / 5)) 1 (\<lparr>sl_slot_start = 0, sl_slot_open = True\<rparr>)
   in 0 < r \<and> sl_slot_open s' \<and> 2 * (1000000 + r * (1 + 1) - sl_slot_start s') \<le> 11111111"
proof -
  have r: "begin_frame 1000000 11111111 (Num (2 / 5)) 1 (\<lparr>sl_slot_start = 0, sl_slot_open = True\<rparr>) =
      (1722222, \<lparr>sl_slot_start = 0, sl_slot_open = True\<rparr>)"
    by code_simp
  with pacing_stays_in_slot [OF r] show ?thesis by simp
qed

end
