(* ===== verification/Video_Out.thy ===== *)
theory Video_Out
  imports Shard_Pacer
begin

text \<open>
  Cutting one encoded frame into data shards, with parity and pacing:
  \<^verbatim>\<open>helper/src/wivrn/video_out.h\<close> and \<^verbatim>\<open>video_out.cpp\<close>. The packet types, their
  serialised size and the parity group builder come from headers of the Linux
  repository (\<^verbatim>\<open>wivrn_packets.h\<close>, \<^verbatim>\<open>wivrn_serialization.h\<close>, \<^verbatim>\<open>fec.h\<close>) and are
  parameters: the types \<open>'v\<close> and \<open>'t\<close> of the view and timing information, \<open>'g\<close>
  of the group builder, \<open>'p\<close> of a parity shard, and the functions of \<open>wire_env\<close>.
  No theorem assumes anything of them. The sockets behind \<^verbatim>\<open>Sinks\<close> are observed
  through the list of packets handed to them.
\<close>

section \<open>Frames, shards, sinks\<close>

record ('v, 't) shard =
  sd_stream_item_idx :: u8
  sd_frame_idx :: u64
  sd_shard_idx :: u16
  sd_view_info :: "'v option"
  sd_timing_info :: "'t option"
  sd_payload :: "u8 list"

record ('v, 't, 'g, 'p) wire_env =
  we_serialized_size :: "'v option \<Rightarrow> nat"
  we_shard_payload_budget :: "bool \<Rightarrow> nat"
  we_group_reset :: "u8 \<Rightarrow> u64 \<Rightarrow> 'g \<Rightarrow> 'g"
  we_group_add :: "('v, 't) shard \<Rightarrow> 'g \<Rightarrow> 'g"
  we_group_take :: "'g \<Rightarrow> 'p option \<times> 'g"
  we_block_full :: "'g \<Rightarrow> bool"
  we_parity_size :: "'p \<Rightarrow> nat"

record ('v, 't) out_frame =
  of_stream_index :: u8
  of_frame_index :: u64
  of_idr :: bool
  of_has_stream_socket :: bool
  of_fragment_on_control :: bool
  of_fec :: bool
  of_view_info :: 'v
  of_timing_info :: 't

definition fec_active :: "('v, 't) out_frame \<Rightarrow> bool" where
  "fec_active f \<longleftrightarrow> of_fec f \<and> of_has_stream_socket f \<and> \<not> of_idr f"

definition payload_budget :: "('v, 't, 'g, 'p) wire_env \<Rightarrow> ('v, 't) out_frame \<Rightarrow> nat" where
  "payload_budget env f =
     (if of_idr f \<or> (\<not> of_has_stream_socket f \<and> \<not> of_fragment_on_control f) then 2 ^ 64 - 1
      else we_shard_payload_budget env (fec_active f))"

text \<open>
  \<open>sk_data_throws\<close> tells which shard the socket refuses with an exception;
  whether a parity send throws makes no difference to the sender, which
  swallows the exception.
\<close>

record ('v, 't) sinks =
  sk_data_throws :: "('v, 't) shard \<Rightarrow> bool"
  sk_parity :: bool
  sk_stamp :: "('t \<Rightarrow> 't) option"

datatype ('v, 't, 'p) wire_event =
  DataShard "('v, 't) shard" bool
| ParityShard 'p

record ('v, 't, 'g) paced_sender =
  ps_frame :: "('v, 't) out_frame"
  ps_data :: "u8 list"
  ps_pacer :: shard_pacer
  ps_group :: 'g
  ps_active :: bool
  ps_fec_active :: bool
  ps_offset :: nat
  ps_shard :: "('v, 't) shard"
  ps_shards :: u16
  ps_parity_shards :: u16
  ps_wire_bytes :: u32

section \<open>The sender\<close>

definition sender_begin ::
    "('v, 't, 'g, 'p) wire_env \<Rightarrow> ('v, 't) out_frame \<Rightarrow> u8 list \<Rightarrow> shard_pacer
     \<Rightarrow> ('v, 't, 'g) paced_sender \<Rightarrow> ('v, 't, 'g) paced_sender" where
  "sender_begin env frame data pacer s = s\<lparr>
     ps_frame := frame,
     ps_data := data,
     ps_pacer := pacer,
     ps_offset := 0,
     ps_shards := 0,
     ps_parity_shards := 0,
     ps_wire_bytes := 0,
     ps_fec_active := fec_active frame,
     ps_shard := \<lparr>sd_stream_item_idx = of_stream_index frame, sd_frame_idx = of_frame_index frame,
       sd_shard_idx = 0, sd_view_info = Some (of_view_info frame), sd_timing_info = None,
       sd_payload = []\<rparr>,
     ps_group := we_group_reset env (of_stream_index frame) (of_frame_index frame) (ps_group s),
     ps_active := (data \<noteq> [])\<rparr>"

definition sender_abort :: "('v, 't, 'g) paced_sender \<Rightarrow> ('v, 't, 'g) paced_sender" where
  "sender_abort s = s\<lparr>ps_active := False\<rparr>"

definition send_parity ::
    "('v, 't, 'g, 'p) wire_env \<Rightarrow> ('v, 't) sinks \<Rightarrow> ('v, 't, 'g) paced_sender
     \<Rightarrow> ('v, 't, 'p) wire_event list \<times> ('v, 't, 'g) paced_sender" where
  "send_parity env sk s =
     (let (parity, g) = we_group_take env (ps_group s);
          s = s\<lparr>ps_group := g\<rparr>
      in case parity of
           None \<Rightarrow> ([], s)
         | Some p \<Rightarrow>
             (if \<not> sk_parity sk then ([], s)
              else ([ParityShard p],
                    s\<lparr>ps_wire_bytes := ps_wire_bytes s + of_nat (we_parity_size env p),
                      ps_parity_shards := ps_parity_shards s + 1\<rparr>)))"

text \<open>The payload length of the next shard: at least one byte, at most what is left.\<close>

definition next_take :: "('v, 't, 'g, 'p) wire_env \<Rightarrow> ('v, 't, 'g) paced_sender \<Rightarrow> nat" where
  "next_take env s =
     (let budget = payload_budget env (ps_frame s);
          overhead = we_serialized_size env (sd_view_info (ps_shard s));
          payload_size = (if overhead < budget then budget - overhead else 0);
          payload_size = (if payload_size = 0 then 1 else payload_size);
          remaining = length (ps_data s) - ps_offset s
      in min payload_size remaining)"

definition stamped :: "('v, 't) sinks \<Rightarrow> 't \<Rightarrow> 't" where
  "stamped sk t = (case sk_stamp sk of None \<Rightarrow> t | Some f \<Rightarrow> f t)"

definition next_shard ::
    "('v, 't, 'g, 'p) wire_env \<Rightarrow> ('v, 't) sinks \<Rightarrow> ('v, 't, 'g) paced_sender \<Rightarrow> ('v, 't) shard" where
  "next_shard env sk s =
     (let take' = next_take env s;
          last' = (take' = length (ps_data s) - ps_offset s);
          sh = (if last'
                then ps_shard s\<lparr>sd_timing_info := Some (stamped sk (of_timing_info (ps_frame s)))\<rparr>
                else ps_shard s)
      in sh\<lparr>sd_payload := take take' (drop (ps_offset s) (ps_data s))\<rparr>)"

datatype pump_end = Threw | Due time_ns | Continue

text \<open>
  One pass of the loop in \<^verbatim>\<open>pump\<close>, in the order of the source: the shard is
  completed, counted and shown to the group builder (\<open>prepare_shard\<close>); it is
  handed to the socket; the cursor moves past it (\<open>advance\<close>); a full group
  gets its parity (\<open>block_parity\<close>); the pacer says whether to go on.
\<close>

definition prepare_shard ::
    "('v, 't, 'g, 'p) wire_env \<Rightarrow> ('v, 't) sinks \<Rightarrow> ('v, 't, 'g) paced_sender \<Rightarrow> ('v, 't, 'g) paced_sender" where
  "prepare_shard env sk s =
     (let sh = next_shard env sk s
      in s\<lparr>ps_shard := sh, ps_wire_bytes := ps_wire_bytes s + of_nat (next_take env s),
           ps_group := (if ps_fec_active s then we_group_add env sh (ps_group s) else ps_group s)\<rparr>)"

definition advance :: "nat \<Rightarrow> ('v, 't, 'g) paced_sender \<Rightarrow> ('v, 't, 'g) paced_sender" where
  "advance take' s =
     s\<lparr>ps_shard := ps_shard s\<lparr>sd_shard_idx := sd_shard_idx (ps_shard s) + 1, sd_view_info := None\<rparr>,
       ps_shards := ps_shards s + 1,
       ps_offset := ps_offset s + take'\<rparr>"

definition block_parity ::
    "('v, 't, 'g, 'p) wire_env \<Rightarrow> ('v, 't) sinks \<Rightarrow> ('v, 't, 'g) paced_sender
     \<Rightarrow> ('v, 't, 'p) wire_event list \<times> ('v, 't, 'g) paced_sender" where
  "block_parity env sk s =
     (if ps_fec_active s \<and> we_block_full env (ps_group s) then send_parity env sk s else ([], s))"

definition pump_body ::
    "('v, 't, 'g, 'p) wire_env \<Rightarrow> time_ns \<Rightarrow> ('v, 't) sinks \<Rightarrow> ('v, 't, 'g) paced_sender
     \<Rightarrow> ('v, 't, 'p) wire_event list \<times> ('v, 't, 'g) paced_sender \<times> pump_end" where
  "pump_body env now sk s =
     (let take' = next_take env s;
          s1 = prepare_shard env sk s
      in if sk_data_throws sk (ps_shard s1) then ([], s1, Threw)
      else
        let ev = DataShard (ps_shard s1) (of_idr (ps_frame s1));
            (parity, s2) = block_parity env sk (advance take' s1)
        in if ps_offset s2 < length (ps_data s2)
           then case wait_until (of_nat (ps_offset s2)) now (ps_pacer s2) of
               (Some t, pacer) \<Rightarrow> (ev # parity, s2\<lparr>ps_pacer := pacer\<rparr>, Due t)
             | (None, pacer) \<Rightarrow> (ev # parity, s2\<lparr>ps_pacer := pacer\<rparr>, Continue)
           else (ev # parity, s2, Continue))"

lemma next_take_bounds:
  "ps_offset s < length (ps_data s) \<Longrightarrow> 0 < next_take env s"
  "next_take env s \<le> length (ps_data s) - ps_offset s"
  by (auto simp: next_take_def Let_def)

text \<open>What a parity shard leaves alone.\<close>

lemma send_parity_keeps:
  assumes "send_parity env sk s = (evs, s')"
  shows "ps_frame s' = ps_frame s" "ps_data s' = ps_data s" "ps_pacer s' = ps_pacer s"
    "ps_active s' = ps_active s" "ps_fec_active s' = ps_fec_active s" "ps_offset s' = ps_offset s"
    "ps_shard s' = ps_shard s" "ps_shards s' = ps_shards s"
    "\<exists>ps. evs = map ParityShard ps"
  using assms
  by (auto simp: send_parity_def Let_def Cons_eq_map_conv split: prod.splits option.splits if_splits)

text \<open>
  A pass of the loop with the parity step named: either the socket threw and
  nothing went out, or the next shard did, followed by parity shards.
\<close>

lemma pump_body_cases:
  assumes "pump_body env now sk s = (evs, s', r)"
  obtains (threw) "sk_data_throws sk (next_shard env sk s)" "r = Threw" "evs = []"
      "ps_frame s' = ps_frame s" "ps_data s' = ps_data s" "ps_active s' = ps_active s"
  | (sent) ps where "\<not> sk_data_throws sk (next_shard env sk s)" "r \<noteq> Threw"
      "evs = DataShard (next_shard env sk s) (of_idr (ps_frame s)) # map ParityShard ps"
      "ps_frame s' = ps_frame s" "ps_data s' = ps_data s" "ps_active s' = ps_active s"
      "ps_fec_active s' = ps_fec_active s"
      "ps_offset s' = ps_offset s + next_take env s"
      "ps_shards s' = ps_shards s + 1"
      "ps_shard s' = (next_shard env sk s)
         \<lparr>sd_shard_idx := sd_shard_idx (ps_shard s) + 1, sd_view_info := None\<rparr>"
      "if ps_offset s' < length (ps_data s)
       then wait_until (of_nat (ps_offset s')) now (ps_pacer s)
              = (case r of Due t \<Rightarrow> Some t | _ \<Rightarrow> None, ps_pacer s')
       else r = Continue \<and> ps_pacer s' = ps_pacer s"
proof (cases "sk_data_throws sk (next_shard env sk s)")
  case True
  then show ?thesis using assms threw by (auto simp: pump_body_def prepare_shard_def Let_def)
next
  case False
  obtain par s2 where p: "block_parity env sk (advance (next_take env s) (prepare_shard env sk s))
      = (par, s2)" by fastforce
  let ?s1 = "advance (next_take env s) (prepare_shard env sk s)"
  have idx: "sd_shard_idx (next_shard env sk s) = sd_shard_idx (ps_shard s)" by (simp add: next_shard_def Let_def)
  have s1: "ps_frame ?s1 = ps_frame s" "ps_data ?s1 = ps_data s" "ps_active ?s1 = ps_active s"
      "ps_fec_active ?s1 = ps_fec_active s" "ps_offset ?s1 = ps_offset s + next_take env s"
      "ps_shards ?s1 = ps_shards s + 1" "ps_pacer ?s1 = ps_pacer s"
      "ps_shard ?s1 = (next_shard env sk s)
         \<lparr>sd_shard_idx := sd_shard_idx (ps_shard s) + 1, sd_view_info := None\<rparr>"
    by (simp_all add: advance_def prepare_shard_def Let_def idx)
  have block: "s2 = ?s1 \<and> par = [] \<or> send_parity env sk ?s1 = (par, s2)"
    using p by (auto simp: block_parity_def split: if_splits)
  then have s2: "ps_frame s2 = ps_frame s \<and> ps_data s2 = ps_data s \<and> ps_active s2 = ps_active s
      \<and> ps_fec_active s2 = ps_fec_active s \<and> ps_offset s2 = ps_offset s + next_take env s
      \<and> ps_shards s2 = ps_shards s + 1 \<and> ps_pacer s2 = ps_pacer s
      \<and> ps_shard s2 = (next_shard env sk s)
         \<lparr>sd_shard_idx := sd_shard_idx (ps_shard s) + 1, sd_view_info := None\<rparr>"
    using s1 send_parity_keeps [of env sk ?s1 par s2] by (elim disjE) simp_all
  have par: "\<exists>ps. par = map ParityShard ps"
    using block send_parity_keeps(9) [of env sk ?s1 par s2]
    by (elim disjE) (auto intro: exI [of _ "[]"])
  obtain ps where ps: "par = map ParityShard ps" using par by blast
  have sh: "ps_shard (prepare_shard env sk s) = next_shard env sk s"
    "ps_frame (prepare_shard env sk s) = ps_frame s"
    by (simp_all add: prepare_shard_def Let_def)
  show ?thesis
    by (rule sent [of ps])
      (use assms s2 ps sh False p in
        \<open>auto simp: pump_body_def Let_def split: if_splits prod.splits option.splits\<close>)
qed

text \<open>
  The loop ends because a pass that goes on has sent at least one byte. Its
  result is \<open>Continue\<close> when the data is used up.
\<close>

function pump_loop ::
    "('v, 't, 'g, 'p) wire_env \<Rightarrow> time_ns \<Rightarrow> ('v, 't) sinks \<Rightarrow> ('v, 't, 'g) paced_sender
     \<Rightarrow> ('v, 't, 'p) wire_event list \<times> ('v, 't, 'g) paced_sender \<times> pump_end" where
  "pump_loop env now sk s =
     (if ps_offset s < length (ps_data s) then
        (case pump_body env now sk s of
           (evs, s', Continue) \<Rightarrow> (case pump_loop env now sk s' of (evs', s'', r) \<Rightarrow> (evs @ evs', s'', r))
         | (evs, s', r) \<Rightarrow> (evs, s', r))
      else ([], s, Continue))"
  by auto

termination
proof (relation "measure (\<lambda>(env, now, sk, s). length (ps_data s) - ps_offset s)", goal_cases)
  case (2 env now sk s evs x s' r)
  then have "pump_body env now sk s = (evs, s', Continue)" by simp
  then show ?case
    using 2(1) next_take_bounds(1) [of s env] by (cases rule: pump_body_cases) simp_all
qed simp

declare pump_loop.simps [simp del]

text \<open>\<open>None\<close> when the data sink threw through \<^verbatim>\<open>pump\<close>; otherwise the value it returns.\<close>

definition pump ::
    "('v, 't, 'g, 'p) wire_env \<Rightarrow> time_ns \<Rightarrow> ('v, 't) sinks \<Rightarrow> ('v, 't, 'g) paced_sender
     \<Rightarrow> ('v, 't, 'p) wire_event list \<times> ('v, 't, 'g) paced_sender \<times> time_ns option" where
  "pump env now sk s =
     (if \<not> ps_active s then ([], s, Some 0)
      else case pump_loop env now sk s of
        (evs, s', Threw) \<Rightarrow> (evs, s', None)
      | (evs, s', Due t) \<Rightarrow> (evs, s', Some t)
      | (evs, s', Continue) \<Rightarrow>
          (let (par, s'') = (if ps_fec_active s' then send_parity env sk s' else ([], s'))
           in (evs @ par, s''\<lparr>ps_active := False\<rparr>, Some 0)))"

definition packetizer_send ::
    "('v, 't, 'g, 'p) wire_env \<Rightarrow> ('v, 't, 'g) paced_sender \<Rightarrow> ('v, 't) out_frame \<Rightarrow> u8 list
     \<Rightarrow> (('v, 't) shard \<Rightarrow> bool) \<Rightarrow> ('v, 't, 'p) wire_event list \<times> u16 option" where
  "packetizer_send env fresh frame data throws =
     (case pump env 0 \<lparr>sk_data_throws = throws, sk_parity = False, sk_stamp = None\<rparr>
             (sender_begin env frame data pacer_inactive fresh) of
        (evs, s, None) \<Rightarrow> (evs, None)
      | (evs, s, Some _) \<Rightarrow> (evs, Some (ps_shards s)))"

text \<open>A frame taken through a sequence of pump calls, at given times and on given sinks.\<close>

fun pumps ::
    "('v, 't, 'g, 'p) wire_env \<Rightarrow> (time_ns \<times> ('v, 't) sinks) list \<Rightarrow> ('v, 't, 'g) paced_sender
     \<Rightarrow> ('v, 't, 'p) wire_event list \<times> ('v, 't, 'g) paced_sender" where
  "pumps env [] s = ([], s)"
| "pumps env ((now, sk) # cs) s =
     (let (evs, s', r) = pump env now sk s; (evs', s'') = pumps env cs s' in (evs @ evs', s''))"

section \<open>The reference split\<close>

text \<open>
  What the headset's reassembler expects of a frame: the payloads are the data
  cut at fixed sizes (the first one smaller by what \<^verbatim>\<open>view_info\<close> costs), the
  shard index runs from zero, the view information is on the first shard only
  and the timing information on the last one only.
\<close>

function split_frame :: "nat \<Rightarrow> nat \<Rightarrow> 'a list \<Rightarrow> 'a list list" where
  "split_frame first rest xs =
     (if xs = [] then [] else take (max 1 first) xs # split_frame rest rest (drop (max 1 first) xs))"
  by auto

termination
  by (relation "measure (\<lambda>(first, rest, xs). length xs)") auto

declare split_frame.simps [simp del]

definition room :: "('v, 't, 'g, 'p) wire_env \<Rightarrow> ('v, 't) out_frame \<Rightarrow> 'v option \<Rightarrow> nat" where
  "room env f v = payload_budget env f - we_serialized_size env v"

definition frame_payloads :: "('v, 't, 'g, 'p) wire_env \<Rightarrow> ('v, 't) out_frame \<Rightarrow> u8 list \<Rightarrow> u8 list list" where
  "frame_payloads env f data = split_frame (room env f (Some (of_view_info f))) (room env f None) data"

definition frame_shards ::
    "('v, 't, 'g, 'p) wire_env \<Rightarrow> ('v, 't) out_frame \<Rightarrow> 't \<Rightarrow> u8 list \<Rightarrow> ('v, 't) shard list" where
  "frame_shards env f t data =
     (let cs = frame_payloads env f data
      in map (\<lambda>i. \<lparr>sd_stream_item_idx = of_stream_index f, sd_frame_idx = of_frame_index f,
                   sd_shard_idx = of_nat i,
                   sd_view_info = (if i = 0 then Some (of_view_info f) else None),
                   sd_timing_info = (if i = length cs - 1 then Some t else None),
                   sd_payload = cs ! i\<rparr>) [0..<length cs])"

fun data_shards :: "('v, 't, 'p) wire_event list \<Rightarrow> ('v, 't) shard list" where
  "data_shards [] = []"
| "data_shards (DataShard sh c # es) = sh # data_shards es"
| "data_shards (ParityShard p # es) = data_shards es"

lemma data_shards_append [simp]: "data_shards (xs @ ys) = data_shards xs @ data_shards ys"
  by (induction xs rule: data_shards.induct) simp_all

lemma data_shards_parity [simp]: "data_shards (map ParityShard ps) = []"
  by (induction ps) simp_all

lemma concat_split_frame: "concat (split_frame first rest xs) = xs"
proof (induction first rest xs rule: split_frame.induct)
  case (1 first rest xs)
  then show ?case by (subst split_frame.simps) (auto simp: append_take_drop_id)
qed

lemma split_frame_bounds:
  "c \<in> set (split_frame first rest xs) \<Longrightarrow> c \<noteq> [] \<and> length c \<le> max 1 (max first rest)"
proof (induction first rest xs rule: split_frame.induct)
  case (1 first rest xs)
  then show ?case
    using split_frame.simps [of first rest xs] by (cases "xs = []") auto
qed

section \<open>The sender sends the reference split\<close>

text \<open>The shards still to come, with \<open>t\<close> as the timing information of the last one.\<close>

definition pending_payloads ::
    "('v, 't, 'g, 'p) wire_env \<Rightarrow> ('v, 't, 'g) paced_sender \<Rightarrow> u8 list list" where
  "pending_payloads env s =
     split_frame (room env (ps_frame s) (sd_view_info (ps_shard s))) (room env (ps_frame s) None)
       (drop (ps_offset s) (ps_data s))"

definition number_shards :: "('v, 't) shard \<Rightarrow> 't \<Rightarrow> u8 list list \<Rightarrow> ('v, 't) shard list" where
  "number_shards sh t cs =
     map (\<lambda>i. sh\<lparr>sd_shard_idx := sd_shard_idx sh + of_nat i,
                  sd_view_info := (if i = 0 then sd_view_info sh else None),
                  sd_timing_info := (if i = length cs - 1 then Some t else None),
                  sd_payload := cs ! i\<rparr>) [0..<length cs]"

definition pending :: "('v, 't, 'g, 'p) wire_env \<Rightarrow> 't \<Rightarrow> ('v, 't, 'g) paced_sender \<Rightarrow> ('v, 't) shard list" where
  "pending env t s = number_shards (ps_shard s) t (pending_payloads env s)"

definition sending :: "('v, 't, 'g) paced_sender \<Rightarrow> bool" where
  "sending s \<longleftrightarrow> ps_active s \<and> ps_offset s < length (ps_data s) \<and> sd_timing_info (ps_shard s) = None"

lemma split_frame_Nil [simp]: "split_frame a b xs = [] \<longleftrightarrow> xs = []"
  by (simp add: split_frame.simps [of a b xs])

lemma split_frame_empty [simp]: "split_frame a b [] = []"
  by simp

lemma number_shards_Cons:
  assumes "sd_timing_info sh = None"
  shows "number_shards sh t (c # cs) =
    sh\<lparr>sd_timing_info := (if cs = [] then Some t else None), sd_payload := c\<rparr>
    # number_shards (sh\<lparr>sd_shard_idx := sd_shard_idx sh + 1, sd_view_info := None\<rparr>) t cs"
  using assms by (auto simp: number_shards_def upt_conv_Cons simp del: upt_Suc
      intro!: nth_equalityI) 

lemma next_take_room:
  "next_take env s = min (max 1 (room env (ps_frame s) (sd_view_info (ps_shard s))))
     (length (ps_data s) - ps_offset s)"
  by (auto simp: next_take_def room_def Let_def min_def max_def)

lemma number_shards_template [simp]:
  "number_shards (sh\<lparr>sd_payload := c\<rparr>) t cs = number_shards sh t cs"
  "number_shards (sh\<lparr>sd_timing_info := x\<rparr>) t cs = number_shards sh t cs"
  "number_shards (sh\<lparr>sd_payload := c, sd_shard_idx := i, sd_view_info := v\<rparr>) t cs =
     number_shards (sh\<lparr>sd_shard_idx := i, sd_view_info := v\<rparr>) t cs"
  by (simp_all add: number_shards_def)

lemma number_shards_Nil [simp]: "number_shards sh t [] = []"
  by (simp add: number_shards_def)

text \<open>One pass sends the first pending shard and leaves the others pending.\<close>

lemma pump_body_pending:
  assumes body: "pump_body env now sk s = (evs, s', r)" and s: "sending s" and r: "r \<noteq> Threw"
  defines "last' \<equiv> next_take env s = length (ps_data s) - ps_offset s"
  shows "last' \<Longrightarrow> pending env (stamped sk (of_timing_info (ps_frame s))) s = data_shards evs
          \<and> \<not> ps_offset s' < length (ps_data s') \<and> r = Continue"
    and "\<not> last' \<Longrightarrow> pending env t s = data_shards evs @ pending env t s' \<and> data_shards evs \<noteq> []
          \<and> sending s'"
    and "ps_frame s' = ps_frame s"
proof -
  let ?n = "next_take env s" and ?rest = "drop (ps_offset s) (ps_data s)"
  have off: "ps_offset s < length (ps_data s)" and tm: "sd_timing_info (ps_shard s) = None"
    using s by (simp_all add: sending_def)
  note bounds = next_take_bounds(1) [OF off, of env] next_take_bounds(2) [of env s]
  have split: "pending_payloads env s = take ?n ?rest
      # split_frame (room env (ps_frame s) None) (room env (ps_frame s) None) (drop ?n ?rest)"
    using off unfolding pending_payloads_def next_take_room
    by (subst split_frame.simps) (simp add: min_def max_def)
  from body show "ps_frame s' = ps_frame s" by (cases rule: pump_body_cases) simp_all
  from body show "last' \<Longrightarrow> pending env (stamped sk (of_timing_info (ps_frame s))) s = data_shards evs
          \<and> \<not> ps_offset s' < length (ps_data s') \<and> r = Continue"
    by (cases rule: pump_body_cases)
      (use r split bounds off tm in \<open>simp_all add: pending_def number_shards_Cons last'_def next_shard_def Let_def\<close>)
  show "pending env t s = data_shards evs @ pending env t s' \<and> data_shards evs \<noteq> [] \<and> sending s'"
    if n: "\<not> last'"
    using body
  proof (cases rule: pump_body_cases)
    case (sent ps)
    have "ps_offset s + ?n < length (ps_data s)" using n bounds off by (simp add: last'_def)
    moreover have "pending_payloads env s' =
        split_frame (room env (ps_frame s) None) (room env (ps_frame s) None) (drop ?n ?rest)"
      using sent by (simp add: pending_payloads_def add.commute)
    ultimately show ?thesis
      using sent split n s tm
      by (simp add: pending_def number_shards_Cons last'_def next_shard_def sending_def Let_def)
  qed (use r in simp)
qed

text \<open>
  A pump call that does not throw either sends a non-empty first part of what is
  pending and asks to be called again, or sends the rest and ends the frame.
\<close>

lemma pump_loop_pending:
  assumes "sending s" and "\<And>sh. \<not> sk_data_throws sk sh"
  shows "case pump_loop env now sk s of
      (evs, s', Threw) \<Rightarrow> False
    | (evs, s', Due d) \<Rightarrow> sending s' \<and> ps_frame s' = ps_frame s
        \<and> (\<forall>t. pending env t s = data_shards evs @ pending env t s')
    | (evs, s', Continue) \<Rightarrow> data_shards evs = pending env (stamped sk (of_timing_info (ps_frame s))) s"
  using assms
proof (induction env now sk s rule: pump_loop.induct)
  case (1 env now sk s)
  have off: "ps_offset s < length (ps_data s)" using "1.prems" by (simp add: sending_def)
  obtain evs s' r where b: "pump_body env now sk s = (evs, s', r)" by (cases "pump_body env now sk s")
  have r: "r \<noteq> Threw" using b "1.prems"(2) by (cases rule: pump_body_cases) auto
  note pb = pump_body_pending [OF b "1.prems"(1) r]
  show ?case
  proof (cases "next_take env s = length (ps_data s) - ps_offset s")
    case True
    then have "pump_loop env now sk s' = ([], s', Continue)" using pb(1) pump_loop.simps [of env now sk s'] by simp
    then show ?thesis using pb(1) [OF True] off b by (simp add: pump_loop.simps [of env now sk s])
  next
    case False
    have sr: "sending s'" using pb(2) [OF False] by simp
    show ?thesis
    proof (cases r)
      case Continue
      have IH: "case pump_loop env now sk s' of
          (evs, s'', Threw) \<Rightarrow> False
        | (evs, s'', Due d) \<Rightarrow> sending s'' \<and> ps_frame s'' = ps_frame s'
            \<and> (\<forall>t. pending env t s' = data_shards evs @ pending env t s'')
        | (evs, s'', Continue) \<Rightarrow> data_shards evs = pending env (stamped sk (of_timing_info (ps_frame s'))) s'"
        using "1.IH" [OF off] b Continue sr "1.prems"(2) by simp
      then show ?thesis
        using pb(2) [OF False] pb(3) off b Continue
        by (auto simp: pump_loop.simps [of env now sk s] split: prod.splits pump_end.splits)
    qed (use r pb(2) [OF False] pb(3) off b sr in
        \<open>simp_all add: pump_loop.simps [of env now sk s]\<close>)
  qed
qed

text \<open>
  Every call that returns early has passed a micro-burst boundary of 12 KiB
  that no earlier call had passed, so the number of calls a frame takes is
  bounded whatever the clock does.
\<close>

definition bursts_left :: "('v, 't, 'g) paced_sender \<Rightarrow> nat" where
  "bursts_left s = (length (ps_data s) - 1) div 12288 + 1 - unat (pc_next_group (ps_pacer s)) div 12288"

lemma wait_until_next_group:
  assumes w: "wait_until (of_nat o') now p = (d, p')" and small: "o' + 12288 < 2 ^ 64"
  shows "unat (pc_next_group p) div 12288 \<le> unat (pc_next_group p') div 12288"
    and "d \<noteq> None \<Longrightarrow> unat (pc_next_group p) div 12288 \<le> o' div 12288
           \<and> unat (pc_next_group p') div 12288 = o' div 12288 + 1"
proof -
  have o': "unat (of_nat o' :: u64) = o'" using small by (simp add: unat_of_nat take_bit_nat_eq_self)
  have le: "(o' div 12288 + 1) * 12288 \<le> o' + 12288" by simp
  have "unat ((of_nat o' div group_bytes + 1) * group_bytes) = (o' div 12288 + 1) * 12288"
  proof -
    have "o' div 12288 < 2 ^ 64" using small by (rule le_less_trans [rotated]) simp
    then have "(of_nat o' :: u64) div group_bytes = of_nat (o' div 12288)"
      using small by (simp add: word_unat_eq_iff unat_div group_bytes_def unat_of_nat take_bit_nat_eq_self)
    then have "((of_nat o' :: u64) div group_bytes + 1) * group_bytes = of_nat ((o' div 12288 + 1) * 12288)"
      by (simp add: group_bytes_def)
    moreover have "(o' div 12288 + 1) * 12288 < 2 ^ 64" using le small by (rule le_less_trans)
    ultimately show ?thesis by (simp only: unat_of_nat) (simp add: take_bit_nat_eq_self)
  qed
  then have *: "d = None \<and> p' = p \<or> unat (pc_next_group p) \<le> o' \<and>
      unat (pc_next_group p') = (o' div 12288 + 1) * 12288"
    using w o' by (auto simp: wait_until_def Let_def word_less_nat_alt split: if_splits)
  show "unat (pc_next_group p) div 12288 \<le> unat (pc_next_group p') div 12288"
    using * by (auto dest: div_le_mono [of _ _ 12288])
  show "d \<noteq> None \<Longrightarrow> unat (pc_next_group p) div 12288 \<le> o' div 12288
           \<and> unat (pc_next_group p') div 12288 = o' div 12288 + 1"
    using * by (auto dest: div_le_mono [of _ _ 12288])
qed

lemma pump_body_bursts:
  assumes "pump_body env now sk s = (evs, s', r)" and "ps_offset s < length (ps_data s)"
    and "length (ps_data s) + 12288 < 2 ^ 64"
  shows "r = Continue \<Longrightarrow> bursts_left s' \<le> bursts_left s"
    and "r = Due d \<Longrightarrow> bursts_left s' < bursts_left s"
    and "ps_data s' = ps_data s"
proof -
  let ?ng = "\<lambda>s. unat (pc_next_group (ps_pacer s)) div 12288"
  have "(r = Continue \<longrightarrow> bursts_left s' \<le> bursts_left s) \<and> (r = Due d \<longrightarrow> bursts_left s' < bursts_left s)
      \<and> ps_data s' = ps_data s"
    using assms(1)
  proof (cases rule: pump_body_cases)
    case (sent ps)
    show ?thesis
    proof (cases "ps_offset s' < length (ps_data s)")
      case True
      then have w: "wait_until (of_nat (ps_offset s')) now (ps_pacer s)
          = (case r of Due t \<Rightarrow> Some t | _ \<Rightarrow> None, ps_pacer s')" and lim: "ps_offset s' + 12288 < 2 ^ 64"
        using sent assms(3) by simp_all
      note ng = wait_until_next_group [OF w lim]
      have "ps_offset s' div 12288 \<le> (length (ps_data s) - 1) div 12288"
        using True by (intro div_le_mono) simp
      moreover have "a \<le> b \<Longrightarrow> c \<le> a \<Longrightarrow> b + 1 - (a + 1) < b + 1 - c" for a b c :: nat by simp
      ultimately have "r = Due d \<Longrightarrow> bursts_left s' < bursts_left s"
        using ng(2) unfolding bursts_left_def sent(5) by (simp only: pump_end.case) simp
      moreover have "bursts_left s' \<le> bursts_left s"
        using diff_le_mono2 [OF ng(1)] unfolding bursts_left_def sent(5) .
      ultimately show ?thesis using sent by blast
    qed (use sent in \<open>simp add: bursts_left_def\<close>)
  qed simp
  then show "r = Continue \<Longrightarrow> bursts_left s' \<le> bursts_left s"
    and "r = Due d \<Longrightarrow> bursts_left s' < bursts_left s" and "ps_data s' = ps_data s" by blast+
qed

lemma pump_loop_bursts:
  assumes "pump_loop env now sk s = (evs, s', Due d)" and "length (ps_data s) + 12288 < 2 ^ 64"
  shows "bursts_left s' < bursts_left s \<and> ps_data s' = ps_data s"
  using assms
proof (induction env now sk s arbitrary: evs rule: pump_loop.induct)
  case (1 env now sk s)
  have off: "ps_offset s < length (ps_data s)"
    using "1.prems"(1) by (auto simp: pump_loop.simps [of env now sk s] split: if_splits)
  obtain evs1 s1 r where b: "pump_body env now sk s = (evs1, s1, r)" by (cases "pump_body env now sk s")
  note pb = pump_body_bursts [OF b off "1.prems"(2)]
  show ?case
  proof (cases r)
    case Continue
    obtain evs2 where "pump_loop env now sk s1 = (evs2, s', Due d)"
      using "1.prems"(1) off b Continue
      by (auto simp: pump_loop.simps [of env now sk s] split: prod.splits)
    then have "bursts_left s' < bursts_left s1 \<and> ps_data s' = ps_data s1"
      using "1.IH" [OF off] b Continue pb(3) "1.prems"(2) by simp
    then show ?thesis using pb(1) [OF Continue] pb(3) by simp
  qed (use "1.prems"(1) off b pb in \<open>auto simp: pump_loop.simps [of env now sk s]\<close>)
qed

lemma pump_pending:
  assumes "sending s" and "\<And>sh. \<not> sk_data_throws sk sh" and "length (ps_data s) + 12288 < 2 ^ 64"
    and "pump env now sk s = (evs, s', r)"
  shows "data_shards evs = pending env (stamped sk (of_timing_info (ps_frame s))) s \<and> \<not> ps_active s'
    \<or> sending s' \<and> ps_frame s' = ps_frame s \<and> ps_data s' = ps_data s \<and> bursts_left s' < bursts_left s
      \<and> (\<forall>t. pending env t s = data_shards evs @ pending env t s')"
proof -
  obtain evs1 s1 r1 where l: "pump_loop env now sk s = (evs1, s1, r1)" by (cases "pump_loop env now sk s")
  have act: "ps_active s" using assms(1) by (simp add: sending_def)
  note lp = pump_loop_pending [OF assms(1,2), where env = env and now = now, unfolded l]
  show ?thesis
  proof (cases r1)
    case (Due d)
    then show ?thesis
      using lp assms(4) l act pump_loop_bursts [of env now sk s evs1 s1 d] assms(3) by (auto simp: pump_def)
  next
    case Continue
    obtain par s2 where p: "(if ps_fec_active s1 then send_parity env sk s1 else ([], s1)) = (par, s2)"
      by fastforce
    then have "data_shards par = []"
      using send_parity_keeps(9) [of env sk s1 par s2] by (auto split: if_splits)
    then show ?thesis using lp assms(4) l act Continue p by (auto simp: pump_def)
  qed (use lp in simp)
qed

lemma pumps_inactive: "\<not> ps_active s \<Longrightarrow> pumps env cs s = ([], s)"
  by (induction env cs s rule: pumps.induct) (simp_all add: pump_def)

lemma pumps_pending:
  assumes "sending s" and "\<forall>c\<in>set cs. \<forall>sh. \<not> sk_data_throws (snd c) sh"
    and "length (ps_data s) + 12288 < 2 ^ 64" and "bursts_left s < length cs"
  shows "case pumps env cs s of (evs, s') \<Rightarrow> \<not> ps_active s' \<and>
    (\<exists>c\<in>set cs. data_shards evs = pending env (stamped (snd c) (of_timing_info (ps_frame s))) s)"
  using assms
proof (induction env cs s rule: pumps.induct)
  case (2 env now sk cs s)
  obtain evs s' r where p: "pump env now sk s = (evs, s', r)" by (cases "pump env now sk s")
  have "\<And>sh. \<not> sk_data_throws sk sh" using "2.prems"(2) by simp
  from pump_pending [OF "2.prems"(1) this "2.prems"(3) p] show ?case
  proof
    assume "data_shards evs = pending env (stamped sk (of_timing_info (ps_frame s))) s \<and> \<not> ps_active s'"
    then show ?thesis using p pumps_inactive [of s' env cs] by simp
  next
    assume a: "sending s' \<and> ps_frame s' = ps_frame s \<and> ps_data s' = ps_data s \<and> bursts_left s' < bursts_left s
      \<and> (\<forall>t. pending env t s = data_shards evs @ pending env t s')"
    then have "case pumps env cs s' of (evs', s'') \<Rightarrow> \<not> ps_active s'' \<and>
        (\<exists>c\<in>set cs. data_shards evs' = pending env (stamped (snd c) (of_timing_info (ps_frame s))) s')"
      using "2.IH" [OF p [symmetric]] "2.prems" p by simp
    then show ?thesis using p a by (auto split: prod.splits)
  qed
qed simp

lemma pending_begin:
  "pending env t (sender_begin env f data p s) = frame_shards env f t data"
  by (simp add: pending_def number_shards_def pending_payloads_def sender_begin_def frame_shards_def
      frame_payloads_def Let_def cong: if_cong)

text \<open>
  C6. A frame is delivered. Whatever times the sender is pumped at, and
  whichever parity shards it interleaves, as long as the socket takes the data
  shards: after as many calls as the frame has 12 KiB micro-bursts it is
  finished, and the data shards handed to the socket are exactly the reference
  split, with the time stamp of the call that finished the frame on the last
  one.
\<close>

theorem frame_delivered:
  assumes "data \<noteq> []" and "length data + 12288 < 2 ^ 64"
    and "\<forall>c\<in>set cs. \<forall>sh. \<not> sk_data_throws (snd c) sh"
    and "(length data - 1) div 12288 < length cs"
    and "pumps env cs (sender_begin env f data (shard_pacer_new start budget size') s) = (evs, s')"
  shows "\<not> ps_active s'
    \<and> (\<exists>c\<in>set cs. data_shards evs = frame_shards env f (stamped (snd c) (of_timing_info f)) data)
    \<and> concat (map sd_payload (data_shards evs)) = data"
proof -
  let ?s = "sender_begin env f data (shard_pacer_new start budget size') s"
  have "sending ?s" "length (ps_data ?s) + 12288 < 2 ^ 64" "bursts_left ?s < length cs"
    using assms by (simp_all add: sending_def sender_begin_def bursts_left_def shard_pacer_new_def group_bytes_def)
  from pumps_pending [OF this(1) assms(3) this(2,3), of env] obtain c where c: "c \<in> set cs" "\<not> ps_active s'"
    "data_shards evs = frame_shards env f (stamped (snd c) (of_timing_info f)) data"
    by (auto simp: assms(5) pending_begin) (auto simp: sender_begin_def)
  moreover have "concat (map sd_payload (frame_shards env f t data)) = data" for t
    by (simp add: frame_shards_def Let_def comp_def map_nth frame_payloads_def concat_split_frame)
  ultimately show ?thesis by auto
qed

definition unit_env :: "(unit, int, nat, nat) wire_env" where
  "unit_env = \<lparr>we_serialized_size = (\<lambda>v. case v of None \<Rightarrow> 1 | Some _ \<Rightarrow> 3),
     we_shard_payload_budget = (\<lambda>fec. if fec then 4 else 5),
     we_group_reset = (\<lambda>_ _ _. 0), we_group_add = (\<lambda>_ g. g + 1),
     we_group_take = (\<lambda>g. (if g = 0 then None else Some g, 0)), we_block_full = (\<lambda>g. g = 2),
     we_parity_size = (\<lambda>p. 2)\<rparr>"

definition unit_frame :: "(unit, int) out_frame" where
  "unit_frame = \<lparr>of_stream_index = 1, of_frame_index = 7, of_idr = False, of_has_stream_socket = True,
     of_fragment_on_control = False, of_fec = True, of_view_info = (), of_timing_info = 5\<rparr>"

definition unit_sinks :: "(unit, int) sinks" where
  "unit_sinks = \<lparr>sk_data_throws = (\<lambda>_. False), sk_parity = True, sk_stamp = Some (\<lambda>t. t + 100)\<rparr>"

definition unit_sender :: "(unit, int, nat) paced_sender" where
  "unit_sender = sender_begin unit_env unit_frame [10, 20, 30, 40, 50, 60] (shard_pacer_new 0 1000 6)
     \<lparr>ps_frame = unit_frame, ps_data = [], ps_pacer = pacer_inactive, ps_group = 0, ps_active = False,
      ps_fec_active = False, ps_offset = 0,
      ps_shard = \<lparr>sd_stream_item_idx = 0, sd_frame_idx = 0, sd_shard_idx = 0, sd_view_info = None,
        sd_timing_info = None, sd_payload = []\<rparr>,
      ps_shards = 0, ps_parity_shards = 0, ps_wire_bytes = 0\<rparr>"

lemma unit_data_small: "length [10, 20, 30, 40, 50, 60 :: u8] + 12288 < 2 ^ 64"
  by simp

theorem frame_delivered_witness:
  "\<not> ps_active (snd (pumps unit_env [(0, unit_sinks)] unit_sender))
    \<and> concat (map sd_payload (data_shards (fst (pumps unit_env [(0, unit_sinks)] unit_sender)))) =
        [10, 20, 30, 40, 50, 60]"
proof -
  have "\<forall>c\<in>set [(0, unit_sinks)]. \<forall>sh. \<not> sk_data_throws (snd c) sh" by (simp add: unit_sinks_def)
  moreover have "(length [10, 20, 30, 40, 50, 60 :: u8] - 1) div 12288 < length [(0 :: int, unit_sinks)]" by simp
  ultimately show ?thesis
    using frame_delivered [OF _ _ _ _ prod.collapse [symmetric]] unfolding unit_sender_def
    by (metis (no_types, lifting) list.discI unit_data_small)
qed

section \<open>Sizes and counters\<close>

text \<open>
  No data shard is larger than its socket allows: with the serialised size
  of its view information the payload fits the budget of the frame, provided
  the budget leaves room for at least one byte. No shard is empty.
\<close>

theorem shards_fit_budget:
  assumes "we_serialized_size env None < payload_budget env f"
    and "we_serialized_size env (Some (of_view_info f)) < payload_budget env f"
    and "sh \<in> set (frame_shards env f t data)"
  shows "sd_payload sh \<noteq> []
    \<and> length (sd_payload sh) + we_serialized_size env (sd_view_info sh) \<le> payload_budget env f"
proof -
  obtain i where i: "i < length (frame_payloads env f data)" "sd_payload sh = frame_payloads env f data ! i"
    "sd_view_info sh = (if i = 0 then Some (of_view_info f) else None)"
    using assms(3) by (auto simp: frame_shards_def Let_def)
  let ?a = "room env f (Some (of_view_info f))" and ?b = "room env f None"
  have ne: "data \<noteq> []" using i(1) by (auto simp: frame_payloads_def)
  have eq: "frame_payloads env f data = take (max 1 ?a) data # split_frame ?b ?b (drop (max 1 ?a) data)"
    using ne by (simp add: frame_payloads_def split_frame.simps [of ?a])
  have "sd_payload sh \<noteq> []"
    using i split_frame_bounds [of "sd_payload sh" ?a ?b data] by (simp add: frame_payloads_def)
  moreover have "length (sd_payload sh) + we_serialized_size env (sd_view_info sh) \<le> payload_budget env f"
  proof (cases i)
    case 0
    then show ?thesis using i eq assms(2) by (simp add: room_def)
  next
    case (Suc j)
    then have "sd_payload sh \<in> set (split_frame ?b ?b (drop (max 1 ?a) data))" using i eq by simp
    from split_frame_bounds [OF this] show ?thesis using Suc i assms(1) by (auto simp: room_def)
  qed
  ultimately show ?thesis ..
qed

theorem shards_fit_budget_witness:
  "length (sd_payload (hd (frame_shards unit_env unit_frame 5 [10, 20, 30])))
     + we_serialized_size unit_env (sd_view_info (hd (frame_shards unit_env unit_frame 5 [10, 20, 30]))) \<le> 4"
proof -
  have "hd (frame_shards unit_env unit_frame 5 [10, 20, 30]) \<in> set (frame_shards unit_env unit_frame 5 [10, 20, 30])"
    by code_simp
  moreover have "payload_budget unit_env unit_frame = 4" by code_simp
  moreover have "we_serialized_size unit_env None < 4 \<and> we_serialized_size unit_env (Some (of_view_info unit_frame)) < 4"
    by code_simp
  ultimately show ?thesis
    using shards_fit_budget [of unit_env unit_frame "hd (frame_shards unit_env unit_frame 5 [10, 20, 30])" 5 "[10, 20, 30]"]
    by simp
qed

text \<open>What an event costs on the wire.\<close>

fun event_bytes :: "('v, 't, 'g, 'p) wire_env \<Rightarrow> ('v, 't, 'p) wire_event \<Rightarrow> nat" where
  "event_bytes env (DataShard sh c) = length (sd_payload sh)"
| "event_bytes env (ParityShard p) = we_parity_size env p"

definition counts :: "('v, 't, 'g, 'p) wire_env \<Rightarrow> ('v, 't, 'p) wire_event list
    \<Rightarrow> ('v, 't, 'g) paced_sender \<Rightarrow> ('v, 't, 'g) paced_sender \<Rightarrow> bool" where
  "counts env evs s s' \<longleftrightarrow>
     ps_wire_bytes s' = ps_wire_bytes s + of_nat (sum_list (map (event_bytes env) evs))
   \<and> ps_shards s' = ps_shards s + of_nat (length (data_shards evs))
   \<and> ps_parity_shards s' = ps_parity_shards s + of_nat (length evs - length (data_shards evs))"

lemma data_shards_length: "length (data_shards evs) \<le> length evs"
  by (induction evs rule: data_shards.induct) simp_all

lemma counts_trans:
  assumes "counts env evs s s'" and "counts env evs' s' s''"
  shows "counts env (evs @ evs') s s''"
proof -
  have "length (evs @ evs') - length (data_shards (evs @ evs')) =
      (length evs - length (data_shards evs)) + (length evs' - length (data_shards evs'))"
    using data_shards_length [of evs] data_shards_length [of evs'] by simp
  with assms show ?thesis unfolding counts_def by (simp only:) (simp add: add.assoc)
qed

lemma send_parity_counts: "send_parity env sk s = (evs, s') \<Longrightarrow> counts env evs s s'"
  by (auto simp: send_parity_def counts_def Let_def split: prod.splits option.splits if_splits)

lemma pump_body_counts:
  assumes b: "pump_body env now sk s = (evs, s', r)" and r: "r \<noteq> Threw"
  shows "counts env evs s s'"
proof -
  let ?s1 = "advance (next_take env s) (prepare_shard env sk s)"
  obtain par s2 where p: "block_parity env sk ?s1 = (par, s2)" by fastforce
  have len: "length (sd_payload (next_shard env sk s)) = next_take env s"
    using next_take_bounds(2) [of env s] by (simp add: next_shard_def Let_def)
  have "counts env [DataShard (next_shard env sk s) (of_idr (ps_frame s))] s ?s1"
    by (simp add: counts_def advance_def prepare_shard_def len Let_def)
  moreover have "counts env par ?s1 s2"
    using p send_parity_counts [of env sk ?s1 par s2]
    by (auto simp: block_parity_def counts_def split: if_splits)
  ultimately have "counts env (DataShard (next_shard env sk s) (of_idr (ps_frame s)) # par) s s2"
    using counts_trans by fastforce
  moreover have "ps_shard (prepare_shard env sk s) = next_shard env sk s"
    "ps_frame (prepare_shard env sk s) = ps_frame s"
    by (simp_all add: prepare_shard_def Let_def)
  ultimately show ?thesis
    using b r p
    by (auto simp: pump_body_def counts_def Let_def split: if_splits prod.splits option.splits)
qed

lemma pump_loop_counts:
  "pump_loop env now sk s = (evs, s', r) \<Longrightarrow> r \<noteq> Threw \<Longrightarrow> counts env evs s s'"
proof (induction env now sk s arbitrary: evs rule: pump_loop.induct)
  case (1 env now sk s)
  obtain evs1 s1 r1 where b: "pump_body env now sk s = (evs1, s1, r1)" by (cases "pump_body env now sk s")
  obtain evs2 s2 r2 where l: "pump_loop env now sk s1 = (evs2, s2, r2)" by (cases "pump_loop env now sk s1")
  show ?case
    using "1.prems" b l "1.IH" pump_body_counts [OF b] counts_trans [of env evs1 s s1 evs2 s2]
    by (cases r1) (auto simp: pump_loop.simps [of env now sk s] counts_def split: if_splits)
qed

text \<open>
  The counters of a pump call that did not throw are those of the packets
  it handed over: \<^verbatim>\<open>wire_bytes()\<close> grew by the payload and parity bytes (modulo
  \<open>2 ^ 32\<close>), \<^verbatim>\<open>shards()\<close> and \<^verbatim>\<open>parity_shards()\<close> by the numbers of data and
  parity packets.
\<close>

theorem pump_counters:
  assumes "pump env now sk s = (evs, s', Some r)"
  shows "counts env evs s s'"
proof (cases "ps_active s")
  case True
  obtain evs1 s1 r1 where l: "pump_loop env now sk s = (evs1, s1, r1)" by (cases "pump_loop env now sk s")
  obtain par s2 where p: "(if ps_fec_active s1 then send_parity env sk s1 else ([], s1)) = (par, s2)"
    by fastforce
  then have "counts env par s1 s2"
    using send_parity_counts [of env sk s1 par s2] by (auto simp: counts_def split: if_splits)
  then show ?thesis
    using assms l p True pump_loop_counts [OF l] counts_trans [of env evs1 s s1 par s2]
    by (cases r1) (auto simp: pump_def counts_def)
qed (use assms in \<open>simp add: pump_def counts_def\<close>)

theorem pump_counters_witness:
  "case pump unit_env 0 unit_sinks unit_sender of (evs, s', _) \<Rightarrow>
     counts unit_env evs unit_sender s' \<and> ps_wire_bytes s' = 6 + 2 * 2"
proof -
  obtain evs s' r where p: "pump unit_env 0 unit_sinks unit_sender = (evs, s', r)"
    by (cases "pump unit_env 0 unit_sinks unit_sender")
  have "case pump unit_env 0 unit_sinks unit_sender of (evs, s', r) \<Rightarrow> r = Some 0 \<and> ps_wire_bytes s' = 6 + 2 * 2"
    by code_simp
  then show ?thesis using pump_counters [of unit_env 0 unit_sinks unit_sender evs s' 0] p by simp
qed

section \<open>The unpaced overload\<close>

lemma begin_frame_of: "ps_frame (sender_begin env f data p s) = f"
  by (simp add: sender_begin_def)

lemma pump_body_unpaced:
  assumes "pump_body env now sk s = (evs, s', r)" and "\<not> pacer_active (ps_pacer s)"
  shows "r \<noteq> Due d" and "r \<noteq> Threw \<Longrightarrow> ps_pacer s' = ps_pacer s"
  using assms(1)
  by (cases rule: pump_body_cases; use assms(2) in
      \<open>force simp: wait_until_inactive split: if_splits pump_end.splits\<close>)+

lemma pump_loop_unpaced:
  "\<not> pacer_active (ps_pacer s) \<Longrightarrow> pump_loop env now sk s = (evs, s', r) \<Longrightarrow> r \<noteq> Due d"
proof (induction env now sk s arbitrary: evs rule: pump_loop.induct)
  case (1 env now sk s)
  obtain evs1 s1 r1 where b: "pump_body env now sk s = (evs1, s1, r1)" by (cases "pump_body env now sk s")
  obtain evs2 s2 r2 where l: "pump_loop env now sk s1 = (evs2, s2, r2)" by (cases "pump_loop env now sk s1")
  show ?case
    using "1.prems" b l "1.IH" pump_body_unpaced [OF b "1.prems"(1)]
    by (cases r1) (auto simp: pump_loop.simps [of env now sk s] split: if_splits)
qed

text \<open>
  \<^verbatim>\<open>VideoPacketizer::send\<close> sends the whole frame in one call: the data shards
  of the reference split, the timing information as the frame has it, and
  returns their number (modulo \<open>2 ^ 16\<close>); an empty frame sends nothing and
  returns 0.
\<close>

lemma packetizer_sends_frame:
  assumes "\<And>sh. \<not> throws sh" and "packetizer_send env fresh f data throws = (evs, r)"
  shows "data_shards evs = frame_shards env f (of_timing_info f) data
    \<and> r = Some (of_nat (length (frame_payloads env f data)))"
proof (cases "data = []")
  case True
  then show ?thesis
    using assms(2)
    by (simp add: packetizer_send_def pump_def sender_begin_def frame_shards_def frame_payloads_def)
next
  case False
  let ?sk = "\<lparr>sk_data_throws = throws, sk_parity = False, sk_stamp = None\<rparr>"
  let ?s = "sender_begin env f data pacer_inactive fresh"
  have s: "sending ?s" "\<not> pacer_active (ps_pacer ?s)" "\<And>sh. \<not> sk_data_throws ?sk sh"
    using False assms(1)
    by (simp_all add: sending_def sender_begin_def pacer_inactive_def pacer_active_def)
  obtain evs1 s1 r1 where l: "pump_loop env 0 ?sk ?s = (evs1, s1, r1)" by (cases "pump_loop env 0 ?sk ?s")
  have lp: "r1 = Continue \<and> data_shards evs1 = frame_shards env f (of_timing_info f) data"
    using pump_loop_pending [OF s(1,3), where env = env and now = 0, unfolded l pending_begin]
      pump_loop_unpaced [OF s(2) l]
    by (cases r1) (auto simp: stamped_def begin_frame_of)
  obtain par s2 where p: "(if ps_fec_active s1 then send_parity env ?sk s1 else ([], s1)) = (par, s2)"
    by fastforce
  then have par: "data_shards par = []" "ps_shards s2 = ps_shards s1"
    using send_parity_keeps(8,9) [of env ?sk s1 par s2] by (auto split: if_splits)
  have "ps_shards s1 = of_nat (length (frame_payloads env f data))"
    using pump_loop_counts [OF l] lp
    by (simp add: counts_def sender_begin_def frame_shards_def Let_def)
  moreover have "pump env 0 ?sk ?s = (evs1 @ par, s2\<lparr>ps_active := False\<rparr>, Some 0)"
    using l lp p s(1) by (simp add: pump_def sending_def)
  ultimately show ?thesis using assms(2) lp par by (auto simp: packetizer_send_def)
qed

end
