(* ===== verification/Ipc_Wire.thy ===== *)
theory Ipc_Wire
  imports Prelude
begin

text \<open>
  The shim/helper contract of \<^verbatim>\<open>ipc/wivrnnx_ipc.h\<close>, down to the bytes of a pipe
  message: constants, message types, one record per packed struct, and the
  little-endian layout the structs have. Floating point members are kept as
  their IEEE bit patterns, which is what the pipe carries and what
  \<^verbatim>\<open>std::memcmp\<close> compares. Explicit padding members are fields too, so that a
  record holds every byte of its struct.
\<close>

unbundle bit_operations_syntax

section \<open>Little-endian integers\<close>

fun le_enc :: "nat \<Rightarrow> 'a :: len word \<Rightarrow> u8 list" where
  "le_enc 0 w = []"
| "le_enc (Suc n) w = ucast w # le_enc n (drop_bit 8 w)"

fun le_dec :: "u8 list \<Rightarrow> 'a :: len word" where
  "le_dec [] = 0"
| "le_dec (b # bs) = ucast b OR push_bit 8 (le_dec bs)"

lemma length_le_enc [simp]: "length (le_enc n w) = n"
  by (induction n arbitrary: w) auto

lemma le_dec_enc_bits: "le_dec (le_enc n w) = take_bit (8 * n) w"
proof (induction n arbitrary: w)
  case (Suc n)
  show ?case
    by (rule bit_word_eqI) (auto simp: Suc.IH bit_simps)
qed simp

lemma le_dec_enc [simp]: "LENGTH('a) = 8 * n \<Longrightarrow> le_dec (le_enc n w) = (w :: 'a :: len word)"
  by (metis le_dec_enc_bits take_bit_length_eq)

text \<open>The member at byte offset \<open>off\<close>, \<open>n\<close> bytes wide.\<close>

definition fld :: "nat \<Rightarrow> nat \<Rightarrow> u8 list \<Rightarrow> 'a :: len word" where
  "fld n off bs = le_dec (take n (drop off bs))"

section \<open>Structs\<close>

type_synonym quat_bits = "u32 \<times> u32 \<times> u32 \<times> u32"
type_synonym vec_bits = "u32 \<times> u32 \<times> u32"

record shim_hello =
  sh_magic :: u32
  sh_version :: u32
  sh_vrserver_pid :: u32

record keep_alive =
  ka_time_qpc :: u64

record helper_hello =
  hh_magic :: u32
  hh_version :: u32

record hmd_config =
  hc_eye_width :: u32
  hc_eye_height :: u32
  hc_refresh_hz :: u32
  hc_ipd_m :: u32
  hc_proj_left :: "u32 \<times> u32"
  hc_proj_right :: "u32 \<times> u32"
  hc_proj_top :: "u32 \<times> u32"
  hc_proj_bottom :: "u32 \<times> u32"
  hc_eye_to_head_q :: "quat_bits \<times> quat_bits"
  hc_eye_to_head_p :: "vec_bits \<times> vec_bits"

record pose_update =
  pu_time_qpc :: u64
  pu_device :: u8
  pu_connected :: u8
  pu_pad :: "48 word"
  pu_qw :: u64
  pu_qx :: u64
  pu_qy :: u64
  pu_qz :: u64
  pu_px :: u64
  pu_py :: u64
  pu_pz :: u64
  pu_vx :: u64
  pu_vy :: u64
  pu_vz :: u64
  pu_wx :: u64
  pu_wy :: u64
  pu_wz :: u64

record device_add =
  da_device :: u8
  da_pad :: "24 word"

record device_remove =
  dr_device :: u8
  dr_pad :: "24 word"

record input_update =
  iu_time_qpc :: u64
  iu_device :: u8
  iu_pad :: "24 word"
  iu_pressed :: u32
  iu_touched :: u32
  iu_trigger :: u32
  iu_grip :: u32
  iu_thumbstick_x :: u32
  iu_thumbstick_y :: u32

record haptic =
  ha_device :: u8
  ha_pad :: "56 word"
  ha_duration_s :: u32
  ha_frequency_hz :: u32
  ha_amplitude :: u32

record staging_config =
  sc_generation :: u32
  sc_width :: u32
  sc_height :: u32
  sc_dxgi_format :: u32
  sc_count :: u32
  sc_pad :: u32
  sc_handles :: "u64 \<times> u64 \<times> u64"

record frame_ready =
  fr_frame_id :: u64
  fr_sample_time_qpc :: u64
  fr_generation :: u32
  fr_staging_index :: u32
  fr_qw :: u32
  fr_qx :: u32
  fr_qy :: u32
  fr_qz :: u32
  fr_px :: u32
  fr_py :: u32
  fr_pz :: u32
  fr_predict_s :: u32

record frame_done =
  fd_frame_id :: u64
  fd_staging_index :: u32
  fd_flags :: u32
section \<open>Constants and message types\<close>

definition kProtocolVersion :: u32 where "kProtocolVersion = 3"
definition kShimMagic :: u32 where "kShimMagic = 0x53584E57"
definition kHelperMagic :: u32 where "kHelperMagic = 0x48584E57"
definition kMaxMessageSize :: nat where "kMaxMessageSize = 512"

datatype message_type =
    MT_shim_hello | MT_keep_alive | MT_haptic
  | MT_helper_hello | MT_hmd_config | MT_pose_update
  | MT_device_add | MT_device_remove | MT_input_update
  | MT_staging_config | MT_frame_ready | MT_frame_done

fun raw_type :: "message_type \<Rightarrow> u32" where
  "raw_type MT_shim_hello = 1"
| "raw_type MT_keep_alive = 2"
| "raw_type MT_haptic = 3"
| "raw_type MT_helper_hello = 100"
| "raw_type MT_hmd_config = 101"
| "raw_type MT_pose_update = 102"
| "raw_type MT_device_add = 103"
| "raw_type MT_device_remove = 104"
| "raw_type MT_input_update = 105"
| "raw_type MT_staging_config = 200"
| "raw_type MT_frame_ready = 201"
| "raw_type MT_frame_done = 202"

text \<open>
  A received 32-bit value switched over as a \<^verbatim>\<open>MessageType\<close>: \<open>None\<close> is a value
  no enumerator has, the \<^verbatim>\<open>default\<close> branch of both receivers.
\<close>

definition type_of_raw :: "u32 \<Rightarrow> message_type option" where
  "type_of_raw w =
     (if w = 1 then Some MT_shim_hello else if w = 2 then Some MT_keep_alive
      else if w = 3 then Some MT_haptic else if w = 100 then Some MT_helper_hello
      else if w = 101 then Some MT_hmd_config else if w = 102 then Some MT_pose_update
      else if w = 103 then Some MT_device_add else if w = 104 then Some MT_device_remove
      else if w = 105 then Some MT_input_update else if w = 200 then Some MT_staging_config
      else if w = 201 then Some MT_frame_ready else if w = 202 then Some MT_frame_done
      else None)"

lemma type_of_raw_raw_type [simp]: "type_of_raw (raw_type t) = Some t"
  by (cases t) (simp_all add: type_of_raw_def)

text \<open>One pipe message: the 4-byte type, then the payload.\<close>

definition wire_message :: "message_type \<Rightarrow> u8 list \<Rightarrow> u8 list" where
  "wire_message t payload = le_enc 4 (raw_type t) @ payload"

definition msg_raw_type :: "u8 list \<Rightarrow> u32" where
  "msg_raw_type bs = fld 4 0 bs"

definition msg_payload :: "u8 list \<Rightarrow> u8 list" where
  "msg_payload bs = drop 4 bs"

lemma msg_raw_type_wire [simp]: "msg_raw_type (wire_message t p) = raw_type t"
  by (simp add: msg_raw_type_def wire_message_def fld_def)

lemma msg_payload_wire [simp]: "msg_payload (wire_message t p) = p"
  by (simp add: msg_payload_def wire_message_def)

lemma length_wire_message [simp]: "length (wire_message t p) = 4 + length p"
  by (simp add: wire_message_def)

text \<open>
  What a receiver gets from the bytes of one pipe message when it expects the
  type \<open>t\<close> and a struct of \<open>n\<close> bytes: nothing unless both match.
\<close>

definition received :: "message_type \<Rightarrow> nat \<Rightarrow> (u8 list \<Rightarrow> 'a) \<Rightarrow> u8 list \<Rightarrow> 'a option" where
  "received t n dec bs =
     (if 4 \<le> length bs \<and> length bs \<le> kMaxMessageSize \<and> type_of_raw (msg_raw_type bs) = Some t
         \<and> length (msg_payload bs) = n
      then Some (dec (msg_payload bs)) else None)"

section \<open>Layout\<close>

text \<open>
  The contract of a struct's byte layout: it has the size the header asserts,
  and copying the bytes back gives the value. A receiver only relies on these
  two laws.
\<close>

locale codec =
  fixes enc :: "'a \<Rightarrow> u8 list"
    and dec :: "u8 list \<Rightarrow> 'a"
    and size :: nat
  assumes length_enc [simp]: "length (enc x) = size"
    and dec_enc [simp]: "dec (enc x) = x"
begin

lemma enc_inject: "enc x = enc y \<longleftrightarrow> x = y"
  by (metis dec_enc)

lemma wire_roundtrip:
  "type_of_raw (msg_raw_type (wire_message t (enc x))) = Some t
   \<and> length (msg_payload (wire_message t (enc x))) = size
   \<and> dec (msg_payload (wire_message t (enc x))) = x"
  by simp

lemma received_wire: "size + 4 \<le> kMaxMessageSize \<Longrightarrow> received t size dec (wire_message t (enc x)) = Some x"
  by (simp add: received_def)

lemma wire_inject:
  "wire_message t (enc x) = wire_message t' (enc y) \<longleftrightarrow> t = t' \<and> x = y"
  by (metis (no_types) dec_enc msg_payload_wire msg_raw_type_wire option.inject type_of_raw_raw_type)

end

definition enc_quat :: "quat_bits \<Rightarrow> u8 list" where
  "enc_quat q = (case q of (a, b, c, d) \<Rightarrow> le_enc 4 a @ le_enc 4 b @ le_enc 4 c @ le_enc 4 d)"

definition dec_quat :: "nat \<Rightarrow> u8 list \<Rightarrow> quat_bits" where
  "dec_quat off bs = (fld 4 off bs, fld 4 (off + 4) bs, fld 4 (off + 8) bs, fld 4 (off + 12) bs)"

definition enc_vec :: "vec_bits \<Rightarrow> u8 list" where
  "enc_vec v = (case v of (a, b, c) \<Rightarrow> le_enc 4 a @ le_enc 4 b @ le_enc 4 c)"

definition dec_vec :: "nat \<Rightarrow> u8 list \<Rightarrow> vec_bits" where
  "dec_vec off bs = (fld 4 off bs, fld 4 (off + 4) bs, fld 4 (off + 8) bs)"

lemmas codec_simps = fld_def enc_quat_def dec_quat_def enc_vec_def dec_vec_def prod.case_eq_if

definition enc_shim_hello :: "shim_hello \<Rightarrow> u8 list" where
  "enc_shim_hello x =
     le_enc 4 (sh_magic x) @
     le_enc 4 (sh_version x) @
     le_enc 4 (sh_vrserver_pid x)"

definition dec_shim_hello :: "u8 list \<Rightarrow> shim_hello" where
  "dec_shim_hello bs =
     \<lparr>sh_magic = fld 4 0 bs,
      sh_version = fld 4 4 bs,
      sh_vrserver_pid = fld 4 8 bs\<rparr>"

interpretation shim_hello_codec: codec enc_shim_hello dec_shim_hello 12
  by unfold_locales (simp_all add: enc_shim_hello_def dec_shim_hello_def codec_simps)

definition enc_keep_alive :: "keep_alive \<Rightarrow> u8 list" where
  "enc_keep_alive x =
     le_enc 8 (ka_time_qpc x)"

definition dec_keep_alive :: "u8 list \<Rightarrow> keep_alive" where
  "dec_keep_alive bs =
     \<lparr>ka_time_qpc = fld 8 0 bs\<rparr>"

interpretation keep_alive_codec: codec enc_keep_alive dec_keep_alive 8
  by unfold_locales (simp_all add: enc_keep_alive_def dec_keep_alive_def codec_simps)

definition enc_helper_hello :: "helper_hello \<Rightarrow> u8 list" where
  "enc_helper_hello x =
     le_enc 4 (hh_magic x) @
     le_enc 4 (hh_version x)"

definition dec_helper_hello :: "u8 list \<Rightarrow> helper_hello" where
  "dec_helper_hello bs =
     \<lparr>hh_magic = fld 4 0 bs,
      hh_version = fld 4 4 bs\<rparr>"

interpretation helper_hello_codec: codec enc_helper_hello dec_helper_hello 8
  by unfold_locales (simp_all add: enc_helper_hello_def dec_helper_hello_def codec_simps)

definition enc_hmd_config :: "hmd_config \<Rightarrow> u8 list" where
  "enc_hmd_config x =
     le_enc 4 (hc_eye_width x) @
     le_enc 4 (hc_eye_height x) @
     le_enc 4 (hc_refresh_hz x) @
     le_enc 4 (hc_ipd_m x) @
     le_enc 4 (fst (hc_proj_left x)) @ le_enc 4 (snd (hc_proj_left x)) @
     le_enc 4 (fst (hc_proj_right x)) @ le_enc 4 (snd (hc_proj_right x)) @
     le_enc 4 (fst (hc_proj_top x)) @ le_enc 4 (snd (hc_proj_top x)) @
     le_enc 4 (fst (hc_proj_bottom x)) @ le_enc 4 (snd (hc_proj_bottom x)) @
     enc_quat (fst (hc_eye_to_head_q x)) @ enc_quat (snd (hc_eye_to_head_q x)) @
     enc_vec (fst (hc_eye_to_head_p x)) @ enc_vec (snd (hc_eye_to_head_p x))"

definition dec_hmd_config :: "u8 list \<Rightarrow> hmd_config" where
  "dec_hmd_config bs =
     \<lparr>hc_eye_width = fld 4 0 bs,
      hc_eye_height = fld 4 4 bs,
      hc_refresh_hz = fld 4 8 bs,
      hc_ipd_m = fld 4 12 bs,
      hc_proj_left = (fld 4 16 bs, fld 4 20 bs),
      hc_proj_right = (fld 4 24 bs, fld 4 28 bs),
      hc_proj_top = (fld 4 32 bs, fld 4 36 bs),
      hc_proj_bottom = (fld 4 40 bs, fld 4 44 bs),
      hc_eye_to_head_q = (dec_quat 48 bs, dec_quat 64 bs),
      hc_eye_to_head_p = (dec_vec 80 bs, dec_vec 92 bs)\<rparr>"

interpretation hmd_config_codec: codec enc_hmd_config dec_hmd_config 104
  by unfold_locales (simp_all add: enc_hmd_config_def dec_hmd_config_def codec_simps)

definition enc_pose_update :: "pose_update \<Rightarrow> u8 list" where
  "enc_pose_update x =
     le_enc 8 (pu_time_qpc x) @
     le_enc 1 (pu_device x) @
     le_enc 1 (pu_connected x) @
     le_enc 6 (pu_pad x) @
     le_enc 8 (pu_qw x) @
     le_enc 8 (pu_qx x) @
     le_enc 8 (pu_qy x) @
     le_enc 8 (pu_qz x) @
     le_enc 8 (pu_px x) @
     le_enc 8 (pu_py x) @
     le_enc 8 (pu_pz x) @
     le_enc 8 (pu_vx x) @
     le_enc 8 (pu_vy x) @
     le_enc 8 (pu_vz x) @
     le_enc 8 (pu_wx x) @
     le_enc 8 (pu_wy x) @
     le_enc 8 (pu_wz x)"

definition dec_pose_update :: "u8 list \<Rightarrow> pose_update" where
  "dec_pose_update bs =
     \<lparr>pu_time_qpc = fld 8 0 bs,
      pu_device = fld 1 8 bs,
      pu_connected = fld 1 9 bs,
      pu_pad = fld 6 10 bs,
      pu_qw = fld 8 16 bs,
      pu_qx = fld 8 24 bs,
      pu_qy = fld 8 32 bs,
      pu_qz = fld 8 40 bs,
      pu_px = fld 8 48 bs,
      pu_py = fld 8 56 bs,
      pu_pz = fld 8 64 bs,
      pu_vx = fld 8 72 bs,
      pu_vy = fld 8 80 bs,
      pu_vz = fld 8 88 bs,
      pu_wx = fld 8 96 bs,
      pu_wy = fld 8 104 bs,
      pu_wz = fld 8 112 bs\<rparr>"

interpretation pose_update_codec: codec enc_pose_update dec_pose_update 120
  by unfold_locales (simp_all add: enc_pose_update_def dec_pose_update_def codec_simps)

definition enc_device_add :: "device_add \<Rightarrow> u8 list" where
  "enc_device_add x =
     le_enc 1 (da_device x) @
     le_enc 3 (da_pad x)"

definition dec_device_add :: "u8 list \<Rightarrow> device_add" where
  "dec_device_add bs =
     \<lparr>da_device = fld 1 0 bs,
      da_pad = fld 3 1 bs\<rparr>"

interpretation device_add_codec: codec enc_device_add dec_device_add 4
  by unfold_locales (simp_all add: enc_device_add_def dec_device_add_def codec_simps)

definition enc_device_remove :: "device_remove \<Rightarrow> u8 list" where
  "enc_device_remove x =
     le_enc 1 (dr_device x) @
     le_enc 3 (dr_pad x)"

definition dec_device_remove :: "u8 list \<Rightarrow> device_remove" where
  "dec_device_remove bs =
     \<lparr>dr_device = fld 1 0 bs,
      dr_pad = fld 3 1 bs\<rparr>"

interpretation device_remove_codec: codec enc_device_remove dec_device_remove 4
  by unfold_locales (simp_all add: enc_device_remove_def dec_device_remove_def codec_simps)

definition enc_input_update :: "input_update \<Rightarrow> u8 list" where
  "enc_input_update x =
     le_enc 8 (iu_time_qpc x) @
     le_enc 1 (iu_device x) @
     le_enc 3 (iu_pad x) @
     le_enc 4 (iu_pressed x) @
     le_enc 4 (iu_touched x) @
     le_enc 4 (iu_trigger x) @
     le_enc 4 (iu_grip x) @
     le_enc 4 (iu_thumbstick_x x) @
     le_enc 4 (iu_thumbstick_y x)"

definition dec_input_update :: "u8 list \<Rightarrow> input_update" where
  "dec_input_update bs =
     \<lparr>iu_time_qpc = fld 8 0 bs,
      iu_device = fld 1 8 bs,
      iu_pad = fld 3 9 bs,
      iu_pressed = fld 4 12 bs,
      iu_touched = fld 4 16 bs,
      iu_trigger = fld 4 20 bs,
      iu_grip = fld 4 24 bs,
      iu_thumbstick_x = fld 4 28 bs,
      iu_thumbstick_y = fld 4 32 bs\<rparr>"

interpretation input_update_codec: codec enc_input_update dec_input_update 36
  by unfold_locales (simp_all add: enc_input_update_def dec_input_update_def codec_simps)

definition enc_haptic :: "haptic \<Rightarrow> u8 list" where
  "enc_haptic x =
     le_enc 1 (ha_device x) @
     le_enc 7 (ha_pad x) @
     le_enc 4 (ha_duration_s x) @
     le_enc 4 (ha_frequency_hz x) @
     le_enc 4 (ha_amplitude x)"

definition dec_haptic :: "u8 list \<Rightarrow> haptic" where
  "dec_haptic bs =
     \<lparr>ha_device = fld 1 0 bs,
      ha_pad = fld 7 1 bs,
      ha_duration_s = fld 4 8 bs,
      ha_frequency_hz = fld 4 12 bs,
      ha_amplitude = fld 4 16 bs\<rparr>"

interpretation haptic_codec: codec enc_haptic dec_haptic 20
  by unfold_locales (simp_all add: enc_haptic_def dec_haptic_def codec_simps)

definition enc_staging_config :: "staging_config \<Rightarrow> u8 list" where
  "enc_staging_config x =
     le_enc 4 (sc_generation x) @
     le_enc 4 (sc_width x) @
     le_enc 4 (sc_height x) @
     le_enc 4 (sc_dxgi_format x) @
     le_enc 4 (sc_count x) @
     le_enc 4 (sc_pad x) @
     le_enc 8 (fst (sc_handles x)) @ le_enc 8 (fst (snd (sc_handles x))) @ le_enc 8 (snd (snd (sc_handles x)))"

definition dec_staging_config :: "u8 list \<Rightarrow> staging_config" where
  "dec_staging_config bs =
     \<lparr>sc_generation = fld 4 0 bs,
      sc_width = fld 4 4 bs,
      sc_height = fld 4 8 bs,
      sc_dxgi_format = fld 4 12 bs,
      sc_count = fld 4 16 bs,
      sc_pad = fld 4 20 bs,
      sc_handles = (fld 8 24 bs, fld 8 32 bs, fld 8 40 bs)\<rparr>"

interpretation staging_config_codec: codec enc_staging_config dec_staging_config 48
  by unfold_locales (simp_all add: enc_staging_config_def dec_staging_config_def codec_simps)

definition enc_frame_ready :: "frame_ready \<Rightarrow> u8 list" where
  "enc_frame_ready x =
     le_enc 8 (fr_frame_id x) @
     le_enc 8 (fr_sample_time_qpc x) @
     le_enc 4 (fr_generation x) @
     le_enc 4 (fr_staging_index x) @
     le_enc 4 (fr_qw x) @
     le_enc 4 (fr_qx x) @
     le_enc 4 (fr_qy x) @
     le_enc 4 (fr_qz x) @
     le_enc 4 (fr_px x) @
     le_enc 4 (fr_py x) @
     le_enc 4 (fr_pz x) @
     le_enc 4 (fr_predict_s x)"

definition dec_frame_ready :: "u8 list \<Rightarrow> frame_ready" where
  "dec_frame_ready bs =
     \<lparr>fr_frame_id = fld 8 0 bs,
      fr_sample_time_qpc = fld 8 8 bs,
      fr_generation = fld 4 16 bs,
      fr_staging_index = fld 4 20 bs,
      fr_qw = fld 4 24 bs,
      fr_qx = fld 4 28 bs,
      fr_qy = fld 4 32 bs,
      fr_qz = fld 4 36 bs,
      fr_px = fld 4 40 bs,
      fr_py = fld 4 44 bs,
      fr_pz = fld 4 48 bs,
      fr_predict_s = fld 4 52 bs\<rparr>"

interpretation frame_ready_codec: codec enc_frame_ready dec_frame_ready 56
  by unfold_locales (simp_all add: enc_frame_ready_def dec_frame_ready_def codec_simps)

definition enc_frame_done :: "frame_done \<Rightarrow> u8 list" where
  "enc_frame_done x =
     le_enc 8 (fd_frame_id x) @
     le_enc 4 (fd_staging_index x) @
     le_enc 4 (fd_flags x)"

definition dec_frame_done :: "u8 list \<Rightarrow> frame_done" where
  "dec_frame_done bs =
     \<lparr>fd_frame_id = fld 8 0 bs,
      fd_staging_index = fld 4 8 bs,
      fd_flags = fld 4 12 bs\<rparr>"

interpretation frame_done_codec: codec enc_frame_done dec_frame_done 16
  by unfold_locales (simp_all add: enc_frame_done_def dec_frame_done_def codec_simps)

section \<open>Buttons\<close>

text \<open>The bit numbers of \<^verbatim>\<open>ipc::Button\<close>.\<close>

datatype button =
    BtSystem | BtMenu | BtA | BtB | BtX | BtY | BtTriggerClick | BtTriggerTouch | BtGripClick | BtStickClick | BtStickTouch

fun button_shift :: "button \<Rightarrow> nat" where
  "button_shift BtSystem = 0"
| "button_shift BtMenu = 1"
| "button_shift BtA = 2"
| "button_shift BtB = 3"
| "button_shift BtX = 4"
| "button_shift BtY = 5"
| "button_shift BtTriggerClick = 6"
| "button_shift BtTriggerTouch = 7"
| "button_shift BtGripClick = 8"
| "button_shift BtStickClick = 9"
| "button_shift BtStickTouch = 10"

definition button_mask :: "button \<Rightarrow> u32" where
  "button_mask b = push_bit (button_shift b) 1"

section \<open>The protocol's messages\<close>


end
