(* ===== verification/Frame_Staging.thy ===== *)
theory Frame_Staging
  imports Ipc_Wire
begin

text \<open>
  The shim's ring of staging textures: \<^verbatim>\<open>shim/src/frame_staging.h\<close> and
  \<^verbatim>\<open>frame_staging.cpp\<close>. Direct3D is a parameter: a state \<open>'w\<close> and the calls the
  ring makes on it (\<open>d3d\<close>), whose failures are results. Every member function
  runs under the ring's one mutex and is one atomic operation here. Breadcrumb
  logging is left out.
\<close>

section \<open>State\<close>

datatype acquire_result = AcqOk | AcqAbandoned | AcqTimeout | AcqFailed

text \<open>
  \<open>None\<close> stands for a failed \<^verbatim>\<open>HRESULT\<close> or a null result, which the ring treats
  alike. Textures and mutexes are named by numbers.
\<close>

record 'w d3d =
  d_create_texture :: "u32 \<Rightarrow> u32 \<Rightarrow> u32 \<Rightarrow> 'w \<Rightarrow> nat option \<times> 'w"
  d_query_resource :: "nat \<Rightarrow> 'w \<Rightarrow> bool \<times> 'w"
  d_create_shared_handle :: "nat \<Rightarrow> 'w \<Rightarrow> u64 option \<times> 'w"
  d_query_mutex :: "nat \<Rightarrow> 'w \<Rightarrow> nat option \<times> 'w"
  d_acquire :: "nat \<Rightarrow> u64 \<Rightarrow> 'w \<Rightarrow> acquire_result \<times> 'w"
  d_release :: "nat \<Rightarrow> u64 \<Rightarrow> 'w \<Rightarrow> 'w"
  d_release_mutex :: "nat \<Rightarrow> 'w \<Rightarrow> 'w"
  d_release_texture :: "nat \<Rightarrow> 'w \<Rightarrow> 'w"
  d_close_handle :: "u64 \<Rightarrow> 'w \<Rightarrow> 'w"

definition kMaxSlots :: nat where "kMaxSlots = 3"

definition acquired_ok :: "acquire_result \<Rightarrow> bool" where
  "acquired_ok hr \<longleftrightarrow> hr = AcqOk \<or> hr = AcqAbandoned"

record slot =
  st_texture :: "nat option"
  st_mutex :: "nat option"
  st_handle :: "u64 option"
  st_helper_owned :: bool
  st_leased :: bool
  st_frame_id :: u64

definition slot_empty :: slot where
  "slot_empty = \<lparr>st_texture = None, st_mutex = None, st_handle = None, st_helper_owned = False,
     st_leased = False, st_frame_id = 0\<rparr>"

record ring =
  rg_slots :: "slot list"
  rg_count :: nat
  rg_width :: u32
  rg_height :: u32
  rg_format :: u32
  rg_generation :: u32
  rg_stale :: bool
  rg_next :: nat

definition ring_new :: ring where
  "ring_new = \<lparr>rg_slots = replicate kMaxSlots slot_empty, rg_count = 0, rg_width = 0, rg_height = 0,
     rg_format = 0, rg_generation = 0, rg_stale = False, rg_next = 0\<rparr>"

text \<open>\<^verbatim>\<open>Lease\<close>: an index and its texture, or the invalid lease.\<close>

type_synonym lease = "(nat \<times> nat) option"

section \<open>Queries\<close>

definition usable :: "ring \<Rightarrow> bool" where
  "usable r \<longleftrightarrow> rg_count r \<noteq> 0 \<and> \<not> rg_stale r"

definition ring_matches :: "u32 \<Rightarrow> u32 \<Rightarrow> u32 \<Rightarrow> ring \<Rightarrow> bool" where
  "ring_matches width height dxgi_format r \<longleftrightarrow> rg_count r \<noteq> 0 \<and> \<not> rg_stale r
     \<and> rg_width r = width \<and> rg_height r = height \<and> rg_format r = dxgi_format"

definition busy_slots :: "ring \<Rightarrow> nat" where
  "busy_slots r = length (filter st_helper_owned (take (rg_count r) (rg_slots r)))"

section \<open>Creation and destruction\<close>

definition destroy_slot :: "'w d3d \<Rightarrow> slot \<times> 'w \<Rightarrow> slot \<times> 'w" where
  "destroy_slot env = (\<lambda>(s, w).
     let w = (case st_mutex s of Some m \<Rightarrow> if st_leased s then d_release env m 0 w else w | None \<Rightarrow> w);
         w = (case st_mutex s of Some m \<Rightarrow> d_release_mutex env m w | None \<Rightarrow> w);
         w = (case st_texture s of Some t \<Rightarrow> d_release_texture env t w | None \<Rightarrow> w);
         w = (case st_handle s of Some h \<Rightarrow> d_close_handle env h w | None \<Rightarrow> w)
     in (slot_empty, w))"

fun destroy_slots :: "'w d3d \<Rightarrow> slot list \<Rightarrow> 'w \<Rightarrow> slot list \<times> 'w" where
  "destroy_slots env [] w = ([], w)"
| "destroy_slots env (s # ss) w =
     (let (s', w') = destroy_slot env (s, w); (ss', w'') = destroy_slots env ss w' in (s' # ss', w''))"

definition destroy_locked :: "'w d3d \<Rightarrow> ring \<times> 'w \<Rightarrow> ring \<times> 'w" where
  "destroy_locked env = (\<lambda>(r, w).
     let (ss, w') = destroy_slots env (rg_slots r) w
     in (r\<lparr>rg_slots := ss, rg_count := 0, rg_width := 0, rg_height := 0, rg_format := 0,
           rg_stale := False, rg_next := 0\<rparr>, w'))"

text \<open>
  One pass of the loop in \<^verbatim>\<open>create\<close>: the slot as far as it was filled, and
  whether every call succeeded.
\<close>

definition create_slot :: "'w d3d \<Rightarrow> u32 \<Rightarrow> u32 \<Rightarrow> u32 \<Rightarrow> slot \<Rightarrow> 'w \<Rightarrow> bool \<times> slot \<times> 'w" where
  "create_slot env width height dxgi_format s w =
     (case d_create_texture env width height dxgi_format w of
        (None, w) \<Rightarrow> (False, s, w)
      | (Some tex, w) \<Rightarrow>
          let s = s\<lparr>st_texture := Some tex\<rparr>
          in case d_query_resource env tex w of
            (False, w) \<Rightarrow> (False, s, w)
          | (True, w) \<Rightarrow>
              (case d_create_shared_handle env tex w of
                 (None, w) \<Rightarrow> (False, s, w)
               | (Some h, w) \<Rightarrow>
                   let s = s\<lparr>st_handle := Some h\<rparr>
                   in case d_query_mutex env tex w of
                     (None, w) \<Rightarrow> (False, s, w)
                   | (Some m, w) \<Rightarrow>
                       (True, s\<lparr>st_mutex := Some m, st_helper_owned := False, st_leased := False,
                                st_frame_id := 0\<rparr>, w)))"

fun create_slots :: "'w d3d \<Rightarrow> u32 \<Rightarrow> u32 \<Rightarrow> u32 \<Rightarrow> nat \<Rightarrow> slot list \<Rightarrow> 'w \<Rightarrow> bool \<times> slot list \<times> 'w" where
  "create_slots env width height dxgi_format (Suc n) (s # ss) w =
     (case create_slot env width height dxgi_format s w of
        (False, s', w') \<Rightarrow> (False, s' # ss, w')
      | (True, s', w') \<Rightarrow>
          (case create_slots env width height dxgi_format n ss w' of (ok, ss', w'') \<Rightarrow> (ok, s' # ss', w'')))"
| "create_slots env width height dxgi_format _ ss w = (True, ss, w)"

definition ring_create ::
    "'w d3d \<Rightarrow> bool \<Rightarrow> u32 \<Rightarrow> u32 \<Rightarrow> u32 \<Rightarrow> u32 \<Rightarrow> ring \<times> 'w \<Rightarrow> bool \<times> ring \<times> 'w" where
  "ring_create env have_device width height dxgi_format count = (\<lambda>(r, w).
     if \<not> have_device \<or> width = 0 \<or> height = 0 then (False, r, w)
     else
       let n = (if count = 0 then 1 else min (unat count) kMaxSlots);
           (r, w) = destroy_locked env (r, w)
       in case create_slots env width height dxgi_format n (rg_slots r) w of
            (False, ss, w) \<Rightarrow> (False, destroy_locked env (r\<lparr>rg_slots := ss\<rparr>, w))
          | (True, ss, w) \<Rightarrow>
              (True, r\<lparr>rg_slots := ss, rg_count := n, rg_width := width, rg_height := height,
                rg_format := dxgi_format, rg_stale := False, rg_next := 0,
                rg_generation := rg_generation r + 1\<rparr>, w))"

definition describe :: "ring \<Rightarrow> staging_config option" where
  "describe r =
     (if rg_count r = 0 then None
      else let h = (\<lambda>i. if i < rg_count r then case st_handle (rg_slots r ! i) of Some h \<Rightarrow> h | None \<Rightarrow> 0 else 0)
           in Some \<lparr>sc_generation = rg_generation r, sc_width = rg_width r, sc_height = rg_height r,
                sc_dxgi_format = rg_format r, sc_count = of_nat (rg_count r), sc_pad = 0,
                sc_handles = (h 0, h 1, h 2)\<rparr>)"

section \<open>Leases\<close>

definition set_slot :: "nat \<Rightarrow> slot \<Rightarrow> ring \<Rightarrow> ring" where
  "set_slot i s r = r\<lparr>rg_slots := (rg_slots r)[i := s]\<rparr>"

definition slot_free :: "slot \<Rightarrow> bool" where
  "slot_free s \<longleftrightarrow> \<not> st_helper_owned s \<and> \<not> st_leased s \<and> st_mutex s \<noteq> None \<and> st_texture s \<noteq> None"

text \<open>Key 0, and failing that key 1: the release of ours that the helper never took.\<close>

definition try_acquire :: "'w d3d \<Rightarrow> nat \<Rightarrow> 'w \<Rightarrow> acquire_result \<times> 'w" where
  "try_acquire env m w =
     (case d_acquire env m 0 w of (hr, w) \<Rightarrow> if acquired_ok hr then (hr, w) else d_acquire env m 1 w)"

function acquire_from :: "'w d3d \<Rightarrow> nat \<Rightarrow> ring \<times> 'w \<Rightarrow> lease \<times> ring \<times> 'w" where
  "acquire_from env attempt (r, w) =
     (if rg_count r \<le> attempt then (None, r, w)
      else let index = (rg_next r + attempt) mod rg_count r; s = rg_slots r ! index
           in if \<not> slot_free s then acquire_from env (attempt + 1) (r, w)
              else case try_acquire env (the (st_mutex s)) w of (hr, w) \<Rightarrow>
                if \<not> acquired_ok hr then acquire_from env (attempt + 1) (r, w)
                else (Some (index, the (st_texture s)),
                      (set_slot index (s\<lparr>st_leased := True\<rparr>) r)\<lparr>rg_next := (index + 1) mod rg_count r\<rparr>, w))"
  by pat_completeness auto

termination
  by (relation "measure (\<lambda>(env, attempt, r, w). rg_count r - attempt)") auto

declare acquire_from.simps [simp del]

definition acquire_slot :: "'w d3d \<Rightarrow> ring \<times> 'w \<Rightarrow> lease \<times> ring \<times> 'w" where
  "acquire_slot env = (\<lambda>(r, w).
     if rg_count r = 0 \<or> rg_stale r then (None, r, w) else acquire_from env 0 (r, w))"

definition release_to_helper :: "'w d3d \<Rightarrow> lease \<Rightarrow> u64 \<Rightarrow> ring \<times> 'w \<Rightarrow> ring \<times> 'w" where
  "release_to_helper env l frame_id = (\<lambda>(r, w).
     case l of None \<Rightarrow> (r, w)
     | Some (i, _) \<Rightarrow>
         if rg_count r \<le> i then (r, w)
         else let s = rg_slots r ! i
              in case (st_leased s, st_mutex s) of
                (True, Some m) \<Rightarrow>
                  (set_slot i (s\<lparr>st_leased := False, st_helper_owned := True, st_frame_id := frame_id\<rparr>) r,
                   d_release env m 1 w)
              | _ \<Rightarrow> (r, w))"

definition return_slot :: "'w d3d \<Rightarrow> lease \<Rightarrow> ring \<times> 'w \<Rightarrow> ring \<times> 'w" where
  "return_slot env l = (\<lambda>(r, w).
     case l of None \<Rightarrow> (r, w)
     | Some (i, _) \<Rightarrow>
         if rg_count r \<le> i then (r, w)
         else let s = rg_slots r ! i
              in case (st_leased s, st_mutex s) of
                (True, Some m) \<Rightarrow>
                  (set_slot i (s\<lparr>st_leased := False, st_helper_owned := False, st_frame_id := 0\<rparr>) r,
                   d_release env m 0 w)
              | _ \<Rightarrow> (r, w))"

definition on_frame_done :: "frame_done \<Rightarrow> ring \<Rightarrow> bool \<times> ring" where
  "on_frame_done fd r =
     (if rg_count r = 0 \<or> rg_count r \<le> unat (fd_staging_index fd) then (False, r)
      else let i = unat (fd_staging_index fd); s = rg_slots r ! i
           in if \<not> st_helper_owned s then (False, r)
              else if st_frame_id s \<noteq> fd_frame_id fd then (False, r)
              else (True, set_slot i (s\<lparr>st_helper_owned := False, st_frame_id := 0\<rparr>) r))"

definition mark_stale :: "ring \<Rightarrow> ring" where
  "mark_stale r = (if rg_count r \<noteq> 0 \<and> \<not> rg_stale r then r\<lparr>rg_stale := True\<rparr> else r)"

section \<open>Invariant\<close>

text \<open>
  A slot is never leased to the shim and owned by the helper at once; a slot
  nobody owns has no frame; the slots of the ring have their Direct3D objects
  and the others are empty.
\<close>

definition slot_wf :: "slot \<Rightarrow> bool" where
  "slot_wf s \<longleftrightarrow> \<not> (st_leased s \<and> st_helper_owned s) \<and> (\<not> st_helper_owned s \<longrightarrow> st_frame_id s = 0)
     \<and> st_texture s \<noteq> None \<and> st_mutex s \<noteq> None \<and> st_handle s \<noteq> None"

definition ring_wf :: "ring \<Rightarrow> bool" where
  "ring_wf r \<longleftrightarrow> length (rg_slots r) = kMaxSlots \<and> rg_count r \<le> kMaxSlots
     \<and> rg_next r \<le> rg_count r
     \<and> (\<forall>i < rg_count r. slot_wf (rg_slots r ! i))
     \<and> (\<forall>i < kMaxSlots. rg_count r \<le> i \<longrightarrow> rg_slots r ! i = slot_empty)"

lemma ring_wf_new: "ring_wf ring_new"
  by (simp add: ring_wf_def ring_new_def)

lemma destroy_slots_empty: "fst (destroy_slots env ss w) = replicate (length ss) slot_empty"
  by (induction env ss w rule: destroy_slots.induct) (auto simp: destroy_slot_def Let_def split: prod.splits)

lemma destroy_locked_wf:
  assumes "length (rg_slots r) = kMaxSlots"
  shows "fst (destroy_locked env (r, w)) = ring_new\<lparr>rg_generation := rg_generation r\<rparr>"
  using destroy_slots_empty [of env "rg_slots r" w] assms
  by (auto simp: destroy_locked_def ring_new_def split: prod.splits)

lemma create_slot_ok:
  "create_slot env wd h f s w = (True, s', w') \<Longrightarrow> slot_wf s' \<and> \<not> st_helper_owned s' \<and> \<not> st_leased s'"
  by (auto simp: create_slot_def slot_wf_def Let_def split: prod.splits option.splits bool.splits if_splits)

lemma create_slots_ok:
  assumes "create_slots env wd h f n ss w = (ok, ss', w')"
  shows "length ss' = length ss \<and> (ok \<and> n \<le> length ss \<longrightarrow>
    (\<forall>i < n. slot_wf (ss' ! i) \<and> \<not> st_helper_owned (ss' ! i) \<and> \<not> st_leased (ss' ! i))
    \<and> (\<forall>i < length ss. n \<le> i \<longrightarrow> ss' ! i = ss ! i))"
  using assms
proof (induction env wd h f n ss w arbitrary: ok ss' w' rule: create_slots.induct)
  case (1 env wd h f n s ss w)
  obtain ok1 s1 w1 where c: "create_slot env wd h f s w = (ok1, s1, w1)" by (cases "create_slot env wd h f s w")
  show ?case
  proof (cases ok1)
    case True
    obtain ok2 ss2 w2 where cs: "create_slots env wd h f n ss w1 = (ok2, ss2, w2)"
      by (cases "create_slots env wd h f n ss w1")
    have "length ss2 = length ss \<and> (ok2 \<and> n \<le> length ss \<longrightarrow>
      (\<forall>i < n. slot_wf (ss2 ! i) \<and> \<not> st_helper_owned (ss2 ! i) \<and> \<not> st_leased (ss2 ! i))
      \<and> (\<forall>i < length ss. n \<le> i \<longrightarrow> ss2 ! i = ss ! i))" using "1.IH" c True cs by simp
    then show ?thesis
      using "1.prems" c cs True create_slot_ok [of env wd h f s w s1 w1]
      by (auto simp: nth_Cons split: nat.splits)
  qed (use "1.prems" c in auto)
qed auto

lemma create_wf:
  assumes "length (rg_slots r) = kMaxSlots" and "ring_wf r"
    and "ring_create env dev wd h f c (r, w) = (ok, r', w')"
  shows "ring_wf r'"
proof -
  have z: "fst (destroy_locked env (r0, w0)) = ring_new\<lparr>rg_generation := rg_generation r0\<rparr>"
    if "length (rg_slots r0) = kMaxSlots" for r0 w0
    using destroy_locked_wf [OF that] .
  obtain r1 w1 where d: "destroy_locked env (r, w) = (r1, w1)" by fastforce
  then have r1: "r1 = ring_new\<lparr>rg_generation := rg_generation r\<rparr>" using z [OF assms(1), of w] by simp
  define n where "n = (if c = 0 then 1 else min (unat c) kMaxSlots)"
  have n: "n \<le> kMaxSlots" by (simp add: n_def kMaxSlots_def)
  obtain ok1 ss w2 where cs: "create_slots env wd h f n (rg_slots r1) w1 = (ok1, ss, w2)"
    by (cases "create_slots env wd h f n (rg_slots r1) w1")
  from create_slots_ok [OF cs] have ss: "length ss = kMaxSlots"
    "ok1 \<Longrightarrow> (\<forall>i < n. slot_wf (ss ! i)) \<and> (\<forall>i < kMaxSlots. n \<le> i \<longrightarrow> ss ! i = slot_empty)"
    using n by (simp_all add: r1 ring_new_def)
  obtain r3 w3 where d3: "destroy_locked env (r1\<lparr>rg_slots := ss\<rparr>, w2) = (r3, w3)" by fastforce
  have r3: "ring_wf r3"
    using z [of "r1\<lparr>rg_slots := ss\<rparr>" w2] ss(1) d3 by (simp add: ring_wf_def ring_new_def)
  show ?thesis
  proof (cases "\<not> dev \<or> wd = 0 \<or> h = 0")
    case True
    then show ?thesis using assms by (auto simp: ring_create_def)
  next
    case False
    then show ?thesis
      using assms(3) d cs d3 r3 ss n
      by (cases ok1) (auto simp: ring_create_def Let_def n_def [symmetric] ring_wf_def)
  qed
qed

lemma set_slot_wf:
  "ring_wf r \<Longrightarrow> i < rg_count r \<Longrightarrow> slot_wf s \<Longrightarrow> ring_wf (set_slot i s r)"
  by (auto simp: ring_wf_def set_slot_def nth_list_update)

text \<open>A free slot whose mutex refused both keys at some moment of the search.\<close>

definition refused :: "'w d3d \<Rightarrow> slot \<Rightarrow> bool" where
  "refused env s \<longleftrightarrow> (\<exists>w. \<not> acquired_ok (fst (try_acquire env (the (st_mutex s)) w)))"

lemma acquire_from_spec:
  assumes "acquire_from env a (r, w) = (l, r', w')"
  shows "case l of
      None \<Rightarrow> r' = r \<and> (\<forall>j. a \<le> j \<and> j < rg_count r \<longrightarrow>
        (let s = rg_slots r ! ((rg_next r + j) mod rg_count r) in slot_free s \<longrightarrow> refused env s))
    | Some (i, t) \<Rightarrow> i < rg_count r \<and> slot_free (rg_slots r ! i) \<and> st_texture (rg_slots r ! i) = Some t
        \<and> r' = (set_slot i ((rg_slots r ! i)\<lparr>st_leased := True\<rparr>) r)\<lparr>rg_next := (i + 1) mod rg_count r\<rparr>"
  using assms
proof (induction "rg_count r - a" arbitrary: a w)
  case 0
  then show ?case by (auto simp: acquire_from.simps [of env a])
next
  case (Suc n)
  let ?i = "(rg_next r + a) mod rg_count r"
  have a: "a < rg_count r" "n = rg_count r - (a + 1)" using Suc.hyps(2) by simp_all
  note IH = Suc.hyps(1) [OF a(2)]
  obtain hr w1 where t: "try_acquire env (the (st_mutex (rg_slots r ! ?i))) w = (hr, w1)" by fastforce
  have step: "(a \<le> j \<and> j < rg_count r) = (j = a \<or> a + 1 \<le> j \<and> j < rg_count r)" for j
    using a(1) by auto
  consider (taken) "\<not> slot_free (rg_slots r ! ?i)" | (refused) "slot_free (rg_slots r ! ?i)" "\<not> acquired_ok hr"
    | (got) "slot_free (rg_slots r ! ?i)" "acquired_ok hr" by blast
  then show ?case
  proof cases
    case taken
    then have "acquire_from env (a + 1) (r, w) = (l, r', w')"
      using Suc.prems a(1) by (simp add: acquire_from.simps [of env a] Let_def)
    from IH [OF this] taken show ?thesis by (auto simp: step Let_def split: option.splits)
  next
    case refused
    then have "acquire_from env (a + 1) (r, w1) = (l, r', w')"
      using Suc.prems a(1) t by (simp add: acquire_from.simps [of env a] Let_def)
    moreover have "Frame_Staging.refused env (rg_slots r ! ?i)"
      unfolding refused_def using refused(2) t by (metis fst_conv)
    ultimately show ?thesis using IH by (auto simp: step Let_def split: option.splits)
  next
    case got
    then show ?thesis
      using Suc.prems a(1) t by (auto simp: acquire_from.simps [of env a] Let_def slot_free_def)
  qed
qed

section \<open>The ring as a machine\<close>

datatype ring_call =
  Create bool u32 u32 u32 u32
| Destroy
| Acquire
| ReleaseToHelper lease u64
| ReturnSlot lease
| FrameDoneArrived frame_done
| MarkStale

fun ring_step :: "'w d3d \<Rightarrow> ring \<times> 'w \<Rightarrow> ring_call \<Rightarrow> ring \<times> 'w" where
  "ring_step env rw (Create dev wd h f c) = snd (ring_create env dev wd h f c rw)"
| "ring_step env rw Destroy = destroy_locked env rw"
| "ring_step env rw Acquire = snd (acquire_slot env rw)"
| "ring_step env rw (ReleaseToHelper l fid) = release_to_helper env l fid rw"
| "ring_step env rw (ReturnSlot l) = return_slot env l rw"
| "ring_step env (r, w) (FrameDoneArrived fd) = (snd (on_frame_done fd r), w)"
| "ring_step env (r, w) MarkStale = (mark_stale r, w)"

lemma ring_length: "ring_wf r \<Longrightarrow> length (rg_slots r) = kMaxSlots"
  by (simp add: ring_wf_def)

lemma release_to_helper_cases:
  assumes "release_to_helper env l fid (r, w) = (r', w')"
  obtains "r' = r" "w' = w"
  | i t m where "l = Some (i, t)" "i < rg_count r" "st_leased (rg_slots r ! i)" "st_mutex (rg_slots r ! i) = Some m"
      "r' = set_slot i ((rg_slots r ! i)\<lparr>st_leased := False, st_helper_owned := True, st_frame_id := fid\<rparr>) r"
      "w' = d_release env m 1 w"
proof (cases "\<exists>i t m. l = Some (i, t) \<and> i < rg_count r \<and> st_leased (rg_slots r ! i)
    \<and> st_mutex (rg_slots r ! i) = Some m")
  case True
  then show ?thesis using assms that(2) by (auto simp: release_to_helper_def Let_def)
next
  case False
  then have "release_to_helper env l fid (r, w) = (r, w)"
    by (auto simp: release_to_helper_def Let_def split: option.splits bool.splits)
  then show ?thesis using assms that(1) by simp
qed

lemma return_slot_cases:
  assumes "return_slot env l (r, w) = (r', w')"
  obtains "r' = r" "w' = w"
  | i t m where "l = Some (i, t)" "i < rg_count r" "st_leased (rg_slots r ! i)" "st_mutex (rg_slots r ! i) = Some m"
      "r' = set_slot i ((rg_slots r ! i)\<lparr>st_leased := False, st_helper_owned := False, st_frame_id := 0\<rparr>) r"
      "w' = d_release env m 0 w"
proof (cases "\<exists>i t m. l = Some (i, t) \<and> i < rg_count r \<and> st_leased (rg_slots r ! i)
    \<and> st_mutex (rg_slots r ! i) = Some m")
  case True
  then show ?thesis using assms that(2) by (auto simp: return_slot_def Let_def)
next
  case False
  then have "return_slot env l (r, w) = (r, w)"
    by (auto simp: return_slot_def Let_def split: option.splits bool.splits)
  then show ?thesis using assms that(1) by simp
qed

lemma on_frame_done_cases:
  assumes "on_frame_done fd r = (ok, r')"
  obtains "\<not> ok" "r' = r"
  | "ok" "unat (fd_staging_index fd) < rg_count r" "st_helper_owned (rg_slots r ! unat (fd_staging_index fd))"
      "st_frame_id (rg_slots r ! unat (fd_staging_index fd)) = fd_frame_id fd"
      "r' = set_slot (unat (fd_staging_index fd))
         ((rg_slots r ! unat (fd_staging_index fd))\<lparr>st_helper_owned := False, st_frame_id := 0\<rparr>) r"
proof (cases ok)
  case True
  then show ?thesis using assms that(2) by (simp add: on_frame_done_def Let_def split: if_splits)
next
  case False
  then show ?thesis using assms that(1) by (simp add: on_frame_done_def Let_def split: if_splits)
qed

lemma ring_wf_next: "ring_wf r \<Longrightarrow> n \<le> rg_count r \<Longrightarrow> ring_wf (r\<lparr>rg_next := n\<rparr>)"
  by (simp add: ring_wf_def)

lemma acquire_wf:
  assumes "ring_wf r" and "acquire_slot env (r, w) = (l, r', w')"
  shows "ring_wf r'"
proof (cases "rg_count r = 0 \<or> rg_stale r")
  case False
  with assms have a: "acquire_from env 0 (r, w) = (l, r', w')" by (simp add: acquire_slot_def)
  have wf: "i < rg_count r \<Longrightarrow> slot_free (rg_slots r ! i)
      \<Longrightarrow> ring_wf (set_slot i ((rg_slots r ! i)\<lparr>st_leased := True\<rparr>) r)" for i
    using assms(1) by (intro set_slot_wf) (auto simp: ring_wf_def slot_wf_def slot_free_def)
  show ?thesis
  proof (cases l)
    case None
    then show ?thesis using acquire_from_spec [OF a] assms(1) by simp
  next
    case (Some it)
    obtain i t where it: "it = (i, t)" by fastforce
    have "rg_count (set_slot i s r) = rg_count r" for s by (simp add: set_slot_def)
    moreover have "Suc i mod rg_count r \<le> rg_count r" using False by (simp add: less_imp_le)
    ultimately show ?thesis
      using acquire_from_spec [OF a] wf [of i] ring_wf_next by (simp add: Some it)
  qed
qed (use assms in \<open>simp add: acquire_slot_def\<close>)

lemma ring_step_wf:
  assumes "ring_wf (fst rw)"
  shows "ring_wf (fst (ring_step env rw e))"
proof (cases rw)
  case (Pair r w)
  with assms have wf: "ring_wf r" by simp
  have slot: "\<And>i. i < rg_count r \<Longrightarrow> slot_wf (rg_slots r ! i)" using wf by (simp add: ring_wf_def)
  show ?thesis
  proof (cases e)
    case (Create dev wd h f c)
    then show ?thesis
      using create_wf [OF ring_length [OF wf] wf] Pair
      by (cases "ring_create env dev wd h f c (r, w)") auto
  next
    case Destroy
    then show ?thesis
      using destroy_locked_wf [OF ring_length [OF wf], of env w] Pair by (simp add: ring_wf_def ring_new_def)
  next
    case Acquire
    then show ?thesis using acquire_wf [OF wf] Pair by (cases "acquire_slot env (r, w)") auto
  next
    case (ReleaseToHelper l fid)
    obtain r' w' where rel: "release_to_helper env l fid (r, w) = (r', w')" by fastforce
    then have "ring_wf r'"
      by (cases rule: release_to_helper_cases)
        (use wf slot in \<open>auto intro!: set_slot_wf simp: slot_wf_def\<close>)
    then show ?thesis using ReleaseToHelper Pair rel by simp
  next
    case (ReturnSlot l)
    obtain r' w' where ret: "return_slot env l (r, w) = (r', w')" by fastforce
    then have "ring_wf r'"
      by (cases rule: return_slot_cases) (use wf slot in \<open>auto intro!: set_slot_wf simp: slot_wf_def\<close>)
    then show ?thesis using ReturnSlot Pair ret by simp
  next
    case (FrameDoneArrived fd)
    obtain ok r' where fd: "on_frame_done fd r = (ok, r')" by fastforce
    then have "ring_wf r'"
      by (cases rule: on_frame_done_cases) (use wf slot in \<open>auto intro!: set_slot_wf simp: slot_wf_def\<close>)
    then show ?thesis using FrameDoneArrived Pair fd by simp
  next
    case MarkStale
    then show ?thesis using wf Pair by (simp add: mark_stale_def ring_wf_def)
  qed
qed

interpretation ring: machine_invariant "ring_step env" "\<lambda>rw. ring_wf (fst rw)" for env :: "'w d3d"
  by unfold_locales (rule ring_step_wf)

section \<open>Ownership\<close>


section \<open>Frames\<close>

lemma filter_update_out:
  "i < length xs \<Longrightarrow> P (xs ! i) \<Longrightarrow> \<not> P x \<Longrightarrow> Suc (length (filter P (xs[i := x]))) = length (filter P xs)"
proof (induction xs arbitrary: i)
  case (Cons y ys)
  then show ?case by (cases i) auto
qed simp

definition owned_ids :: "ring \<Rightarrow> u64 set" where
  "owned_ids r = st_frame_id ` {s \<in> set (rg_slots r). st_helper_owned s}"

text \<open>The frames a call announces, and the calls that replace the ring.\<close>

fun announced :: "ring_call \<Rightarrow> u64 set" where
  "announced (ReleaseToHelper l fid) = {fid}"
| "announced _ = {}"

fun rebuilds :: "ring_call \<Rightarrow> bool" where
  "rebuilds (Create dev wd h f c) = (dev \<and> wd \<noteq> 0 \<and> h \<noteq> 0)"
| "rebuilds Destroy = True"
| "rebuilds _ = False"

lemma owned_ids_set_slot:
  "owned_ids (set_slot i s r) \<subseteq> owned_ids r \<union> (if st_helper_owned s then {st_frame_id s} else {})"
  by (auto simp: owned_ids_def set_slot_def dest!: subsetD [OF set_update_subset_insert])

lemma owned_ids_wf:
  assumes "ring_wf r" and "\<And>i. i < rg_count r \<Longrightarrow> \<not> st_helper_owned (rg_slots r ! i)"
  shows "owned_ids r = {}"
proof -
  have "\<not> st_helper_owned (rg_slots r ! i)" if "i < kMaxSlots" for i
    using assms that by (cases "i < rg_count r") (auto simp: ring_wf_def slot_empty_def)
  then show ?thesis using assms(1) by (auto simp: owned_ids_def in_set_conv_nth ring_wf_def)
qed

lemma owned_ids_new [simp]: "owned_ids (ring_new\<lparr>rg_generation := g\<rparr>) = {}"
  by (auto simp: owned_ids_def ring_new_def slot_empty_def)

lemma create_owns_nothing:
  assumes "ring_wf r" and "rebuilds (Create dev wd h f c)"
  shows "owned_ids (fst (snd (ring_create env dev wd h f c (r, w)))) = {}"
proof -
  define n where "n = (if c = 0 then 1 else min (unat c) kMaxSlots)"
  obtain r1 w1 where d: "destroy_locked env (r, w) = (r1, w1)" by fastforce
  then have r1: "r1 = ring_new\<lparr>rg_generation := rg_generation r\<rparr>"
    using destroy_locked_wf [of r env w] assms(1) by (simp add: ring_wf_def)
  obtain ok ss w2 where cs: "create_slots env wd h f n (rg_slots r1) w1 = (ok, ss, w2)"
    by (cases "create_slots env wd h f n (rg_slots r1) w1")
  show ?thesis
  proof (cases ok)
    case False
    have "length ss = kMaxSlots" using create_slots_ok [OF cs] by (simp add: r1 ring_new_def)
    then show ?thesis
      using destroy_locked_wf [of "r1\<lparr>rg_slots := ss\<rparr>" env w2] assms(2) d cs False
      by (simp add: ring_create_def Let_def n_def [symmetric])
  next
    case True
    let ?r = "r1\<lparr>rg_slots := ss, rg_count := n, rg_width := wd, rg_height := h, rg_format := f,
        rg_stale := False, rg_next := 0, rg_generation := rg_generation r1 + 1\<rparr>"
    have eq: "ring_create env dev wd h f c (r, w) = (True, ?r, w2)"
      using assms(2) d cs True by (simp add: ring_create_def Let_def n_def [symmetric])
    have "n \<le> length (rg_slots r1)" by (simp add: r1 ring_new_def n_def kMaxSlots_def)
    then have "\<not> st_helper_owned (ss ! i)" if "i < n" for i using create_slots_ok [OF cs] True that by simp
    then have "owned_ids ?r = {}"
      using create_wf [OF ring_length [OF assms(1)] assms(1) eq] by (intro owned_ids_wf) simp_all
    then show ?thesis by (simp add: eq)
  qed
qed

lemma owned_ids_step:
  assumes "ring_wf (fst rw)"
  shows "owned_ids (fst (ring_step env rw e)) \<subseteq> (if rebuilds e then {} else owned_ids (fst rw) \<union> announced e)"
proof (cases rw)
  case (Pair r w)
  with assms have wf: "ring_wf r" by simp
  note sub = subset_trans [OF owned_ids_set_slot]
  show ?thesis
  proof (cases e)
    case (Create dev wd h f c)
    then show ?thesis
      using create_owns_nothing [OF wf, of dev wd h f c env w] Pair
      by (cases "rebuilds e") (auto simp: ring_create_def)
  next
    case Destroy
    then show ?thesis using destroy_locked_wf [OF ring_length [OF wf], of env w] Pair by simp
  next
    case Acquire
    obtain l r' w' where a: "acquire_slot env (r, w) = (l, r', w')" by (cases "acquire_slot env (r, w)")
    have "owned_ids r' \<subseteq> owned_ids r"
    proof (cases "rg_count r = 0 \<or> rg_stale r")
      case False
      then have "acquire_from env 0 (r, w) = (l, r', w')" using a by (simp add: acquire_slot_def)
      from acquire_from_spec [OF this] show ?thesis
        using owned_ids_set_slot [of _ "(rg_slots r ! _)\<lparr>st_leased := True\<rparr>" r]
        by (fastforce simp: slot_free_def owned_ids_def [of "_\<lparr>rg_next := _\<rparr>"] owned_ids_def [of "set_slot _ _ _"]
            split: option.splits)
    qed (use a in \<open>simp add: acquire_slot_def\<close>)
    then show ?thesis using Acquire Pair a by simp
  next
    case (ReleaseToHelper l fid)
    obtain r' w' where rel: "release_to_helper env l fid (r, w) = (r', w')" by fastforce
    then have "owned_ids r' \<subseteq> owned_ids r \<union> {fid}"
      by (cases rule: release_to_helper_cases) (auto dest: subsetD [OF owned_ids_set_slot])
    then show ?thesis using ReleaseToHelper Pair rel by simp
  next
    case (ReturnSlot l)
    obtain r' w' where ret: "return_slot env l (r, w) = (r', w')" by fastforce
    then have "owned_ids r' \<subseteq> owned_ids r"
      by (cases rule: return_slot_cases) (auto dest: subsetD [OF owned_ids_set_slot])
    then show ?thesis using ReturnSlot Pair ret by simp
  next
    case (FrameDoneArrived fd)
    obtain ok r' where fd: "on_frame_done fd r = (ok, r')" by fastforce
    then have "owned_ids r' \<subseteq> owned_ids r"
      by (cases rule: on_frame_done_cases) (auto dest: subsetD [OF owned_ids_set_slot])
    then show ?thesis using FrameDoneArrived Pair fd by simp
  next
    case MarkStale
    then show ?thesis using Pair by (simp add: mark_stale_def owned_ids_def)
  qed
qed

lemma owned_ids_run:
  "ring_wf (fst rw) \<Longrightarrow> owned_ids (fst (foldl (ring_step env) rw es)) \<subseteq> owned_ids (fst rw) \<union> \<Union> (announced ` set es)"
proof (induction es arbitrary: rw)
  case (Cons e es)
  then show ?case
    using Cons.IH [OF ring_step_wf [OF Cons.prems], of env e] owned_ids_step [OF Cons.prems, of env e]
    by (fastforce split: if_splits)
qed simp

text \<open>
  C12. Stale FrameDones. A FrameDone frees a slot only if the helper owns that
  very slot for that very frame, and then it frees that slot and nothing else.
  A FrameDone for a frame that was not announced since the ring was last
  rebuilt is ignored, whatever slot it names: frame identifiers that do not
  repeat are enough to keep a late answer from touching a new ring.
\<close>

theorem stale_frame_done_ignored:
  assumes "(r, w) = foldl (ring_step env) (ring_new, w0) (es1 @ e # es2)" and "rebuilds e"
    and "on_frame_done fd r = (ok, r')"
  shows "(fd_frame_id fd \<notin> \<Union> (announced ` set es2) \<longrightarrow> \<not> ok \<and> r' = r)
    \<and> (ok \<longrightarrow> unat (fd_staging_index fd) < rg_count r \<and> busy_slots r' + 1 = busy_slots r
        \<and> (\<forall>j. j \<noteq> unat (fd_staging_index fd) \<longrightarrow> rg_slots r' ! j = rg_slots r ! j))"
proof -
  let ?rw = "foldl (ring_step env) (ring_new, w0) (es1 @ [e])"
  have wf1: "ring_wf (fst (foldl (ring_step env) (ring_new, w0) es))" for es
    using ring.inv_run [of "(ring_new, w0)" env es] ring_wf_new by simp
  have wf: "ring_wf r" using wf1 [of "es1 @ e # es2"] unfolding assms(1) [symmetric] by simp
  have "owned_ids (fst ?rw) = {}" using owned_ids_step [OF wf1 [of es1], of env e] assms(2) by simp
  then have own: "owned_ids r \<subseteq> \<Union> (announced ` set es2)"
    using owned_ids_run [OF wf1 [of "es1 @ [e]"], of env es2] assms(1) by (metis append_Cons append_Nil
        append_assoc foldl_append fst_conv sup_bot_left)
  from assms(3) show ?thesis
  proof (cases rule: on_frame_done_cases)
    case 2
    let ?i = "unat (fd_staging_index fd)"
    have len: "rg_count r \<le> length (rg_slots r)" using wf by (simp add: ring_wf_def)
    then have "fd_frame_id fd \<in> owned_ids r"
      using 2 by (auto simp: owned_ids_def intro!: rev_image_eqI [of "rg_slots r ! ?i"])
    moreover have "busy_slots r' + 1 = busy_slots r"
      using 2 len by (simp add: busy_slots_def set_slot_def take_update_swap filter_update_out)
    ultimately show ?thesis using 2 own by (auto simp: set_slot_def)
  qed simp
qed

section \<open>The helper's slots are left alone\<close>

definition free_mutexes :: "ring \<Rightarrow> nat set" where
  "free_mutexes r = {m. \<exists>i < rg_count r. slot_free (rg_slots r ! i) \<and> st_mutex (rg_slots r ! i) = Some m}"

lemma acquire_from_frame:
  assumes "\<And>m k w. m \<in> free_mutexes r \<Longrightarrow> Q w \<Longrightarrow> Q (snd (d_acquire env m k w))" and "Q w"
  shows "Q (snd (snd (acquire_from env a (r, w))))"
  using assms(2)
proof (induction "rg_count r - a" arbitrary: a w)
  case 0
  then show ?case by (simp add: acquire_from.simps [of env a])
next
  case (Suc n)
  let ?i = "(rg_next r + a) mod rg_count r"
  have a: "a < rg_count r" "n = rg_count r - (a + 1)" using Suc.hyps(2) by simp_all
  note IH = Suc.hyps(1) [OF a(2)]
  have "Q (snd (try_acquire env (the (st_mutex (rg_slots r ! ?i))) w))" if "slot_free (rg_slots r ! ?i)"
  proof -
    have "the (st_mutex (rg_slots r ! ?i)) \<in> free_mutexes r"
      unfolding free_mutexes_def
      by (rule CollectI, rule exI [of _ ?i]) (use that a(1) in \<open>auto simp: slot_free_def\<close>)
    from assms(1) [OF this] show ?thesis
      using Suc.prems by (auto simp: try_acquire_def split: prod.splits) (metis snd_conv)+
  qed
  note acquired = this
  obtain hr w' where t: "try_acquire env (the (st_mutex (rg_slots r ! ?i))) w = (hr, w')" by fastforce
  have step: "acquire_from env a (r, w) =
     (if \<not> slot_free (rg_slots r ! ?i) then acquire_from env (a + 1) (r, w)
      else if \<not> acquired_ok hr then acquire_from env (a + 1) (r, w')
      else (Some (?i, the (st_texture (rg_slots r ! ?i))),
            (set_slot ?i ((rg_slots r ! ?i)\<lparr>st_leased := True\<rparr>) r)\<lparr>rg_next := (?i + 1) mod rg_count r\<rparr>, w'))"
    using a(1) t by (subst acquire_from.simps) (simp add: Let_def)
  show ?case
    unfolding step using IH [OF Suc.prems] IH [of w'] acquired t by simp
qed

text \<open>
  Looking for a free slot never disturbs a frame the helper has not
  answered: whatever is true of the Direct3D state and is not changed by
  acquiring the mutexes of free slots is still true after \<^verbatim>\<open>acquire_slot\<close>. So the
  fallback to key 1, which takes back a release the helper did not consume, is
  never tried on a slot whose FrameDone is outstanding.
\<close>

theorem outstanding_frames_untouched:
  assumes "\<And>m k w. m \<in> free_mutexes r \<Longrightarrow> Q w \<Longrightarrow> Q (snd (d_acquire env m k w))" and "Q w"
  shows "Q (snd (snd (acquire_slot env (r, w))))"
  using acquire_from_frame [of r Q env w 0] assms by (simp add: acquire_slot_def)

section \<open>An instance of Direct3D\<close>

text \<open>
  Objects are numbered in order of creation; the state holds the next number
  and, per mutex, the key it can be acquired with (\<open>None\<close> while it is held).
\<close>

definition simple_d3d :: "(nat \<times> (nat \<Rightarrow> u64 option)) d3d" where
  "simple_d3d = \<lparr>d_create_texture = (\<lambda>_ _ _ (n, f). (Some n, (n + 1, f))),
     d_query_resource = (\<lambda>_ w. (True, w)),
     d_create_shared_handle = (\<lambda>t w. (Some (of_nat (100 + t)), w)),
     d_query_mutex = (\<lambda>t (n, f). (Some t, (n, f(t := Some 0)))),
     d_acquire = (\<lambda>m k (n, f). if f m = Some k then (AcqOk, (n, f(m := None))) else (AcqTimeout, (n, f))),
     d_release = (\<lambda>m k (n, f). (n, f(m := Some k))),
     d_release_mutex = (\<lambda>_ w. w), d_release_texture = (\<lambda>_ w. w), d_close_handle = (\<lambda>_ w. w)\<rparr>"

definition started :: "ring \<times> nat \<times> (nat \<Rightarrow> u64 option)" where
  "started = foldl (ring_step simple_d3d) (ring_new, 0, \<lambda>_. None)
     [Create True 4000 2000 28 3, Acquire, ReleaseToHelper (Some (0, 0)) 77]"

lemma started_eq:
  "fst started = \<lparr>rg_slots =
      [\<lparr>st_texture = Some 0, st_mutex = Some 0, st_handle = Some 100, st_helper_owned = True, st_leased = False, st_frame_id = 77\<rparr>,
       \<lparr>st_texture = Some 1, st_mutex = Some 1, st_handle = Some 101, st_helper_owned = False, st_leased = False, st_frame_id = 0\<rparr>,
       \<lparr>st_texture = Some 2, st_mutex = Some 2, st_handle = Some 102, st_helper_owned = False, st_leased = False, st_frame_id = 0\<rparr>],
     rg_count = 3, rg_width = 4000, rg_height = 2000, rg_format = 28, rg_generation = 1, rg_stale = False, rg_next = 1\<rparr>"
  by code_simp


theorem stale_frame_done_ignored_witness:
  "fst (on_frame_done \<lparr>fd_frame_id = 76, fd_staging_index = 0, fd_flags = 0\<rparr> (fst started)) = False
   \<and> fst (on_frame_done \<lparr>fd_frame_id = 77, fd_staging_index = 0, fd_flags = 0\<rparr> (fst started)) = True"
proof -
  have s: "(fst started, snd started) = foldl (ring_step simple_d3d) (ring_new, 0, \<lambda>_. None)
     ([] @ Create True 4000 2000 28 3 # [Acquire, ReleaseToHelper (Some (0, 0)) 77])"
    by (simp only: started_def prod.collapse append_Nil)
  have "fst (on_frame_done \<lparr>fd_frame_id = 77, fd_staging_index = 0, fd_flags = 0\<rparr> (fst started)) = True"
    by (simp add: started_eq on_frame_done_def)
  then show ?thesis
    using stale_frame_done_ignored [OF s _ prod.collapse [symmetric],
        of "\<lparr>fd_frame_id = 76, fd_staging_index = 0, fd_flags = 0\<rparr>"] by simp
qed

theorem outstanding_frames_untouched_witness:
  "(\<lambda>w. snd w 0 = Some 1) (snd (snd (acquire_slot simple_d3d (fst started, 3, (\<lambda>_. Some 0)(0 := Some 1)))))"
  by (rule outstanding_frames_untouched [of "fst started" "\<lambda>w. snd w 0 = Some 1" simple_d3d])
    (auto simp: started_eq free_mutexes_def slot_free_def simple_d3d_def less_Suc_eq numeral_3_eq_3)

end
