(* ===== verification/Ipc_Client.thy ===== *)
theory Ipc_Client
  imports Ipc_Wire
begin

text \<open>
  The shim's end of the pipe: \<^verbatim>\<open>shim/src/ipc_client.h\<close> and \<^verbatim>\<open>ipc_client.cpp\<close>. The
  client thread is a program counter and a step function; the calls of other
  threads (\<^verbatim>\<open>queue_*\<close>, \<^verbatim>\<open>stop\<close>) interleave with its steps. \<^verbatim>\<open>queue_message\<close> reads the
  connected flag before it takes the lock, so it is two steps. What Windows
  answers (whether the pipe opened, a write completed, what a read returned,
  the clocks) is the input \<open>io\<close> of a step. Two history variables record the
  messages written on the current connection and all callbacks made; no
  operation reads them. Logging is
  left out.
\<close>

section \<open>State\<close>

definition kReconnectBackoffMs :: nat where "kReconnectBackoffMs = 1000"
definition kHandshakeTimeoutMs :: int where "kHandshakeTimeoutMs = 10000"
definition kKeepAliveInterval :: time_ns where "kKeepAliveInterval = ms 1000"
definition kMaxPendingMessages :: nat where "kMaxPendingMessages = 64"
definition kMaxPendingPayload :: nat where "kMaxPendingPayload = 64"

record pending_message =
  pm_type :: message_type
  pm_payload :: "u8 list"

datatype read_result = RdMessage "u8 list" | RdTimeout | RdStopped | RdError | RdInterrupted

datatype callback =
  CbConfig hmd_config
| CbPose pose_update
| CbDeviceAdd device_add
| CbDeviceRemove device_remove
| CbInput input_update
| CbFrameDone frame_done
| CbSessionReady
| CbDisconnect

record session =
  se_got_helper_hello :: bool
  se_got_config :: bool
  se_session_start :: time_ns
  se_next_keep_alive :: time_ns

datatype client_pc =
  ClOpen | ClHello | ClLoop session | ClFlush session | ClSend session pending_message
| ClRead session | ClReady session | ClClose | ClDrop | ClGone | ClExit

text \<open>
  \<open>cl_inflight\<close> holds the messages for which a \<^verbatim>\<open>queue_message\<close> call has passed its
  checks and not yet taken the lock, with their \<^verbatim>\<open>evictable\<close> argument.
\<close>

record client =
  cl_running :: bool
  cl_connected :: bool
  cl_pipe :: bool
  cl_pending :: "pending_message list"
  cl_inflight :: "(pending_message \<times> bool) list"
  cl_pc :: client_pc
  cl_sent :: "u8 list list"
  cl_callbacks :: "callback list"

record io =
  io_open :: bool
  io_write :: bool
  io_read :: read_result
  io_now :: time_ns
  io_later :: time_ns
  io_qpc :: u64
  io_pid :: u32
  io_stopped :: bool

definition client_new :: client where
  "client_new = \<lparr>cl_running = False, cl_connected = False, cl_pipe = False, cl_pending = [], cl_inflight = [],
     cl_pc = ClExit, cl_sent = [], cl_callbacks = []\<rparr>"

section \<open>Queueing, from any thread\<close>

definition queue_check :: "pending_message \<Rightarrow> client \<Rightarrow> bool" where
  "queue_check m c \<longleftrightarrow> cl_connected c \<and> pm_payload m \<noteq> [] \<and> length (pm_payload m) \<le> kMaxPendingPayload"

definition queue_push :: "pending_message \<Rightarrow> bool \<Rightarrow> client \<Rightarrow> bool \<times> client" where
  "queue_push m evictable c =
     (if kMaxPendingMessages \<le> length (cl_pending c) \<and> evictable then (False, c)
      else let q = (if kMaxPendingMessages \<le> length (cl_pending c) then tl (cl_pending c) else cl_pending c)
           in (True, c\<lparr>cl_pending := q @ [m]\<rparr>))"

definition queue_message :: "message_type \<Rightarrow> u8 list \<Rightarrow> bool \<Rightarrow> client \<Rightarrow> bool \<times> client" where
  "queue_message t payload evictable c =
     (let m = \<lparr>pm_type = t, pm_payload = payload\<rparr>
      in if queue_check m c then queue_push m evictable c else (False, c))"

definition queue_haptic :: "haptic \<Rightarrow> client \<Rightarrow> bool \<times> client" where
  "queue_haptic h = queue_message MT_haptic (enc_haptic h) True"

definition queue_staging_config :: "staging_config \<Rightarrow> client \<Rightarrow> bool \<times> client" where
  "queue_staging_config s = queue_message MT_staging_config (enc_staging_config s) False"

definition queue_frame_ready :: "frame_ready \<Rightarrow> client \<Rightarrow> bool \<times> client" where
  "queue_frame_ready f = queue_message MT_frame_ready (enc_frame_ready f) True"

definition drop_pending_messages :: "client \<Rightarrow> client" where
  "drop_pending_messages c = c\<lparr>cl_pending := []\<rparr>"

section \<open>The client thread\<close>

definition client_send :: "bool \<Rightarrow> message_type \<Rightarrow> u8 list \<Rightarrow> client \<Rightarrow> bool \<times> client" where
  "client_send written t payload c =
     (if \<not> cl_pipe c \<or> kMaxMessageSize < 4 + length payload then (False, c)
      else if written then (True, c\<lparr>cl_sent := cl_sent c @ [wire_message t payload]\<rparr>)
      else (False, c))"

definition call_back :: "callback \<Rightarrow> client \<Rightarrow> client" where
  "call_back cb c = c\<lparr>cl_callbacks := cl_callbacks c @ [cb]\<rparr>"

text \<open>One message off the pipe: whether the session goes on, its flags, and the client.\<close>

definition client_handle_message :: "u8 list \<Rightarrow> session \<Rightarrow> client \<Rightarrow> bool \<times> session \<times> client" where
  "client_handle_message data se c =
     (if length data < 4 then (False, se, c)
      else let payload = msg_payload data; n = length payload;
               t = type_of_raw (msg_raw_type data)
           in
             if t = Some MT_helper_hello then
               (if n \<noteq> 8 then (False, se, c)
                else let hello = dec_helper_hello payload
                     in if hh_magic hello \<noteq> kHelperMagic then (False, se, c)
                        else if hh_version hello \<noteq> kProtocolVersion then (False, se, c)
                        else (True, se\<lparr>se_got_helper_hello := True\<rparr>, c))
             else if t = Some MT_hmd_config then
               (if \<not> se_got_helper_hello se then (False, se, c)
                else if n \<noteq> 104 then (False, se, c)
                else (True, se\<lparr>se_got_config := True\<rparr>, call_back (CbConfig (dec_hmd_config payload)) c))
             else if t = Some MT_pose_update then
               (if \<not> se_got_config se then (True, se, c)
                else if n \<noteq> 120 then (False, se, c)
                else (True, se, call_back (CbPose (dec_pose_update payload)) c))
             else if t = Some MT_device_add then
               (if \<not> se_got_config se then (True, se, c)
                else if n \<noteq> 4 then (False, se, c)
                else (True, se, call_back (CbDeviceAdd (dec_device_add payload)) c))
             else if t = Some MT_device_remove then
               (if \<not> se_got_config se then (True, se, c)
                else if n \<noteq> 4 then (False, se, c)
                else (True, se, call_back (CbDeviceRemove (dec_device_remove payload)) c))
             else if t = Some MT_input_update then
               (if \<not> se_got_config se then (True, se, c)
                else if n \<noteq> 36 then (False, se, c)
                else (True, se, call_back (CbInput (dec_input_update payload)) c))
             else if t = Some MT_frame_done then
               (if \<not> se_got_config se then (True, se, c)
                else if n \<noteq> 16 then (False, se, c)
                else (True, se, call_back (CbFrameDone (dec_frame_done payload)) c))
             else (True, se, c))"

definition goto :: "client_pc \<Rightarrow> client \<Rightarrow> client" where
  "goto pc c = c\<lparr>cl_pc := pc\<rparr>"

text \<open>\<^verbatim>\<open>thread_main\<close> before a session.\<close>

definition thread_open :: "io \<Rightarrow> client \<Rightarrow> client" where
  "thread_open i c =
     (if \<not> cl_running c then goto ClExit c
      else if \<not> io_open i then (if io_stopped i then goto ClExit c else goto ClOpen c)
      else goto ClHello (c\<lparr>cl_pipe := True, cl_sent := []\<rparr>))"

text \<open>\<^verbatim>\<open>run_session\<close>: the greeting, and the loop.\<close>

definition session_hello :: "io \<Rightarrow> client \<Rightarrow> client" where
  "session_hello i c =
     (let hello = \<lparr>sh_magic = kShimMagic, sh_version = kProtocolVersion, sh_vrserver_pid = io_pid i\<rparr>
      in case client_send (io_write i) MT_shim_hello (enc_shim_hello hello) c of
           (False, c) \<Rightarrow> goto ClClose c
         | (True, c) \<Rightarrow> goto (ClLoop \<lparr>se_got_helper_hello = False, se_got_config = False,
             se_session_start = io_now i, se_next_keep_alive = io_now i + kKeepAliveInterval\<rparr>) c)"

definition session_loop :: "io \<Rightarrow> session \<Rightarrow> client \<Rightarrow> client" where
  "session_loop i se c =
     (if \<not> cl_running c then goto ClClose c
      else if se_got_helper_hello se \<and> se_next_keep_alive se \<le> io_now i
      then case client_send (io_write i) MT_keep_alive (enc_keep_alive \<lparr>ka_time_qpc = io_qpc i\<rparr>) c of
             (False, c) \<Rightarrow> goto ClClose c
           | (True, c) \<Rightarrow> goto (ClFlush (se\<lparr>se_next_keep_alive := io_now i + kKeepAliveInterval\<rparr>)) c
      else goto (ClFlush se) c)"

text \<open>One round of the loop in \<^verbatim>\<open>flush_outgoing\<close>: the locked pop, then the write.\<close>

definition flush_pop :: "session \<Rightarrow> client \<Rightarrow> client" where
  "flush_pop se c =
     (case cl_pending c of
        [] \<Rightarrow> goto (ClRead se) c
      | m # rest \<Rightarrow> goto (ClSend se m) (c\<lparr>cl_pending := rest\<rparr>))"

definition flush_send :: "io \<Rightarrow> session \<Rightarrow> pending_message \<Rightarrow> client \<Rightarrow> client" where
  "flush_send i se m c =
     (case client_send (io_write i) (pm_type m) (pm_payload m) c of
        (False, c) \<Rightarrow> goto ClClose c
      | (True, c) \<Rightarrow> goto (ClFlush se) c)"

definition session_read :: "io \<Rightarrow> session \<Rightarrow> client \<Rightarrow> client" where
  "session_read i se c =
     (case io_read i of
        RdMessage data \<Rightarrow>
          (case client_handle_message data se c of
             (False, se, c) \<Rightarrow> goto ClClose c
           | (True, se, c) \<Rightarrow>
               if se_got_config se \<and> \<not> cl_connected c
               then goto (ClReady se) (c\<lparr>cl_connected := True\<rparr>) else goto (ClLoop se) c)
      | RdTimeout \<Rightarrow>
          (if \<not> se_got_config se \<and> kHandshakeTimeoutMs < cdiv (io_later i - se_session_start se) (ms 1)
           then goto ClClose c else goto (ClLoop se) c)
      | RdInterrupted \<Rightarrow> goto (ClLoop se) c
      | RdStopped \<Rightarrow> goto ClClose c
      | RdError \<Rightarrow> goto ClClose c)"

text \<open>
  \<^verbatim>\<open>thread_main\<close> after a session: the pipe is closed and the flag cleared, then
  the queue is emptied, then the callback is made.
\<close>

definition thread_close :: "client \<Rightarrow> client" where
  "thread_close c = goto ClDrop (c\<lparr>cl_pipe := False, cl_connected := False\<rparr>)"

definition thread_gone :: "io \<Rightarrow> client \<Rightarrow> client" where
  "thread_gone i c =
     (let c = call_back CbDisconnect c
      in if \<not> cl_running c then goto ClExit c
         else if io_stopped i then goto ClExit c else goto ClOpen c)"

fun client_thread :: "io \<Rightarrow> client_pc \<Rightarrow> client \<Rightarrow> client" where
  "client_thread i ClOpen c = thread_open i c"
| "client_thread i ClHello c = session_hello i c"
| "client_thread i (ClLoop se) c = session_loop i se c"
| "client_thread i (ClFlush se) c = flush_pop se c"
| "client_thread i (ClSend se m) c = flush_send i se m c"
| "client_thread i (ClRead se) c = session_read i se c"
| "client_thread i (ClReady se) c = goto (ClLoop se) (call_back CbSessionReady c)"
| "client_thread i ClClose c = thread_close c"
| "client_thread i ClDrop c = goto ClGone (drop_pending_messages c)"
| "client_thread i ClGone c = thread_gone i c"
| "client_thread i ClExit c = c"

definition client_start :: "client \<Rightarrow> client" where
  "client_start c = (if cl_running c then c else c\<lparr>cl_running := True, cl_pc := ClOpen\<rparr>)"

section \<open>The threads together\<close>

text \<open>
  \<open>StopCall\<close> is the first step of \<^verbatim>\<open>stop\<close>, clearing the running flag; its end,
  after the join, is \<open>StopJoined\<close> and happens only when the thread has exited.
\<close>

datatype client_event =
  Start
| Thread io
| QueueCheck pending_message bool
| QueuePush
| StopCall
| StopJoined

fun client_step :: "client \<Rightarrow> client_event \<Rightarrow> client" where
  "client_step c Start = (if cl_pc c = ClExit then client_start c else c)"
| "client_step c (Thread i) = client_thread i (cl_pc c) c"
| "client_step c (QueueCheck m evictable) =
     (if queue_check m c then c\<lparr>cl_inflight := cl_inflight c @ [(m, evictable)]\<rparr> else c)"
| "client_step c QueuePush =
     (case cl_inflight c of [] \<Rightarrow> c
      | (m, evictable) # rest \<Rightarrow> snd (queue_push m evictable (c\<lparr>cl_inflight := rest\<rparr>)))"
| "client_step c StopCall = c\<lparr>cl_running := False\<rparr>"
| "client_step c StopJoined =
     (if cl_pc c = ClExit then drop_pending_messages (c\<lparr>cl_pipe := False\<rparr>) else c)"

lemmas client_ops = thread_open_def session_hello_def session_loop_def flush_pop_def flush_send_def
  thread_close_def thread_gone_def drop_pending_messages_def goto_def call_back_def

section \<open>Callbacks come in order\<close>

text \<open>
  The contract of \<^verbatim>\<open>IpcCallbacks\<close> as an automaton: a session is configured before
  anything else is reported, \<^verbatim>\<open>on_session_ready\<close> follows the first configuration
  and comes once, and the session ends with one \<^verbatim>\<open>on_disconnect\<close>.
\<close>

datatype phase = NoSession | Configured | Live

primrec cb_live :: "callback \<Rightarrow> phase option" where
  "cb_live (CbConfig x) = Some Live"
| "cb_live (CbPose x) = Some Live"
| "cb_live (CbDeviceAdd x) = Some Live"
| "cb_live (CbDeviceRemove x) = Some Live"
| "cb_live (CbInput x) = Some Live"
| "cb_live (CbFrameDone x) = Some Live"
| "cb_live CbSessionReady = None"
| "cb_live CbDisconnect = Some NoSession"

primrec cb_idle :: "callback \<Rightarrow> phase option" where
  "cb_idle (CbConfig x) = Some Configured"
| "cb_idle (CbPose x) = None"
| "cb_idle (CbDeviceAdd x) = None"
| "cb_idle (CbDeviceRemove x) = None"
| "cb_idle (CbInput x) = None"
| "cb_idle (CbFrameDone x) = None"
| "cb_idle CbSessionReady = None"
| "cb_idle CbDisconnect = Some NoSession"

definition cb_next :: "phase option \<Rightarrow> callback \<Rightarrow> phase option" where
  "cb_next p cb =
     (if p = Some NoSession then cb_idle cb
      else if p = Some Configured then (if cb = CbSessionReady then Some Live else None)
      else if p = Some Live then cb_live cb else None)"

lemma cb_next_simps [simp]:
  "cb_next (Some NoSession) cb = cb_idle cb"
  "cb_next (Some Configured) CbSessionReady = Some Live"
  "cb_next (Some Live) cb = cb_live cb"
  by (simp_all add: cb_next_def)

definition cb_phase :: "client \<Rightarrow> phase option" where
  "cb_phase c = foldl cb_next (Some NoSession) (cl_callbacks c)"

lemma cb_phase_call_back [simp]: "cb_phase (call_back cb c) = cb_next (cb_phase c) cb"
  by (simp add: cb_phase_def call_back_def)

definition session_inv :: "session \<Rightarrow> client \<Rightarrow> bool" where
  "session_inv se c \<longleftrightarrow> cl_connected c = se_got_config se \<and> (se_got_config se \<longrightarrow> se_got_helper_hello se)
     \<and> cb_phase c = Some (if se_got_config se then Live else NoSession)"

primrec pc_inv :: "client_pc \<Rightarrow> client \<Rightarrow> bool" where
  "pc_inv (ClLoop se) c = session_inv se c"
| "pc_inv (ClFlush se) c = session_inv se c"
| "pc_inv (ClSend se m) c = session_inv se c"
| "pc_inv (ClRead se) c = session_inv se c"
| "pc_inv (ClReady se) c = (cl_connected c \<and> se_got_config se \<and> se_got_helper_hello se \<and> cb_phase c = Some Configured)"
| "pc_inv ClClose c = (cb_phase c \<in> {Some NoSession, Some Live})"
| "pc_inv ClDrop c = (\<not> cl_connected c \<and> cb_phase c \<in> {Some NoSession, Some Live})"
| "pc_inv ClGone c = (\<not> cl_connected c \<and> cb_phase c \<in> {Some NoSession, Some Live})"
| "pc_inv ClOpen c = (\<not> cl_connected c \<and> cb_phase c = Some NoSession)"
| "pc_inv ClHello c = (\<not> cl_connected c \<and> cb_phase c = Some NoSession)"
| "pc_inv ClExit c = (\<not> cl_connected c \<and> cb_phase c = Some NoSession)"

definition client_inv :: "client \<Rightarrow> bool" where
  "client_inv c \<longleftrightarrow> pc_inv (cl_pc c) c \<and> length (cl_pending c) \<le> kMaxPendingMessages"

lemma pc_inv_cong:
  assumes "cl_connected c' = cl_connected c" and "cl_callbacks c' = cl_callbacks c"
  shows "pc_inv pc c' = pc_inv pc c"
  using assms by (cases pc) (simp_all add: session_inv_def cb_phase_def)

lemma client_inv_cong:
  assumes "client_inv c" and "cl_connected c' = cl_connected c" and "cl_callbacks c' = cl_callbacks c"
    and "cl_pc c' = cl_pc c" and "length (cl_pending c') \<le> kMaxPendingMessages"
  shows "client_inv c'"
  using assms pc_inv_cong [OF assms(2,3), of "cl_pc c"] by (simp add: client_inv_def)

lemma client_send_keeps:
  assumes "client_send wr t p c = (ok, c')"
  shows "cl_connected c' = cl_connected c" "cl_callbacks c' = cl_callbacks c" "cl_pending c' = cl_pending c"
    "cl_running c' = cl_running c" "cl_inflight c' = cl_inflight c"
  using assms by (auto simp: client_send_def split: if_splits)

lemma goto_sent_inv:
  assumes "client_send wr t p c = (ok, c')" and "pc_inv pc c" and "length (cl_pending c) \<le> kMaxPendingMessages"
  shows "client_inv (goto pc c')"
  using assms(2,3) client_send_keeps(3) [OF assms(1)]
    pc_inv_cong [of "c'\<lparr>cl_pc := pc\<rparr>" c pc] client_send_keeps(1,2) [OF assms(1)]
  by (simp add: client_inv_def goto_def)

text \<open>What handling one message does to the session and its callbacks.\<close>

lemma handle_message_inv:
  assumes "session_inv se c" and "client_handle_message data se c = (ok, se', c')"
  shows "cl_pending c' = cl_pending c" "cl_connected c' = cl_connected c"
    and "ok \<Longrightarrow> se_got_config se' \<Longrightarrow> se_got_helper_hello se'"
    and "ok \<Longrightarrow> cl_connected c \<Longrightarrow> se_got_config se' \<and> cb_phase c' = Some Live"
    and "ok \<Longrightarrow> \<not> cl_connected c \<Longrightarrow> cb_phase c' = Some (if se_got_config se' then Configured else NoSession)"
    and "\<not> ok \<Longrightarrow> c' = c"
proof -
  have "cl_pending c' = cl_pending c \<and> cl_connected c' = cl_connected c"
    using assms(2) by (auto simp: client_handle_message_def call_back_def Let_def split: if_splits)
  then show "cl_pending c' = cl_pending c" "cl_connected c' = cl_connected c" by simp_all
  show "ok \<Longrightarrow> se_got_config se' \<Longrightarrow> se_got_helper_hello se'"
    using assms by (auto simp: client_handle_message_def session_inv_def Let_def split: if_splits)
  show "ok \<Longrightarrow> cl_connected c \<Longrightarrow> se_got_config se' \<and> cb_phase c' = Some Live"
    using assms by (auto simp: client_handle_message_def session_inv_def Let_def split: if_splits)
  show "ok \<Longrightarrow> \<not> cl_connected c \<Longrightarrow> cb_phase c' = Some (if se_got_config se' then Configured else NoSession)"
    using assms by (auto simp: client_handle_message_def session_inv_def Let_def split: if_splits)
  show "\<not> ok \<Longrightarrow> c' = c"
    using assms(2) by (auto simp: client_handle_message_def Let_def split: if_splits)
qed

lemma client_thread_inv:
  assumes "client_inv c"
  shows "client_inv (client_thread i (cl_pc c) c)"
proof (cases "cl_pc c")
  case (ClRead se)
  then have se: "session_inv se c" and len: "length (cl_pending c) \<le> kMaxPendingMessages"
    using assms by (simp_all add: client_inv_def)
  show ?thesis
  proof (cases "io_read i")
    case (RdMessage data)
    obtain ok se' c' where hm: "client_handle_message data se c = (ok, se', c')"
      by (cases "client_handle_message data se c")
    note inv = handle_message_inv [OF se hm]
    have ph: "cb_phase c \<in> {Some NoSession, Some Live}" using se by (simp add: session_inv_def)
    consider (bad) "\<not> ok" | (live) "ok" "cl_connected c" | (new) "ok" "\<not> cl_connected c" by blast
    then show ?thesis
    proof cases
      case bad
      then have "client_thread i (cl_pc c) c = goto ClClose c"
        using inv(6) ClRead RdMessage hm by (simp add: session_read_def)
      then show ?thesis using ph len by (simp add: client_inv_def goto_def cb_phase_def)
    next
      case live
      then have "client_thread i (cl_pc c) c = goto (ClLoop se') c'"
        using inv(2,4) ClRead RdMessage hm by (simp add: session_read_def)
      then show ?thesis
        using inv(1-4) live len by (simp add: client_inv_def goto_def session_inv_def cb_phase_def)
    next
      case new
      then have "client_thread i (cl_pc c) c = (if se_got_config se'
          then goto (ClReady se') (c'\<lparr>cl_connected := True\<rparr>) else goto (ClLoop se') c')"
        using inv(2) ClRead RdMessage hm by (simp add: session_read_def)
      then show ?thesis
        using inv(1,2,3,5) new len by (simp add: client_inv_def goto_def session_inv_def cb_phase_def)
    qed
  qed (use se len ClRead in \<open>auto simp: client_inv_def session_read_def goto_def session_inv_def cb_phase_def\<close>)
next
  case (ClSend se m)
  obtain ok c' where s: "client_send (io_write i) (pm_type m) (pm_payload m) c = (ok, c')" by fastforce
  have "pc_inv (if ok then ClFlush se else ClClose) c" "length (cl_pending c) \<le> kMaxPendingMessages"
    using assms ClSend by (simp_all add: client_inv_def session_inv_def)
  from goto_sent_inv [OF s this] show ?thesis using ClSend s by (cases ok) (simp_all add: flush_send_def)
next
  case (ClFlush se)
  then show ?thesis using assms
    by (auto simp: client_inv_def flush_pop_def goto_def session_inv_def cb_phase_def split: list.splits)
next
  case (ClLoop se)
  obtain ok c' where s: "client_send (io_write i) MT_keep_alive (enc_keep_alive \<lparr>ka_time_qpc = io_qpc i\<rparr>) c = (ok, c')"
    by fastforce
  have "pc_inv (if ok then ClFlush (se\<lparr>se_next_keep_alive := io_now i + kKeepAliveInterval\<rparr>) else ClClose) c"
    "length (cl_pending c) \<le> kMaxPendingMessages"
    using assms ClLoop by (simp_all add: client_inv_def session_inv_def)
  from goto_sent_inv [OF s this] show ?thesis
    using ClLoop s assms
    by (cases ok) (auto simp: session_loop_def client_inv_def goto_def session_inv_def cb_phase_def)
next
  case ClHello
  define hello where "hello = enc_shim_hello
      \<lparr>sh_magic = kShimMagic, sh_version = kProtocolVersion, sh_vrserver_pid = io_pid i\<rparr>"
  define pc where "pc = ClLoop \<lparr>se_got_helper_hello = False, se_got_config = False,
             se_session_start = io_now i, se_next_keep_alive = io_now i + kKeepAliveInterval\<rparr>"
  obtain ok c' where s: "client_send (io_write i) MT_shim_hello hello c = (ok, c')" by fastforce
  have "pc_inv (if ok then pc else ClClose) c" "length (cl_pending c) \<le> kMaxPendingMessages"
    using assms ClHello by (simp_all add: client_inv_def session_inv_def pc_def)
  from goto_sent_inv [OF s this] show ?thesis
    using ClHello s by (cases ok) (simp_all add: session_hello_def hello_def pc_def Let_def)
qed (use assms in \<open>auto simp: client_inv_def client_ops session_inv_def cb_phase_def Let_def\<close>)

lemma client_step_inv:
  assumes "client_inv c"
  shows "client_inv (client_step c e)"
proof (cases e)
  case (Thread i)
  then show ?thesis using client_thread_inv [OF assms] by simp
next
  case Start
  then show ?thesis using assms by (auto simp: client_inv_def client_start_def cb_phase_def)
next
  case QueuePush
  have "client_inv (snd (queue_push m ev (c\<lparr>cl_inflight := rest\<rparr>)))" for m ev rest
    by (rule client_inv_cong [OF assms])
      (use assms in \<open>auto simp: client_inv_def queue_push_def kMaxPendingMessages_def Let_def\<close>)
  then show ?thesis using QueuePush assms by (auto split: list.splits)
next
  case StopJoined
  have "client_inv (drop_pending_messages (c\<lparr>cl_pipe := False\<rparr>))"
    by (rule client_inv_cong [OF assms]) (simp_all add: drop_pending_messages_def)
  then show ?thesis using StopJoined assms by simp
next
  case StopCall
  have "client_inv (c\<lparr>cl_running := False\<rparr>)"
    by (rule client_inv_cong [OF assms]) (use assms in \<open>simp_all add: client_inv_def\<close>)
  then show ?thesis using StopCall by simp
next
  case (QueueCheck m ev)
  have "client_inv (c\<lparr>cl_inflight := x\<rparr>)" for x
    by (rule client_inv_cong [OF assms]) (use assms in \<open>simp_all add: client_inv_def\<close>)
  then show ?thesis using QueueCheck assms by simp
qed

interpretation client: machine_invariant client_step client_inv
  by unfold_locales (rule client_step_inv)

lemma client_inv_new: "client_inv client_new"
  by (simp add: client_inv_def client_new_def cb_phase_def)


section \<open>Queued messages and sessions\<close>

text \<open>
  The same machine when no session ends between the two halves of a
  \<^verbatim>\<open>queue_message\<close> call: each call is one step.
\<close>

datatype client_call =
  CStart
| CThread io
| CQueue message_type "u8 list" bool
| CStop
| CStopJoined

fun call_step :: "client \<Rightarrow> client_call \<Rightarrow> client" where
  "call_step c CStart = client_step c Start"
| "call_step c (CThread i) = client_step c (Thread i)"
| "call_step c (CQueue t p ev) = snd (queue_message t p ev c)"
| "call_step c CStop = client_step c StopCall"
| "call_step c CStopJoined = client_step c StopJoined"

lemma queue_message_two_steps:
  assumes "cl_inflight c = []"
  shows "foldl client_step c [QueueCheck \<lparr>pm_type = t, pm_payload = p\<rparr> ev, QueuePush] = snd (queue_message t p ev c)"
  using assms by (cases c) (simp add: queue_message_def queue_check_def Let_def)

definition no_leak :: "client \<Rightarrow> bool" where
  "no_leak c \<longleftrightarrow> client_inv c \<and> cl_inflight c = [] \<and> (cl_pending c \<noteq> [] \<longrightarrow> cl_connected c \<or> cl_pc c = ClDrop)
     \<and> (\<forall>se m. cl_pc c = ClSend se m \<longrightarrow> cl_connected c)"

lemma call_step_inv: "client_inv c \<Longrightarrow> client_inv (call_step c e)"
proof (cases e)
  case (CQueue t p ev)
  assume "client_inv c"
  have "client_inv (snd (queue_push m ev c))" for m
    by (rule client_inv_cong [OF \<open>client_inv c\<close>])
      (use \<open>client_inv c\<close> in \<open>auto simp: client_inv_def queue_push_def kMaxPendingMessages_def Let_def\<close>)
  with CQueue \<open>client_inv c\<close> show ?thesis by (simp add: queue_message_def Let_def)
qed (use client_step_inv in \<open>simp_all del: client_step.simps\<close>)

lemma client_thread_no_leak:
  assumes "no_leak c"
  shows "no_leak (client_thread i (cl_pc c) c)"
proof -
  note inv = client_thread_inv [of c i]
  show ?thesis
  proof (cases "cl_pc c")
    case (ClRead se)
    show ?thesis
    proof (cases "io_read i")
      case (RdMessage data)
      obtain ok se' c' where hm: "client_handle_message data se c = (ok, se', c')"
        by (cases "client_handle_message data se c")
      have "session_inv se c" using assms ClRead by (simp add: no_leak_def client_inv_def)
      note keep = handle_message_inv(1,2) [OF this hm]
      have "cl_inflight c' = cl_inflight c"
        using hm by (auto simp: client_handle_message_def call_back_def Let_def split: if_splits)
      then show ?thesis
        using inv assms keep ClRead RdMessage hm
        by (cases ok) (auto simp: no_leak_def session_read_def goto_def)
    qed (use inv assms ClRead in \<open>auto simp: no_leak_def session_read_def goto_def\<close>)
  next
    case (ClSend se m)
    obtain ok c' where s: "client_send (io_write i) (pm_type m) (pm_payload m) c = (ok, c')" by fastforce
    show ?thesis
      using inv assms ClSend s client_send_keeps [OF s]
      by (cases ok) (auto simp: no_leak_def flush_send_def goto_def)
  next
    case (ClLoop se)
    obtain ok c' where s: "client_send (io_write i) MT_keep_alive (enc_keep_alive \<lparr>ka_time_qpc = io_qpc i\<rparr>) c = (ok, c')"
      by fastforce
    show ?thesis
      using inv assms ClLoop s client_send_keeps [OF s]
      by (cases ok) (auto simp: no_leak_def session_loop_def goto_def)
  next
    case ClHello
    obtain ok c' where s: "client_send (io_write i) MT_shim_hello (enc_shim_hello
        \<lparr>sh_magic = kShimMagic, sh_version = kProtocolVersion, sh_vrserver_pid = io_pid i\<rparr>) c = (ok, c')" by fastforce
    show ?thesis
      using inv assms ClHello s client_send_keeps [OF s]
      by (cases ok) (auto simp: no_leak_def session_hello_def goto_def Let_def)
  next
    case (ClFlush se)
    then show ?thesis using inv assms by (auto simp: no_leak_def flush_pop_def goto_def split: list.splits)
  next
    case ClClose
    then show ?thesis using inv assms by (auto simp: no_leak_def thread_close_def goto_def)
  qed (use inv assms in \<open>auto simp: no_leak_def client_ops Let_def client_inv_def\<close>)
qed

interpretation calls: machine_invariant call_step no_leak
proof
  fix c e assume c: "no_leak c"
  then have inv: "client_inv (call_step c e)" using call_step_inv by (simp add: no_leak_def)
  show "no_leak (call_step c e)"
  proof (cases e)
    case (CThread i)
    then show ?thesis using client_thread_no_leak [OF c] by simp
  next
    case (CQueue t p ev)
    then show ?thesis using inv c
      by (auto simp: no_leak_def queue_message_def queue_check_def queue_push_def Let_def)
  qed (use inv c in \<open>auto simp: no_leak_def client_start_def drop_pending_messages_def\<close>)
qed

text \<open>
  When queue calls do not straddle the end of a session, a queued message
  is written only in the session it was queued in: whenever the thread writes
  a message from the queue its session is configured and connected, and when a
  new session begins the queue is empty. A StagingConfig is never refused
  while connected.
\<close>

theorem queued_only_in_session:
  fixes c :: client
  assumes "c = foldl call_step client_new es"
  shows "(\<forall>se m. cl_pc c = ClSend se m \<longrightarrow> se_got_config se \<and> cl_connected c)
    \<and> (cl_pc c \<in> {ClOpen, ClHello} \<longrightarrow> cl_pending c = [])
    \<and> (cl_connected c \<longrightarrow> fst (queue_staging_config sc c)
        \<and> last (cl_pending (snd (queue_staging_config sc c))) = \<lparr>pm_type = MT_staging_config, pm_payload = enc_staging_config sc\<rparr>)"
proof -
  have "no_leak client_new" by (simp add: no_leak_def client_inv_new) (simp add: client_new_def)
  then have nl: "no_leak c" using calls.inv_run assms by simp
  then have "\<forall>se m. cl_pc c = ClSend se m \<longrightarrow> se_got_config se \<and> cl_connected c"
    by (auto simp: no_leak_def client_inv_def session_inv_def)
  moreover have "cl_pc c \<in> {ClOpen, ClHello} \<longrightarrow> cl_pending c = []"
    using nl by (auto simp: no_leak_def client_inv_def)
  moreover have "length (enc_staging_config sc) = 48" by simp
  then have "enc_staging_config sc \<noteq> []" "length (enc_staging_config sc) = 48"
    by (metis list.size(3) zero_neq_numeral)+
  then have "cl_connected c \<longrightarrow> fst (queue_staging_config sc c) \<and>
      last (cl_pending (snd (queue_staging_config sc c))) = \<lparr>pm_type = MT_staging_config, pm_payload = enc_staging_config sc\<rparr>"
    by (simp add: queue_staging_config_def queue_message_def queue_check_def queue_push_def
        kMaxPendingPayload_def Let_def)
  ultimately show ?thesis by blast
qed

section \<open>What the shim writes\<close>

text \<open>
  A message after the greeting: one of the four kinds the shim sends, with its
  struct's size.
\<close>

definition shim_message :: "u8 list \<Rightarrow> bool" where
  "shim_message bs \<longleftrightarrow> (\<exists>t p. bs = wire_message t p \<and>
     (t, length p) \<in> {(MT_keep_alive, 8), (MT_haptic, 20), (MT_staging_config, 48), (MT_frame_ready, 56)})"

lemma shim_messageI:
  "(t, length p) \<in> {(MT_keep_alive, 8), (MT_haptic, 20), (MT_staging_config, 48), (MT_frame_ready, 56)}
     \<Longrightarrow> shim_message (wire_message t p)"
  unfolding shim_message_def by blast

definition queued_ok :: "pending_message \<Rightarrow> bool" where
  "queued_ok m \<longleftrightarrow> shim_message (wire_message (pm_type m) (pm_payload m))"

fun event_ok :: "client_event \<Rightarrow> bool" where
  "event_ok (QueueCheck m ev) = queued_ok m"
| "event_ok _ = True"

text \<open>The three public entry points only queue such messages.\<close>

lemma queue_calls_ok:
  "queued_ok \<lparr>pm_type = MT_haptic, pm_payload = enc_haptic h\<rparr>"
  "queued_ok \<lparr>pm_type = MT_staging_config, pm_payload = enc_staging_config sc\<rparr>"
  "queued_ok \<lparr>pm_type = MT_frame_ready, pm_payload = enc_frame_ready f\<rparr>"
  unfolding queued_ok_def by (rule shim_messageI; simp)+

definition greeting :: "u32 \<Rightarrow> u8 list" where
  "greeting pid = wire_message MT_shim_hello
     (enc_shim_hello \<lparr>sh_magic = kShimMagic, sh_version = kProtocolVersion, sh_vrserver_pid = pid\<rparr>)"

definition greeted :: "u8 list list \<Rightarrow> bool" where
  "greeted sent \<longleftrightarrow> (\<exists>pid rest. sent = greeting pid # rest \<and> list_all shim_message rest)"

primrec pc_sent :: "client_pc \<Rightarrow> u8 list list \<Rightarrow> bool" where
  "pc_sent ClOpen sent = True"
| "pc_sent ClHello sent = (sent = [])"
| "pc_sent (ClLoop se) sent = greeted sent"
| "pc_sent (ClFlush se) sent = greeted sent"
| "pc_sent (ClSend se m) sent = (greeted sent \<and> queued_ok m)"
| "pc_sent (ClRead se) sent = greeted sent"
| "pc_sent (ClReady se) sent = greeted sent"
| "pc_sent ClClose sent = True"
| "pc_sent ClDrop sent = True"
| "pc_sent ClGone sent = True"
| "pc_sent ClExit sent = True"

definition written_ok :: "client \<Rightarrow> bool" where
  "written_ok c \<longleftrightarrow> pc_sent (cl_pc c) (cl_sent c) \<and> (cl_sent c = [] \<or> greeted (cl_sent c))
     \<and> list_all queued_ok (cl_pending c) \<and> list_all (queued_ok \<circ> fst) (cl_inflight c)"

lemma greeted_snoc: "greeted sent \<Longrightarrow> shim_message m \<Longrightarrow> greeted (sent @ [m])"
  by (auto simp: greeted_def)

lemma client_send_cases:
  assumes "client_send wr t p c = (ok, c')"
  obtains "\<not> ok" "c' = c" | "ok" "c' = c\<lparr>cl_sent := cl_sent c @ [wire_message t p]\<rparr>"
  using assms by (auto simp: client_send_def split: if_splits)

lemma handle_message_sent:
  "client_handle_message data se c = (ok, se', c') \<Longrightarrow>
     cl_sent c' = cl_sent c \<and> cl_pending c' = cl_pending c \<and> cl_inflight c' = cl_inflight c"
  by (auto simp: client_handle_message_def call_back_def Let_def split: if_splits)

lemma client_thread_written:
  assumes "written_ok c"
  shows "written_ok (client_thread i (cl_pc c) c)"
proof (cases "cl_pc c")
  case (ClRead se)
  show ?thesis
  proof (cases "io_read i")
    case (RdMessage data)
    obtain ok se' c' where hm: "client_handle_message data se c = (ok, se', c')"
      by (cases "client_handle_message data se c")
    then show ?thesis using handle_message_sent [OF hm] assms ClRead RdMessage
      by (cases ok) (auto simp: written_ok_def session_read_def goto_def)
  qed (use assms ClRead in \<open>auto simp: written_ok_def session_read_def goto_def\<close>)
next
  case (ClSend se m)
  obtain ok c' where s: "client_send (io_write i) (pm_type m) (pm_payload m) c = (ok, c')" by fastforce
  then show ?thesis
    by (cases rule: client_send_cases)
      (use assms ClSend s greeted_snoc in \<open>auto simp: written_ok_def flush_send_def goto_def queued_ok_def\<close>)
next
  case (ClLoop se)
  obtain ok c' where s: "client_send (io_write i) MT_keep_alive (enc_keep_alive \<lparr>ka_time_qpc = io_qpc i\<rparr>) c = (ok, c')"
    by fastforce
  have "shim_message (wire_message MT_keep_alive (enc_keep_alive \<lparr>ka_time_qpc = io_qpc i\<rparr>))"
    by (rule shim_messageI) simp
  with s show ?thesis
    by (cases rule: client_send_cases)
      (use assms ClLoop s greeted_snoc in \<open>auto simp: written_ok_def session_loop_def goto_def\<close>)
next
  case ClHello
  obtain ok c' where s: "client_send (io_write i) MT_shim_hello (enc_shim_hello
      \<lparr>sh_magic = kShimMagic, sh_version = kProtocolVersion, sh_vrserver_pid = io_pid i\<rparr>) c = (ok, c')" by fastforce
  then show ?thesis
    by (cases rule: client_send_cases)
      (use assms ClHello s in \<open>auto simp: written_ok_def session_hello_def goto_def greeted_def greeting_def Let_def\<close>)
next
  case (ClFlush se)
  then show ?thesis using assms by (auto simp: written_ok_def flush_pop_def goto_def split: list.splits)
qed (use assms in \<open>auto simp: written_ok_def client_ops Let_def\<close>)

lemma queue_push_written:
  "written_ok c \<Longrightarrow> queued_ok m \<Longrightarrow> written_ok (snd (queue_push m ev c))"
  by (cases "cl_pending c") (auto simp: written_ok_def queue_push_def Let_def)

lemma client_step_written:
  assumes "written_ok c" and "event_ok e"
  shows "written_ok (client_step c e)"
proof (cases e)
  case (Thread i)
  then show ?thesis using client_thread_written [OF assms(1)] by simp
next
  case QueuePush
  have "written_ok (snd (queue_push m ev (c\<lparr>cl_inflight := rest\<rparr>)))"
    if "cl_inflight c = (m, ev) # rest" for m ev rest
    using assms(1) that by (intro queue_push_written) (auto simp: written_ok_def)
  then show ?thesis using QueuePush assms(1) by (auto split: list.splits)
qed (use assms in \<open>auto simp: written_ok_def client_start_def drop_pending_messages_def\<close>)

lemma client_run_written:
  "list_all event_ok es \<Longrightarrow> written_ok (foldl client_step client_new es)"
proof (induction es rule: rev_induct)
  case Nil
  then show ?case by (simp add: written_ok_def client_new_def)
next
  case (snoc e es)
  then show ?case using client_step_written by simp
qed

section \<open>Concrete sessions\<close>

definition quiet :: io where
  "quiet = \<lparr>io_open = True, io_write = True, io_read = RdTimeout, io_now = 0, io_later = 0, io_qpc = 0,
     io_pid = 1234, io_stopped = False\<rparr>"

definition zero_config :: hmd_config where
  "zero_config = dec_hmd_config (replicate 104 0)"

definition hello_bytes :: "u8 list" where
  "hello_bytes = wire_message MT_helper_hello
     (enc_helper_hello \<lparr>hh_magic = kHelperMagic, hh_version = kProtocolVersion\<rparr>)"

definition config_bytes :: "u8 list" where
  "config_bytes = wire_message MT_hmd_config (enc_hmd_config zero_config)"

text \<open>A session up to \<^verbatim>\<open>on_session_ready\<close>: open, greet, read the two messages.\<close>

definition connects :: "io list" where
  "connects = [quiet, quiet, quiet, quiet, quiet\<lparr>io_read := RdMessage hello_bytes\<rparr>,
     quiet, quiet, quiet\<lparr>io_read := RdMessage config_bytes\<rparr>, quiet]"


theorem queued_only_in_session_witness:
  "cl_connected (foldl call_step client_new (CStart # map CThread connects))
   \<and> fst (queue_staging_config (dec_staging_config []) (foldl call_step client_new (CStart # map CThread connects)))"
proof -
  have "cl_connected (foldl call_step client_new (CStart # map CThread connects))" by code_simp
  then show ?thesis using queued_only_in_session [OF refl] by blast
qed

definition late_frame :: pending_message where
  "late_frame = \<lparr>pm_type = MT_frame_ready, pm_payload = replicate 56 0\<rparr>"

definition broken_then_back :: "client_event list" where
  "broken_then_back = Start # map Thread connects @ [QueueCheck late_frame True]
     @ map Thread [quiet, quiet, quiet\<lparr>io_read := RdError\<rparr>, quiet, quiet] @ [QueuePush]
     @ map Thread [quiet, quiet, quiet, quiet, quiet, quiet]"

text \<open>
  When a session ends between the two halves of a \<^verbatim>\<open>queue_message\<close> call,
  the message survives \<^verbatim>\<open>drop_pending_messages\<close> and the next session writes it:
  in this run the FrameReady of the first session goes out right after the
  second session's ShimHello, before the helper has answered it.
\<close>

theorem late_queue_leaks_into_next_session:
  "map msg_raw_type (cl_sent (foldl client_step client_new broken_then_back)) =
     [raw_type MT_shim_hello, raw_type MT_frame_ready]
   \<and> \<not> cl_connected (foldl client_step client_new broken_then_back)"
  by code_simp

text \<open>
  The queue makes room for a StagingConfig by dropping its oldest entry, which
  need not be a frame: here it is a haptic pulse.
\<close>

definition haptic_then_frames :: client where
  "haptic_then_frames = client_new\<lparr>cl_connected := True, cl_pending :=
     \<lparr>pm_type = MT_haptic, pm_payload = replicate 20 0\<rparr> # replicate 63 late_frame\<rparr>"

lemma staging_config_evicts_haptic:
  "filter (\<lambda>m. pm_type m = MT_haptic)
     (cl_pending (snd (queue_staging_config (dec_staging_config []) haptic_then_frames))) = []"
  by code_simp

end
