(* ===== verification/Bridge.thy ===== *)
theory Bridge
  imports Ipc_Wire
begin

text \<open>
  The seam between the headset session and the shim pipe:
  \<^verbatim>\<open>helper/src/bridge.h\<close> and \<^verbatim>\<open>bridge.cpp\<close>. Producers overwrite the latest value
  per device and bump its generation; the pipe server collects what its cursor
  has not seen. The theorems say that a consumer that replays what it is sent
  holds exactly the bridge's state, in the order the contract wants.
\<close>

section \<open>State\<close>

definition kDeviceCount :: nat where "kDeviceCount = 3"
definition kMaxHaptics :: nat where "kMaxHaptics = 10"

record outgoing =
  og_type :: message_type
  og_size :: u32
  og_payload :: "u8 list"

record cursor =
  cu_config :: u64
  cu_pose :: "u64 list"
  cu_input :: "u64 list"
  cu_presence :: "u64 list"

record bridge =
  br_config :: hmd_config
  br_config_gen :: u64
  br_pose :: "pose_update list"
  br_pose_gen :: "u64 list"
  br_input :: "input_update list"
  br_input_gen :: "u64 list"
  br_present :: "bool list"
  br_presence_gen :: "u64 list"
  br_haptics :: "haptic list"
  br_poses_received :: u64

text \<open>The value-initialised structs of the constructor; 1.0 is the double \<open>0x3FF0...\<close>.\<close>

definition pose_zero :: pose_update where
  "pose_zero = dec_pose_update (replicate 120 0)"

definition input_zero :: input_update where
  "input_zero = dec_input_update (replicate 36 0)"

definition double_one :: u64 where "double_one = 0x3FF0000000000000"

definition bridge_new :: "hmd_config \<Rightarrow> bridge" where
  "bridge_new initial = \<lparr>br_config = initial, br_config_gen = 1,
     br_pose = map (\<lambda>i. pose_zero\<lparr>pu_device := of_nat i, pu_connected := 0, pu_qw := double_one\<rparr>)
       [0..<kDeviceCount],
     br_pose_gen = replicate kDeviceCount 0,
     br_input = map (\<lambda>i. input_zero\<lparr>iu_device := of_nat i\<rparr>) [0..<kDeviceCount],
     br_input_gen = replicate kDeviceCount 0,
     br_present = replicate kDeviceCount False,
     br_presence_gen = replicate kDeviceCount 0,
     br_haptics = [], br_poses_received = 0\<rparr>"

definition cursor_new :: cursor where
  "cursor_new = \<lparr>cu_config = 0, cu_pose = replicate kDeviceCount 0,
     cu_input = replicate kDeviceCount 0, cu_presence = replicate kDeviceCount 0\<rparr>"

section \<open>Producer side\<close>

abbreviation bump :: "u64 list \<Rightarrow> nat \<Rightarrow> u64 list" where
  "bump gs i \<equiv> gs[i := gs ! i + 1]"

definition set_config :: "hmd_config \<Rightarrow> bridge \<Rightarrow> bridge" where
  "set_config config b =
     (if enc_hmd_config (br_config b) = enc_hmd_config config then b
      else b\<lparr>br_config := config, br_config_gen := br_config_gen b + 1\<rparr>)"

definition set_pose :: "pose_update \<Rightarrow> bridge \<Rightarrow> bridge" where
  "set_pose pose b =
     (let i = unat (pu_device pose)
      in if kDeviceCount \<le> i then b
         else b\<lparr>br_pose := (br_pose b)[i := pose], br_pose_gen := bump (br_pose_gen b) i,
                br_poses_received := br_poses_received b + 1\<rparr>)"

definition set_input :: "input_update \<Rightarrow> bridge \<Rightarrow> bridge" where
  "set_input input b =
     (let i = unat (iu_device input)
      in if kDeviceCount \<le> i then b
         else b\<lparr>br_input := (br_input b)[i := input], br_input_gen := bump (br_input_gen b) i\<rparr>)"

definition set_present :: "u8 \<Rightarrow> bool \<Rightarrow> bridge \<Rightarrow> bridge" where
  "set_present device present b =
     (let i = unat device
      in if kDeviceCount \<le> i then b
         else if br_present b ! i = present then b
         else b\<lparr>br_present := (br_present b)[i := present],
                br_presence_gen := bump (br_presence_gen b) i\<rparr>)"

definition client_gone_device :: "nat \<Rightarrow> bridge \<Rightarrow> bridge" where
  "client_gone_device i b =
     (let b1 = (if br_present b ! i
                then b\<lparr>br_present := (br_present b)[i := False],
                       br_presence_gen := bump (br_presence_gen b) i\<rparr>
                else b)
      in if pu_connected (br_pose b1 ! i) \<noteq> 0
         then b1\<lparr>br_pose := (br_pose b1)[i := (br_pose b1 ! i)\<lparr>pu_connected := 0\<rparr>],
                 br_pose_gen := bump (br_pose_gen b1) i\<rparr>
         else b1)"

definition on_client_gone :: "bridge \<Rightarrow> bridge" where
  "on_client_gone b = (fold client_gone_device [0..<kDeviceCount] b)\<lparr>br_haptics := []\<rparr>"

definition push_haptic :: "haptic \<Rightarrow> bridge \<Rightarrow> bridge" where
  "push_haptic h b = b\<lparr>br_haptics :=
     (if kMaxHaptics \<le> length (br_haptics b) then tl (br_haptics b) else br_haptics b) @ [h]\<rparr>"

definition pop_haptic :: "bridge \<Rightarrow> haptic option \<times> bridge" where
  "pop_haptic b = (case br_haptics b of [] \<Rightarrow> (None, b)
     | h # hs \<Rightarrow> (Some h, b\<lparr>br_haptics := hs\<rparr>))"

section \<open>Consumer side\<close>

definition frame_out :: "message_type \<Rightarrow> u8 list \<Rightarrow> outgoing" where
  "frame_out t payload = \<lparr>og_type = t, og_size = of_nat (length payload),
     og_payload = payload @ replicate (120 - length payload) 0\<rparr>"

definition collect_config :: "bridge \<Rightarrow> cursor \<times> outgoing list \<Rightarrow> cursor \<times> outgoing list" where
  "collect_config b co = (case co of (c, out) \<Rightarrow>
     if cu_config c \<noteq> br_config_gen b
     then (c\<lparr>cu_config := br_config_gen b\<rparr>,
           out @ [frame_out MT_hmd_config (enc_hmd_config (br_config b))])
     else (c, out))"

definition presence_message :: "bridge \<Rightarrow> nat \<Rightarrow> outgoing" where
  "presence_message b i =
     (if br_present b ! i
      then frame_out MT_device_add (enc_device_add \<lparr>da_device = of_nat i, da_pad = 0\<rparr>)
      else frame_out MT_device_remove (enc_device_remove \<lparr>dr_device = of_nat i, dr_pad = 0\<rparr>))"

definition collect_presence ::
    "bridge \<Rightarrow> nat \<Rightarrow> cursor \<times> outgoing list \<Rightarrow> cursor \<times> outgoing list" where
  "collect_presence b i co = (case co of (c, out) \<Rightarrow>
     if cu_presence c ! i = br_presence_gen b ! i then (c, out)
     else (c\<lparr>cu_presence := (cu_presence c)[i := br_presence_gen b ! i]\<rparr>,
           out @ [presence_message b i]))"

definition collect_pose ::
    "bridge \<Rightarrow> nat \<Rightarrow> cursor \<times> outgoing list \<Rightarrow> cursor \<times> outgoing list" where
  "collect_pose b i co = (case co of (c, out) \<Rightarrow>
     if cu_pose c ! i = br_pose_gen b ! i then (c, out)
     else (c\<lparr>cu_pose := (cu_pose c)[i := br_pose_gen b ! i]\<rparr>,
           out @ [frame_out MT_pose_update (enc_pose_update (br_pose b ! i))]))"

definition collect_input ::
    "bridge \<Rightarrow> nat \<Rightarrow> cursor \<times> outgoing list \<Rightarrow> cursor \<times> outgoing list" where
  "collect_input b i co = (case co of (c, out) \<Rightarrow>
     if cu_input c ! i = br_input_gen b ! i then (c, out)
     else (c\<lparr>cu_input := (cu_input c)[i := br_input_gen b ! i]\<rparr>,
           out @ [frame_out MT_input_update (enc_input_update (br_input b ! i))]))"

definition collect :: "bridge \<Rightarrow> cursor \<Rightarrow> outgoing list \<Rightarrow> cursor \<times> outgoing list" where
  "collect b c out =
     fold (collect_input b) [0..<kDeviceCount]
       (fold (collect_pose b) [0..<kDeviceCount]
         (fold (collect_presence b) [1..<kDeviceCount]
           (collect_config b (c, out))))"

section \<open>Well-formedness\<close>

text \<open>
  The arrays have their declared size, every slot holds a sample of its own
  device, and the haptics queue is bounded.
\<close>

definition bridge_wf :: "bridge \<Rightarrow> bool" where
  "bridge_wf b \<longleftrightarrow> length (br_pose b) = kDeviceCount \<and> length (br_pose_gen b) = kDeviceCount
     \<and> length (br_input b) = kDeviceCount \<and> length (br_input_gen b) = kDeviceCount
     \<and> length (br_present b) = kDeviceCount \<and> length (br_presence_gen b) = kDeviceCount
     \<and> (\<forall>i < kDeviceCount. pu_device (br_pose b ! i) = of_nat i \<and> iu_device (br_input b ! i) = of_nat i)
     \<and> length (br_haptics b) \<le> kMaxHaptics"

definition cursor_wf :: "cursor \<Rightarrow> bool" where
  "cursor_wf c \<longleftrightarrow> length (cu_pose c) = kDeviceCount \<and> length (cu_input c) = kDeviceCount
     \<and> length (cu_presence c) = kDeviceCount"

datatype bridge_call =
    SetConfig hmd_config | SetPose pose_update | SetInput input_update
  | SetPresent u8 bool | ClientGone | PushHaptic haptic | PopHaptic

fun bridge_step :: "bridge \<Rightarrow> bridge_call \<Rightarrow> bridge" where
  "bridge_step b (SetConfig c) = set_config c b"
| "bridge_step b (SetPose p) = set_pose p b"
| "bridge_step b (SetInput i) = set_input i b"
| "bridge_step b (SetPresent d p) = set_present d p b"
| "bridge_step b ClientGone = on_client_gone b"
| "bridge_step b (PushHaptic h) = push_haptic h b"
| "bridge_step b PopHaptic = snd (pop_haptic b)"

lemmas bridge_defs [op_defs] =
  set_config_def set_pose_def set_input_def set_present_def push_haptic_def pop_haptic_def Let_def

lemma enc_hmd_config_eq [simp]: "enc_hmd_config a = enc_hmd_config b \<longleftrightarrow> a = b"
  by (rule hmd_config_codec.enc_inject)

interpretation haptics: bounded_fifo br_haptics push_haptic pop_haptic kMaxHaptics
  by unfold_locales (auto simp: kMaxHaptics_def push_haptic_def pop_haptic_def push_bounded_def)

lemma bridge_wf_presence:
  "bridge_wf b \<Longrightarrow> bridge_wf (b\<lparr>br_present := (br_present b)[i := p], br_presence_gen := bump (br_presence_gen b) i\<rparr>)"
  by (simp add: bridge_wf_def)

lemma bridge_wf_disconnect:
  "bridge_wf b \<Longrightarrow> bridge_wf (b\<lparr>br_pose := (br_pose b)[i := (br_pose b ! i)\<lparr>pu_connected := 0\<rparr>],
     br_pose_gen := bump (br_pose_gen b) i\<rparr>)"
  by (cases "i < kDeviceCount") (simp_all add: bridge_wf_def nth_list_update list_update_beyond)

lemma client_gone_device_wf: "bridge_wf b \<Longrightarrow> bridge_wf (client_gone_device i b)"
  unfolding client_gone_device_def Let_def
  using bridge_wf_presence [of b i False] bridge_wf_disconnect [of b i]
    bridge_wf_disconnect [of "b\<lparr>br_present := (br_present b)[i := False], br_presence_gen := bump (br_presence_gen b) i\<rparr>" i]
  by (cases "br_present b ! i") (simp_all only: if_True if_False split: if_split, simp_all)

lemma fold_client_gone_wf: "bridge_wf b \<Longrightarrow> bridge_wf (fold client_gone_device is b)"
  by (induction "is" arbitrary: b) (simp_all add: client_gone_device_wf)

lemma bridge_wf_haptics: "bridge_wf b \<Longrightarrow> bridge_wf (b\<lparr>br_haptics := []\<rparr>)"
  by (simp add: bridge_wf_def)

lemma bridge_wf_new: "bridge_wf (bridge_new c)"
  by (simp add: bridge_wf_def bridge_new_def)

lemma cursor_wf_new: "cursor_wf cursor_new"
  by (simp add: cursor_wf_def cursor_new_def)

interpretation bridge: machine_invariant bridge_step bridge_wf
proof
  fix b e
  assume b: "bridge_wf b"
  show "bridge_wf (bridge_step b e)"
  proof (cases e)
    case ClientGone
    from b show ?thesis
      by (simp add: ClientGone on_client_gone_def fold_client_gone_wf bridge_wf_haptics)
  next
    case (PushHaptic h)
    with b haptics.bound_push [of b h] show ?thesis by (simp add: bridge_wf_def push_haptic_def)
  next
    case PopHaptic
    with b haptics.bound_pop [of b] show ?thesis
      by (auto simp: bridge_wf_def pop_haptic_def split: list.splits)
  qed (use b in \<open>simp_all add: bridge_wf_def bridge_defs nth_list_update\<close>)
qed

section \<open>Generations\<close>

lemma device_cases: "i < kDeviceCount \<Longrightarrow> i = 0 \<or> i = 1 \<or> i = 2"
  by (auto simp: kDeviceCount_def)

lemma on_client_gone_unfold:
  "on_client_gone b = (client_gone_device 2 (client_gone_device 1 (client_gone_device 0 b)))
     \<lparr>br_haptics := []\<rparr>"
  by (simp add: on_client_gone_def kDeviceCount_def upt_rec numeral_2_eq_2)

text \<open>What marking device \<open>j\<close> absent does to the slots of device \<open>i\<close>.\<close>

lemma client_gone_device_frame [simp]:
  "br_config (client_gone_device j b) = br_config b"
  "br_config_gen (client_gone_device j b) = br_config_gen b"
  "br_input (client_gone_device j b) = br_input b"
  "br_input_gen (client_gone_device j b) = br_input_gen b"
  "length (br_pose (client_gone_device j b)) = length (br_pose b)"
  "length (br_pose_gen (client_gone_device j b)) = length (br_pose_gen b)"
  "length (br_present (client_gone_device j b)) = length (br_present b)"
  "length (br_presence_gen (client_gone_device j b)) = length (br_presence_gen b)"
  by (simp_all add: client_gone_device_def Let_def)

lemma client_gone_device_other [simp]:
  assumes "i \<noteq> j"
  shows "br_pose (client_gone_device j b) ! i = br_pose b ! i"
    and "br_pose_gen (client_gone_device j b) ! i = br_pose_gen b ! i"
    and "br_present (client_gone_device j b) ! i = br_present b ! i"
    and "br_presence_gen (client_gone_device j b) ! i = br_presence_gen b ! i"
  using assms by (simp_all add: client_gone_device_def Let_def)

lemma client_gone_device_self:
  assumes "bridge_wf b" and "i < kDeviceCount"
  shows "br_pose (client_gone_device i b) ! i = (br_pose b ! i)\<lparr>pu_connected := 0\<rparr>"
    and "br_pose_gen (client_gone_device i b) ! i =
      (if pu_connected (br_pose b ! i) = 0 then br_pose_gen b ! i else br_pose_gen b ! i + 1)"
    and "br_present (client_gone_device i b) ! i = False"
    and "br_presence_gen (client_gone_device i b) ! i =
      (if br_present b ! i then br_presence_gen b ! i + 1 else br_presence_gen b ! i)"
  using assms by (auto simp: client_gone_device_def Let_def bridge_wf_def)

lemma on_client_gone_slot:
  assumes "bridge_wf b" and "i < kDeviceCount"
  shows "br_pose (on_client_gone b) ! i = (br_pose b ! i)\<lparr>pu_connected := 0\<rparr>"
    and "br_pose_gen (on_client_gone b) ! i =
      (if pu_connected (br_pose b ! i) = 0 then br_pose_gen b ! i else br_pose_gen b ! i + 1)"
    and "br_present (on_client_gone b) ! i = False"
    and "br_presence_gen (on_client_gone b) ! i =
      (if br_present b ! i then br_presence_gen b ! i + 1 else br_presence_gen b ! i)"
proof -
  note wf = client_gone_device_wf [OF assms(1)] client_gone_device_wf [OF client_gone_device_wf [OF assms(1)]]
  note self = client_gone_device_self [OF assms] client_gone_device_self [OF wf(1) assms(2)]
    client_gone_device_self [OF wf(2) assms(2)]
  show "br_pose (on_client_gone b) ! i = (br_pose b ! i)\<lparr>pu_connected := 0\<rparr>"
    "br_pose_gen (on_client_gone b) ! i =
      (if pu_connected (br_pose b ! i) = 0 then br_pose_gen b ! i else br_pose_gen b ! i + 1)"
    "br_present (on_client_gone b) ! i = False"
    "br_presence_gen (on_client_gone b) ! i =
      (if br_present b ! i then br_presence_gen b ! i + 1 else br_presence_gen b ! i)"
    using device_cases [OF assms(2)] self by (auto simp: on_client_gone_unfold)
qed

lemma on_client_gone_frame [simp]:
  "br_config (on_client_gone b) = br_config b"
  "br_config_gen (on_client_gone b) = br_config_gen b"
  "br_input (on_client_gone b) = br_input b"
  "br_input_gen (on_client_gone b) = br_input_gen b"
  "br_haptics (on_client_gone b) = []"
  by (simp_all add: on_client_gone_unfold)

lemma pose_connected_same: "pu_connected p = 0 \<Longrightarrow> p\<lparr>pu_connected := 0\<rparr> = p"
  by (cases p) simp

lemma pop_haptic_frame [simp]:
  "br_config (snd (pop_haptic b)) = br_config b"
  "br_config_gen (snd (pop_haptic b)) = br_config_gen b"
  "br_pose (snd (pop_haptic b)) = br_pose b"
  "br_pose_gen (snd (pop_haptic b)) = br_pose_gen b"
  "br_input (snd (pop_haptic b)) = br_input b"
  "br_input_gen (snd (pop_haptic b)) = br_input_gen b"
  "br_present (snd (pop_haptic b)) = br_present b"
  "br_presence_gen (snd (pop_haptic b)) = br_presence_gen b"
  by (simp_all add: pop_haptic_def split: list.splits)

interpretation config_cell: generation_cell bridge_step bridge_wf br_config br_config_gen
proof
  fix b e
  show "br_config_gen (bridge_step b e) = br_config_gen b + 1
    \<or> br_config_gen (bridge_step b e) = br_config_gen b
      \<and> br_config (bridge_step b e) = br_config b"
    by (cases e) (simp_all add: set_config_def set_pose_def set_input_def set_present_def
        push_haptic_def Let_def)
qed

lemma pose_cell:
  assumes "i < kDeviceCount"
  shows "generation_cell bridge_step bridge_wf (\<lambda>b. br_pose b ! i) (\<lambda>b. br_pose_gen b ! i)"
proof
  fix b e
  assume b: "bridge_wf b"
  show "br_pose_gen (bridge_step b e) ! i = br_pose_gen b ! i + 1
    \<or> br_pose_gen (bridge_step b e) ! i = br_pose_gen b ! i
      \<and> br_pose (bridge_step b e) ! i = br_pose b ! i"
    using b assms on_client_gone_slot [OF b assms]
    by (cases e) (auto simp: set_config_def set_pose_def set_input_def set_present_def
        push_haptic_def Let_def bridge_wf_def nth_list_update pose_connected_same)
qed

lemma input_cell:
  assumes "i < kDeviceCount"
  shows "generation_cell bridge_step bridge_wf (\<lambda>b. br_input b ! i) (\<lambda>b. br_input_gen b ! i)"
proof
  fix b e
  assume b: "bridge_wf b"
  show "br_input_gen (bridge_step b e) ! i = br_input_gen b ! i + 1
    \<or> br_input_gen (bridge_step b e) ! i = br_input_gen b ! i
      \<and> br_input (bridge_step b e) ! i = br_input b ! i"
    using b assms
    by (cases e) (auto simp: set_config_def set_pose_def set_input_def set_present_def
        push_haptic_def Let_def bridge_wf_def nth_list_update)
qed

lemma presence_cell:
  assumes "i < kDeviceCount"
  shows "generation_cell bridge_step bridge_wf (\<lambda>b. br_present b ! i) (\<lambda>b. br_presence_gen b ! i)"
proof
  fix b e
  assume b: "bridge_wf b"
  show "br_presence_gen (bridge_step b e) ! i = br_presence_gen b ! i + 1
    \<or> br_presence_gen (bridge_step b e) ! i = br_presence_gen b ! i
      \<and> br_present (bridge_step b e) ! i = br_present b ! i"
    using b assms on_client_gone_slot [OF b assms]
    by (cases e) (auto simp: set_config_def set_pose_def set_input_def set_present_def
        push_haptic_def Let_def bridge_wf_def nth_list_update)
qed

section \<open>What a consumer sees\<close>

text \<open>
  The knowledge of a consumer that applies the messages it is sent: this is
  the shim's side of the contract, last configuration, controller presence,
  and last pose and input per device.
\<close>

record shim_view =
  sv_config :: "hmd_config option"
  sv_present :: "bool list"
  sv_pose :: "pose_update list"
  sv_input :: "input_update list"

definition og_bytes :: "outgoing \<Rightarrow> u8 list" where
  "og_bytes o' = take (unat (og_size o')) (og_payload o')"

definition sv_apply :: "outgoing \<Rightarrow> shim_view \<Rightarrow> shim_view" where
  "sv_apply o' v = (case og_type o' of
      MT_hmd_config \<Rightarrow> v\<lparr>sv_config := Some (dec_hmd_config (og_bytes o'))\<rparr>
    | MT_device_add \<Rightarrow>
        v\<lparr>sv_present := (sv_present v)[unat (da_device (dec_device_add (og_bytes o'))) := True]\<rparr>
    | MT_device_remove \<Rightarrow>
        v\<lparr>sv_present := (sv_present v)[unat (dr_device (dec_device_remove (og_bytes o'))) := False]\<rparr>
    | MT_pose_update \<Rightarrow>
        (let p = dec_pose_update (og_bytes o') in v\<lparr>sv_pose := (sv_pose v)[unat (pu_device p) := p]\<rparr>)
    | MT_input_update \<Rightarrow>
        (let p = dec_input_update (og_bytes o') in v\<lparr>sv_input := (sv_input v)[unat (iu_device p) := p]\<rparr>)
    | _ \<Rightarrow> v)"

definition sv_wf :: "shim_view \<Rightarrow> bool" where
  "sv_wf v \<longleftrightarrow> length (sv_present v) = kDeviceCount \<and> length (sv_pose v) = kDeviceCount
     \<and> length (sv_input v) = kDeviceCount"

definition view_matches :: "bridge \<Rightarrow> shim_view \<Rightarrow> bool" where
  "view_matches b v \<longleftrightarrow> sv_wf v \<and> sv_config v = Some (br_config b)
     \<and> (\<forall>i \<in> {1, 2}. sv_present v ! i = br_present b ! i)
     \<and> (\<forall>i < kDeviceCount. sv_pose v ! i = br_pose b ! i \<and> sv_input v ! i = br_input b ! i)"

definition caught_up :: "bridge \<Rightarrow> cursor \<Rightarrow> bool" where
  "caught_up b c \<longleftrightarrow> cursor_wf c \<and> cu_config c = br_config_gen b
     \<and> (\<forall>i \<in> {1, 2}. cu_presence c ! i = br_presence_gen b ! i)
     \<and> (\<forall>i < kDeviceCount. cu_pose c ! i = br_pose_gen b ! i \<and> cu_input c ! i = br_input_gen b ! i)"

lemma og_bytes_frame_out [simp]:
  "length p < 2 ^ 32 \<Longrightarrow> og_bytes (frame_out t p) = p"
  by (simp add: og_bytes_def frame_out_def unat_of_nat take_bit_nat_eq_self)

lemma og_type_frame_out [simp]: "og_type (frame_out t p) = t"
  by (simp add: frame_out_def)

subsection \<open>One pass of collect\<close>

lemma upd_same: "xs ! i = v \<Longrightarrow> xs[i := v] = xs"
  by auto

lemma device_lists: "[0..<kDeviceCount] = [0, 1, 2]" "[1..<kDeviceCount] = [1, 2]"
  by (simp_all add: kDeviceCount_def upt_rec)

lemma collect_config_eq:
  "collect_config b (c, out) = (c\<lparr>cu_config := br_config_gen b\<rparr>, out @
     (if cu_config c = br_config_gen b then []
      else [frame_out MT_hmd_config (enc_hmd_config (br_config b))]))"
  by (simp add: collect_config_def)

lemma collect_presence_eq:
  "collect_presence b i (c, out) = (c\<lparr>cu_presence := (cu_presence c)[i := br_presence_gen b ! i]\<rparr>,
     out @ (if cu_presence c ! i = br_presence_gen b ! i then [] else [presence_message b i]))"
  by (auto simp: collect_presence_def upd_same)

lemma collect_pose_eq:
  "collect_pose b i (c, out) = (c\<lparr>cu_pose := (cu_pose c)[i := br_pose_gen b ! i]\<rparr>,
     out @ (if cu_pose c ! i = br_pose_gen b ! i then []
            else [frame_out MT_pose_update (enc_pose_update (br_pose b ! i))]))"
  by (auto simp: collect_pose_def upd_same)

lemma collect_input_eq:
  "collect_input b i (c, out) = (c\<lparr>cu_input := (cu_input c)[i := br_input_gen b ! i]\<rparr>,
     out @ (if cu_input c ! i = br_input_gen b ! i then []
            else [frame_out MT_input_update (enc_input_update (br_input b ! i))]))"
  by (auto simp: collect_input_def upd_same)

definition news_config :: "bridge \<Rightarrow> cursor \<Rightarrow> outgoing list" where
  "news_config b c = (if cu_config c = br_config_gen b then []
     else [frame_out MT_hmd_config (enc_hmd_config (br_config b))])"

definition news_presence :: "bridge \<Rightarrow> cursor \<Rightarrow> nat \<Rightarrow> outgoing list" where
  "news_presence b c i = (if cu_presence c ! i = br_presence_gen b ! i then []
     else [presence_message b i])"

definition news_pose :: "bridge \<Rightarrow> cursor \<Rightarrow> nat \<Rightarrow> outgoing list" where
  "news_pose b c i = (if cu_pose c ! i = br_pose_gen b ! i then []
     else [frame_out MT_pose_update (enc_pose_update (br_pose b ! i))])"

definition news_input :: "bridge \<Rightarrow> cursor \<Rightarrow> nat \<Rightarrow> outgoing list" where
  "news_input b c i = (if cu_input c ! i = br_input_gen b ! i then []
     else [frame_out MT_input_update (enc_input_update (br_input b ! i))])"

lemmas collect_eqs = collect_config_eq collect_presence_eq collect_pose_eq collect_input_eq
lemmas news_defs = news_config_def news_presence_def news_pose_def news_input_def

lemma collect_out:
  "snd (collect b c out) = out @ news_config b c @ news_presence b c 1 @ news_presence b c 2
     @ news_pose b c 0 @ news_pose b c 1 @ news_pose b c 2
     @ news_input b c 0 @ news_input b c 1 @ news_input b c 2"
  by (simp only: collect_def device_lists fold_Cons fold_Nil o_apply id_apply collect_eqs)
    (simp add: news_defs)

lemma collect_caught_up:
  assumes "cursor_wf c"
  shows "caught_up b (fst (collect b c out))"
proof -
  have "\<And>i. i < kDeviceCount \<longleftrightarrow> i = 0 \<or> i = 1 \<or> i = 2" "kDeviceCount = 3"
    by (auto simp: kDeviceCount_def)
  with assms show ?thesis
    by (simp only: collect_def device_lists fold_Cons fold_Nil o_apply id_apply collect_eqs fst_conv)
      (auto simp: caught_up_def cursor_wf_def nth_list_update)
qed

lemma collect_again: "caught_up b c \<Longrightarrow> snd (collect b c []) = []"
  by (simp add: collect_out news_defs caught_up_def kDeviceCount_def)

subsection \<open>Replaying the messages\<close>

text \<open>
  What the consumer has to know before the pass: a slot whose generation the
  cursor already has must be right.
\<close>

definition view_trusts :: "bridge \<Rightarrow> cursor \<Rightarrow> shim_view \<Rightarrow> bool" where
  "view_trusts b c v \<longleftrightarrow> sv_wf v
     \<and> (cu_config c = br_config_gen b \<longrightarrow> sv_config v = Some (br_config b))
     \<and> (\<forall>i \<in> {1, 2}. cu_presence c ! i = br_presence_gen b ! i
          \<longrightarrow> sv_present v ! i = br_present b ! i)
     \<and> (\<forall>i < kDeviceCount. cu_pose c ! i = br_pose_gen b ! i \<longrightarrow> sv_pose v ! i = br_pose b ! i)
     \<and> (\<forall>i < kDeviceCount. cu_input c ! i = br_input_gen b ! i \<longrightarrow> sv_input v ! i = br_input b ! i)"

lemma unat_device [simp]: "i < kDeviceCount \<Longrightarrow> unat (of_nat i :: u8) = i"
  by (auto simp: kDeviceCount_def unat_of_nat take_bit_nat_eq_self)

lemma sv_apply_config [simp]:
  "sv_apply (frame_out MT_hmd_config (enc_hmd_config x)) v = v\<lparr>sv_config := Some x\<rparr>"
  by (simp add: sv_apply_def)

lemma sv_apply_presence [simp]:
  "i < kDeviceCount \<Longrightarrow>
     sv_apply (presence_message b i) v = v\<lparr>sv_present := (sv_present v)[i := br_present b ! i]\<rparr>"
  by (simp add: sv_apply_def presence_message_def)

lemma sv_apply_pose [simp]:
  "bridge_wf b \<Longrightarrow> i < kDeviceCount \<Longrightarrow>
     sv_apply (frame_out MT_pose_update (enc_pose_update (br_pose b ! i))) v =
       v\<lparr>sv_pose := (sv_pose v)[i := br_pose b ! i]\<rparr>"
  by (simp add: sv_apply_def bridge_wf_def)

lemma sv_apply_input [simp]:
  "bridge_wf b \<Longrightarrow> i < kDeviceCount \<Longrightarrow>
     sv_apply (frame_out MT_input_update (enc_input_update (br_input b ! i))) v =
       v\<lparr>sv_input := (sv_input v)[i := br_input b ! i]\<rparr>"
  by (simp add: sv_apply_def bridge_wf_def)

lemma fold_news_config:
  "fold sv_apply (news_config b c) v =
     (if cu_config c = br_config_gen b then v else v\<lparr>sv_config := Some (br_config b)\<rparr>)"
  by (simp add: news_config_def)

lemma fold_news_presence:
  "i < kDeviceCount \<Longrightarrow> fold sv_apply (news_presence b c i) v =
     v\<lparr>sv_present := (sv_present v)[i := (if cu_presence c ! i = br_presence_gen b ! i
        then sv_present v ! i else br_present b ! i)]\<rparr>"
  by (simp add: news_presence_def)

lemma fold_news_pose:
  "bridge_wf b \<Longrightarrow> i < kDeviceCount \<Longrightarrow> fold sv_apply (news_pose b c i) v =
     v\<lparr>sv_pose := (sv_pose v)[i := (if cu_pose c ! i = br_pose_gen b ! i
        then sv_pose v ! i else br_pose b ! i)]\<rparr>"
  by (simp add: news_pose_def)

lemma fold_news_input:
  "bridge_wf b \<Longrightarrow> i < kDeviceCount \<Longrightarrow> fold sv_apply (news_input b c i) v =
     v\<lparr>sv_input := (sv_input v)[i := (if cu_input c ! i = br_input_gen b ! i
        then sv_input v ! i else br_input b ! i)]\<rparr>"
  by (simp add: news_input_def)

lemma replay_matches:
  assumes b: "bridge_wf b" and v: "view_trusts b c v"
  shows "view_matches b (fold sv_apply (snd (collect b c [])) v)"
proof -
  have dev: "0 < kDeviceCount" "1 < kDeviceCount" "2 < kDeviceCount"
    "\<And>i. i < kDeviceCount \<longleftrightarrow> i = 0 \<or> i = 1 \<or> i = 2"
    by (auto simp: kDeviceCount_def)
  define v1 where "v1 = fold sv_apply (news_config b c) v"
  define v2 where "v2 = fold sv_apply (news_presence b c 2) (fold sv_apply (news_presence b c 1) v1)"
  define v3 where "v3 = fold sv_apply (news_pose b c 2) (fold sv_apply (news_pose b c 1)
    (fold sv_apply (news_pose b c 0) v2))"
  define v4 where "v4 = fold sv_apply (news_input b c 2) (fold sv_apply (news_input b c 1)
    (fold sv_apply (news_input b c 0) v3))"
  have len: "length (sv_present v) = 3" "length (sv_pose v) = 3" "length (sv_input v) = 3"
    using v by (simp_all add: view_trusts_def sv_wf_def kDeviceCount_def)
  have 1: "sv_config v1 = Some (br_config b)" "sv_present v1 = sv_present v"
    "sv_pose v1 = sv_pose v" "sv_input v1 = sv_input v"
    using v by (auto simp: v1_def fold_news_config view_trusts_def)
  have 2: "sv_config v2 = sv_config v1" "sv_pose v2 = sv_pose v" "sv_input v2 = sv_input v"
    "length (sv_present v2) = 3" "\<forall>i \<in> {1, 2}. sv_present v2 ! i = br_present b ! i"
    using v len 1 dev(1-3) by (auto simp: v2_def fold_news_presence view_trusts_def)
  have 3: "sv_config v3 = sv_config v2" "sv_present v3 = sv_present v2" "sv_input v3 = sv_input v"
    "length (sv_pose v3) = 3" "\<forall>i < kDeviceCount. sv_pose v3 ! i = br_pose b ! i"
    using v len 2 dev by (auto simp: v3_def fold_news_pose [OF b] view_trusts_def)
  have 4: "sv_config v4 = sv_config v3" "sv_present v4 = sv_present v3" "sv_pose v4 = sv_pose v3"
    "length (sv_input v4) = 3" "\<forall>i < kDeviceCount. sv_input v4 ! i = br_input b ! i"
    using v len 3 dev by (auto simp: v4_def fold_news_input [OF b] view_trusts_def)
  have "fold sv_apply (snd (collect b c [])) v = v4"
    by (simp add: collect_out v4_def v3_def v2_def v1_def)
  moreover have "view_matches b v4"
    using 1 2 3 4 by (simp add: view_matches_def sv_wf_def kDeviceCount_def)
  ultimately show ?thesis by simp
qed

lemma trusts_after_run:
  assumes b: "bridge_wf b" and up: "caught_up b c" and v: "view_matches b v"
    and len: "length es < 2 ^ 64"
  shows "view_trusts (foldl bridge_step b es) c v"
proof -
  have pres: "\<And>i. i \<in> {1, 2} \<Longrightarrow> br_presence_gen (foldl bridge_step b es) ! i = br_presence_gen b ! i
      \<Longrightarrow> br_present (foldl bridge_step b es) ! i = br_present b ! i"
    using generation_cell.same_gen_same_val [OF presence_cell b len]
    by (auto simp: kDeviceCount_def)
  show ?thesis
    using up v pres config_cell.same_gen_same_val [OF b len]
      generation_cell.same_gen_same_val [OF pose_cell b len]
      generation_cell.same_gen_same_val [OF input_cell b len]
    by (simp add: view_trusts_def caught_up_def view_matches_def)
qed

text \<open>
  C34. The consumer's replica. A consumer whose cursor is caught up and whose
  view matches the bridge, and which then misses any number of producer calls
  (fewer than \<open>2 ^ 64\<close>), gets from one \<^verbatim>\<open>collect\<close> exactly what it needs: after
  applying the messages its view matches the bridge again, and its cursor is
  caught up, so that a further \<^verbatim>\<open>collect\<close> sends nothing.
\<close>

theorem collect_delivers_latest:
  assumes "bridge_wf b" and "caught_up b c" and "view_matches b v" and "length es < 2 ^ 64"
    and "b' = foldl bridge_step b es" and "collect b' c [] = (c', out)"
  shows "view_matches b' (fold sv_apply out v) \<and> caught_up b' c' \<and> snd (collect b' c' []) = []"
proof -
  have "bridge_wf b'" using bridge.inv_run assms by simp
  moreover have "view_trusts b' c v" using trusts_after_run assms by simp
  ultimately have "view_matches b' (fold sv_apply out v)"
    using replay_matches [of b' c v] assms(6) by simp
  moreover have "caught_up b' c'"
    using collect_caught_up [of c b' "[]"] assms by (simp add: caught_up_def)
  ultimately show ?thesis using collect_again by simp
qed

text \<open>The view of a consumer that has just connected and has been told nothing.\<close>

definition shim_view_new :: shim_view where
  "shim_view_new = \<lparr>sv_config = None, sv_present = replicate kDeviceCount False,
     sv_pose = br_pose (bridge_new (dec_hmd_config [])),
     sv_input = br_input (bridge_new (dec_hmd_config []))\<rparr>"

lemma fresh_trusts:
  assumes "length es < 2 ^ 64 - 1" and "b = foldl bridge_step (bridge_new cfg) es"
  shows "br_config_gen b \<noteq> 0" and "view_trusts b cursor_new shim_view_new"
proof -
  have wf: "bridge_wf (bridge_new cfg)" by (rule bridge_wf_new)
  have len: "length es < 2 ^ 64" using assms(1) by simp
  show gen: "br_config_gen b \<noteq> 0"
    using config_cell.gen_stays_positive [OF wf, of es] assms by (simp add: bridge_new_def)
  have pose: "\<And>i. i < kDeviceCount \<Longrightarrow> br_pose_gen b ! i = 0 \<Longrightarrow> br_pose b ! i = sv_pose shim_view_new ! i"
    using generation_cell.same_gen_same_val [OF pose_cell wf len] assms(2)
    by (auto simp: bridge_new_def shim_view_new_def)
  have input: "\<And>i. i < kDeviceCount \<Longrightarrow> br_input_gen b ! i = 0 \<Longrightarrow> br_input b ! i = sv_input shim_view_new ! i"
    using generation_cell.same_gen_same_val [OF input_cell wf len] assms(2)
    by (auto simp: bridge_new_def shim_view_new_def)
  have presence: "\<And>i. i < kDeviceCount \<Longrightarrow> br_presence_gen b ! i = 0 \<Longrightarrow> \<not> br_present b ! i"
    using generation_cell.same_gen_same_val [OF presence_cell wf len] assms(2)
    by (auto simp: bridge_new_def)
  have "sv_wf shim_view_new"
    by (simp add: sv_wf_def shim_view_new_def bridge_new_def)
  moreover have "\<forall>i < kDeviceCount. cu_pose cursor_new ! i = 0 \<and> cu_input cursor_new ! i = 0
      \<and> cu_presence cursor_new ! i = 0 \<and> \<not> sv_present shim_view_new ! i"
    by (simp add: cursor_new_def shim_view_new_def)
  ultimately show "view_trusts b cursor_new shim_view_new"
    using gen pose input presence
    by (auto simp: view_trusts_def kDeviceCount_def cursor_new_def)
qed

text \<open>
  C35. A shim that connects, at whatever point of the helper's life, is first
  sent the HmdConfig, and the one pass that follows gives it the complete
  current state: configuration, controller presence, and every device's last
  pose and input.
\<close>

theorem fresh_connection_gets_everything:
  assumes "length es < 2 ^ 64 - 1" and "b = foldl bridge_step (bridge_new cfg) es"
    and "collect b cursor_new [] = (c', out)"
  shows "out \<noteq> [] \<and> hd out = frame_out MT_hmd_config (enc_hmd_config (br_config b))
    \<and> view_matches b (fold sv_apply out shim_view_new) \<and> caught_up b c'"
proof -
  note fresh = fresh_trusts [OF assms(1,2)]
  have wf: "bridge_wf b" using bridge.inv_run [OF bridge_wf_new] assms(2) by simp
  have out: "out = snd (collect b cursor_new [])" "c' = fst (collect b cursor_new [])"
    using assms(3) by simp_all
  have "out \<noteq> [] \<and> hd out = frame_out MT_hmd_config (enc_hmd_config (br_config b))"
    using fresh(1) by (auto simp: out collect_out news_config_def cursor_new_def)
  moreover have "view_matches b (fold sv_apply out shim_view_new)"
    using replay_matches [OF wf fresh(2)] out by simp
  moreover have "caught_up b c'" using collect_caught_up [OF cursor_wf_new, of b] out by simp
  ultimately show ?thesis by simp
qed

definition example_config :: hmd_config where
  "example_config = dec_hmd_config (replicate 104 0)"

theorem fresh_connection_gets_everything_witness:
  "let b = foldl bridge_step (bridge_new example_config) [SetPresent 1 True, SetPose pose_zero];
       (c', out) = collect b cursor_new []
   in out \<noteq> [] \<and> hd out = frame_out MT_hmd_config (enc_hmd_config (br_config b))
    \<and> view_matches b (fold sv_apply out shim_view_new) \<and> caught_up b c'"
  unfolding Let_def
proof (split prod.split, intro allI impI)
  fix c' out
  assume c: "collect (foldl bridge_step (bridge_new example_config)
    [SetPresent 1 True, SetPose pose_zero]) cursor_new [] = (c', out)"
  show "out \<noteq> [] \<and> hd out = frame_out MT_hmd_config (enc_hmd_config (br_config
      (foldl bridge_step (bridge_new example_config) [SetPresent 1 True, SetPose pose_zero])))
    \<and> view_matches (foldl bridge_step (bridge_new example_config) [SetPresent 1 True, SetPose pose_zero])
        (fold sv_apply out shim_view_new)
    \<and> caught_up (foldl bridge_step (bridge_new example_config) [SetPresent 1 True, SetPose pose_zero]) c'"
    by (rule fresh_connection_gets_everything [OF _ refl c]) simp
qed

definition example_cursor :: cursor where
  "example_cursor = fst (collect (bridge_new example_config) cursor_new [])"

definition example_view :: shim_view where
  "example_view = fold sv_apply (snd (collect (bridge_new example_config) cursor_new [])) shim_view_new"

theorem collect_delivers_latest_witness:
  "let b' = foldl bridge_step (bridge_new example_config) [SetPresent 1 True, ClientGone];
       (c', out) = collect b' example_cursor []
   in view_matches b' (fold sv_apply out example_view) \<and> caught_up b' c' \<and> snd (collect b' c' []) = []"
  unfolding Let_def
proof (split prod.split, intro allI impI)
  fix c' out
  assume c: "collect (foldl bridge_step (bridge_new example_config) [SetPresent 1 True, ClientGone])
    example_cursor [] = (c', out)"
  have "view_trusts (bridge_new example_config) cursor_new shim_view_new"
    using fresh_trusts(2) [of "[]" "bridge_new example_config" example_config] by simp
  then have "view_matches (bridge_new example_config) example_view"
    by (simp add: example_view_def replay_matches bridge_wf_new)
  moreover have "caught_up (bridge_new example_config) example_cursor"
    by (simp add: example_cursor_def collect_caught_up cursor_wf_new)
  ultimately show "view_matches (foldl bridge_step (bridge_new example_config) [SetPresent 1 True, ClientGone])
      (fold sv_apply out example_view)
    \<and> caught_up (foldl bridge_step (bridge_new example_config) [SetPresent 1 True, ClientGone]) c'
    \<and> snd (collect (foldl bridge_step (bridge_new example_config) [SetPresent 1 True, ClientGone]) c' []) = []"
    using collect_delivers_latest [OF bridge_wf_new _ _ _ refl c] by simp
qed

section \<open>Order\<close>

fun out_rank :: "message_type \<Rightarrow> nat" where
  "out_rank MT_hmd_config = 0"
| "out_rank MT_device_add = 1"
| "out_rank MT_device_remove = 1"
| "out_rank MT_pose_update = 2"
| "out_rank MT_input_update = 3"
| "out_rank _ = 4"

text \<open>
  Order within one pass: the configuration before any device
  announcement, announcements before poses, poses before inputs, and no other
  kind of message; the HMD itself is never announced. At most one message per
  slot is sent, nine in all.
\<close>

theorem collect_order:
  "sorted (map (out_rank \<circ> og_type) (snd (collect b c [])))
   \<and> (\<forall>o' \<in> set (snd (collect b c [])). out_rank (og_type o') < 4
        \<and> (og_type o' = MT_device_add \<longrightarrow> da_device (dec_device_add (og_bytes o')) \<in> {1, 2})
        \<and> (og_type o' = MT_device_remove \<longrightarrow> dr_device (dec_device_remove (og_bytes o')) \<in> {1, 2}))
   \<and> length (snd (collect b c [])) \<le> 9"
proof (intro conjI)
  let ?parts = "[news_config b c, news_presence b c 1, news_presence b c 2,
     news_pose b c 0, news_pose b c 1, news_pose b c 2,
     news_input b c 0, news_input b c 1, news_input b c 2]"
  have out: "snd (collect b c []) = concat ?parts" by (simp add: collect_out)
  show "sorted (map (out_rank \<circ> og_type) (snd (collect b c [])))"
    by (simp add: out news_defs presence_message_def sorted_append)
  show "length (snd (collect b c [])) \<le> 9"
    by (simp add: out news_defs)
  show "\<forall>o' \<in> set (snd (collect b c [])). out_rank (og_type o') < 4
        \<and> (og_type o' = MT_device_add \<longrightarrow> da_device (dec_device_add (og_bytes o')) \<in> {1, 2})
        \<and> (og_type o' = MT_device_remove \<longrightarrow> dr_device (dec_device_remove (og_bytes o')) \<in> {1, 2})"
    by (auto simp: out news_defs presence_message_def split: if_splits)
qed

theorem collect_order_witness:
  "sorted (map (out_rank \<circ> og_type)
     (snd (collect (bridge_step (bridge_new example_config) (SetPresent 2 True)) cursor_new [])))"
  using collect_order [of "bridge_step (bridge_new example_config) (SetPresent 2 True)" cursor_new]
  by simp

end
