(* ===== verification/Video_Bridge.thy ===== *)
theory Video_Bridge
  imports Ieee Ipc_Wire
begin

text \<open>
  The seam between the WiVRn session and the encoder thread:
  \<^verbatim>\<open>helper/src/video_bridge.h\<close>, \<^verbatim>\<open>video_bridge.cpp\<close>, and the vocabulary of
  \<^verbatim>\<open>helper/src/encoder/video_encoder.h\<close>. Every member function runs under one
  mutex and is one atomic operation. The refresh rate is compared as a
  floating-point number; the floats that are only carried along are bit
  patterns.
\<close>

section \<open>The encoder's vocabulary\<close>

datatype video_codec = H264 | H265

record encoded_frame =
  ef_frame_id :: u64
  ef_sample_time_qpc :: u64
  ef_predict_s :: u32
  ef_pose_q :: "u32 \<times> u32 \<times> u32 \<times> u32"
  ef_pose_p :: "u32 \<times> u32 \<times> u32"
  ef_stream_index :: u8
  ef_idr :: bool
  ef_data :: "u8 list"

record encoder_config =
  ec_refresh_hz :: fp
  ec_bitrate_bps :: u32
  ec_allow_h265 :: bool
  ec_allow_h264 :: bool

record encoder_stream_info =
  es_width :: u32
  es_height :: u32
  es_codec :: video_codec

definition encoder_stream_info_new :: encoder_stream_info where
  "encoder_stream_info_new = \<lparr>es_width = 0, es_height = 0, es_codec = H265\<rparr>"

datatype encode_result = EncOk | EncDropped | EncFatal

section \<open>State\<close>

record video_request =
  vr_active :: bool
  vr_refresh_hz :: fp
  vr_bitrate_bps :: u32
  vr_bitrate_generation :: u64
  vr_allow_h265 :: bool
  vr_allow_h264 :: bool
  vr_idr_generation :: u64
  vr_config_generation :: u64

definition video_request_new :: video_request where
  "video_request_new = \<lparr>vr_active = False, vr_refresh_hz = Num 90, vr_bitrate_bps = 50000000,
     vr_bitrate_generation = 0, vr_allow_h265 = True, vr_allow_h264 = True, vr_idr_generation = 0,
     vr_config_generation = 0\<rparr>"

record stream_state =
  ss_info :: encoder_stream_info
  ss_valid :: bool
  ss_generation :: u64

record video_bridge =
  vb_request :: video_request
  vb_pref_bitrate_bps :: u32
  vb_pref_codec :: int
  vb_pref_adaptive :: bool
  vb_stream :: stream_state
  vb_frames :: "encoded_frame list"
  vb_frames_queued :: u64
  vb_frames_dropped :: u64

definition video_bridge_new :: video_bridge where
  "video_bridge_new = \<lparr>vb_request = video_request_new, vb_pref_bitrate_bps = 50000000, vb_pref_codec = 0,
     vb_pref_adaptive = True,
     vb_stream = \<lparr>ss_info = encoder_stream_info_new, ss_valid = False, ss_generation = 0\<rparr>,
     vb_frames = [], vb_frames_queued = 0, vb_frames_dropped = 0\<rparr>"

definition kMaxQueued :: nat where "kMaxQueued = 4"

section \<open>The session's side\<close>

definition set_prefs :: "u32 \<Rightarrow> int \<Rightarrow> bool \<Rightarrow> video_bridge \<Rightarrow> video_bridge" where
  "set_prefs bitrate_bps codec_pref adaptive b =
     b\<lparr>vb_pref_bitrate_bps := bitrate_bps, vb_pref_codec := codec_pref, vb_pref_adaptive := adaptive,
       vb_request := (vb_request b)\<lparr>vr_bitrate_bps := bitrate_bps\<rparr>\<rparr>"

definition vb_prefs :: "video_bridge \<Rightarrow> u32 \<times> int \<times> bool" where
  "vb_prefs b = (vb_pref_bitrate_bps b, vb_pref_codec b, vb_pref_adaptive b)"

definition set_bitrate :: "u32 \<Rightarrow> video_bridge \<Rightarrow> video_bridge" where
  "set_bitrate bitrate_bps b =
     (let rq = vb_request b
      in if \<not> vr_active rq \<or> bitrate_bps = 0 \<or> bitrate_bps = vr_bitrate_bps rq then b
         else b\<lparr>vb_request := rq\<lparr>vr_bitrate_bps := bitrate_bps,
                vr_bitrate_generation := vr_bitrate_generation rq + 1\<rparr>\<rparr>)"

definition set_client :: "fp \<Rightarrow> bool \<Rightarrow> bool \<Rightarrow> video_bridge \<Rightarrow> video_bridge" where
  "set_client refresh_hz allow_h265 allow_h264 b =
     (let h265 = (if vb_pref_codec b = 1 then False else allow_h265);
          h264 = (if vb_pref_codec b = 2 then False else allow_h264);
          rq = vb_request b;
          changed = (\<not> vr_active rq \<or> \<not> fp_eq (vr_refresh_hz rq) refresh_hz
                     \<or> vr_allow_h265 rq \<noteq> h265 \<or> vr_allow_h264 rq \<noteq> h264);
          rq = rq\<lparr>vr_active := True, vr_refresh_hz := refresh_hz\<rparr>;
          rq = (if vr_bitrate_bps rq \<noteq> vb_pref_bitrate_bps b
                then rq\<lparr>vr_bitrate_bps := vb_pref_bitrate_bps b,
                        vr_bitrate_generation := vr_bitrate_generation rq + 1\<rparr> else rq);
          rq = rq\<lparr>vr_allow_h265 := h265, vr_allow_h264 := h264\<rparr>;
          rq = (if changed
                then rq\<lparr>vr_config_generation := vr_config_generation rq + 1,
                        vr_idr_generation := vr_idr_generation rq + 1\<rparr> else rq)
      in b\<lparr>vb_request := rq\<rparr>)"

definition clear_client :: "video_bridge \<Rightarrow> video_bridge" where
  "clear_client b =
     (if \<not> vr_active (vb_request b) then b
      else b\<lparr>vb_request := (vb_request b)\<lparr>vr_active := False\<rparr>, vb_frames := []\<rparr>)"

definition request_idr :: "video_bridge \<Rightarrow> video_bridge" where
  "request_idr b =
     b\<lparr>vb_request := (vb_request b)\<lparr>vr_idr_generation := vr_idr_generation (vb_request b) + 1\<rparr>\<rparr>"

definition take_frames :: "video_bridge \<Rightarrow> encoded_frame list \<times> video_bridge" where
  "take_frames b = (vb_frames b, b\<lparr>vb_frames := []\<rparr>)"

section \<open>The encoder thread's side\<close>

definition publish_stream :: "encoder_stream_info \<Rightarrow> bool \<Rightarrow> video_bridge \<Rightarrow> video_bridge" where
  "publish_stream info valid b =
     (if ss_valid (vb_stream b) = valid \<and> ss_info (vb_stream b) = info then b
      else b\<lparr>vb_stream := \<lparr>ss_info = info, ss_valid = valid,
               ss_generation = ss_generation (vb_stream b) + 1\<rparr>\<rparr>)"

lemma dropWhile_hd_shorter: "q \<noteq> [] \<Longrightarrow> P (hd q) \<Longrightarrow> length (dropWhile P q) < length q"
  by (cases q) (simp_all add: length_dropWhile_le le_imp_less_Suc)

text \<open>The two nested loops that shorten the queue, with the number of entries dropped.\<close>

function drop_overflow :: "encoded_frame list \<Rightarrow> encoded_frame list \<times> nat" where
  "drop_overflow q =
     (if length q \<le> kMaxQueued then (q, 0)
      else let victim = ef_frame_id (hd q);
               q' = dropWhile (\<lambda>f. ef_frame_id f = victim) q
           in case drop_overflow q' of (q'', n) \<Rightarrow> (q'', length q - length q' + n))"
  by auto

termination
  by (relation "measure length") (auto intro!: dropWhile_hd_shorter)

declare drop_overflow.simps [simp del]

definition push_frames :: "encoded_frame list \<Rightarrow> video_bridge \<Rightarrow> video_bridge" where
  "push_frames frames b =
     (if frames = [] \<or> \<not> vr_active (vb_request b) then b
      else case drop_overflow (vb_frames b @ frames) of (q, n) \<Rightarrow>
        b\<lparr>vb_frames := q, vb_frames_queued := vb_frames_queued b + of_nat (length frames),
          vb_frames_dropped := vb_frames_dropped b + of_nat n\<rparr>)"

section \<open>The queue drops whole frames\<close>

lemma drop_overflow_spec:
  "drop_overflow q = (q', n) \<Longrightarrow> \<exists>pre. q = pre @ q' \<and> n = length pre \<and> length q' \<le> kMaxQueued
     \<and> (pre \<noteq> [] \<and> q' \<noteq> [] \<longrightarrow> ef_frame_id (last pre) \<noteq> ef_frame_id (hd q'))
     \<and> (length q \<le> kMaxQueued \<longrightarrow> pre = [])"
proof (induction q arbitrary: q' n rule: drop_overflow.induct)
  case (1 q)
  show ?case
  proof (cases "length q \<le> kMaxQueued")
    case True
    then show ?thesis using "1.prems" by (simp add: drop_overflow.simps [of q])
  next
    case False
    let ?P = "\<lambda>f. ef_frame_id f = ef_frame_id (hd q)"
    obtain n' where d: "drop_overflow (dropWhile ?P q) = (q', n')"
      "n = length q - length (dropWhile ?P q) + n'"
      using "1.prems" False by (auto simp: drop_overflow.simps [of q] Let_def split: prod.splits)
    obtain pre where pre: "dropWhile ?P q = pre @ q'" "n' = length pre" "length q' \<le> kMaxQueued"
      "pre \<noteq> [] \<and> q' \<noteq> [] \<longrightarrow> ef_frame_id (last pre) \<noteq> ef_frame_id (hd q')"
      using "1.IH" [OF False refl refl d(1)] by blast
    let ?pre = "takeWhile ?P q @ pre"
    have q: "q = ?pre @ q'" using pre(1) by (metis append.assoc takeWhile_dropWhile_id)
    moreover have "n = length ?pre" using d(2) pre(1,2) q by (metis add_diff_cancel_right' length_append takeWhile_dropWhile_id add.commute)
    moreover have "ef_frame_id (last ?pre) \<noteq> ef_frame_id (hd q')" if "?pre \<noteq> []" "q' \<noteq> []"
    proof (cases "pre = []")
      case True
      then have "takeWhile ?P q \<noteq> []" using that by simp
      then have "?P (last (takeWhile ?P q))" using last_in_set set_takeWhileD by fast
      moreover have "\<not> ?P (hd q')" using pre(1) True that(2) hd_dropWhile [of ?P q] by simp
      ultimately show ?thesis using True by simp
    qed (use pre(4) that in simp)
    ultimately show ?thesis using pre(3) False by blast
  qed
qed

text \<open>Frame identifiers in the order the encoder produces them: equal ones are adjacent.\<close>

lemma sorted_le_last: "sorted (map f xs) \<Longrightarrow> x \<in> set xs \<Longrightarrow> f x \<le> f (last xs)"
  by (induction xs) auto

lemma split_sorted_ids:
  assumes "sorted (map f (xs @ ys))" and "xs \<noteq> [] \<and> ys \<noteq> [] \<longrightarrow> f (last xs) \<noteq> f (hd ys)"
  shows "f ` set xs \<inter> f ` set ys = {}"
proof -
  have False if x: "x \<in> set xs" and y: "y \<in> set ys" and "f x = f y" for x y
  proof -
    have "f x \<le> f (last xs)" using sorted_le_last [of f xs x] assms(1) x by (simp add: sorted_append)
    moreover have "f (hd ys) \<le> f y" using assms(1) y
      by (cases ys) (auto simp: sorted_append)
    moreover have "last xs \<in> set xs" using x by (metis empty_iff empty_set last_in_set)
    then have "f (last xs) \<le> f (hd ys)" using assms(1) y by (cases ys) (auto simp: sorted_append)
    ultimately show False using assms(2) x y that(3) by (cases ys) auto
  qed
  then show ?thesis by blast
qed

text \<open>
  The queue to the session is bounded and drops by whole frames. After a
  push it holds at most four entries; what was dropped is the oldest part; and
  when the frame identifiers do not decrease along the queue, no frame is cut
  in two: the entries of a frame (its two eyes) are either all kept or all
  dropped, and the counters tell how many of each.
\<close>

theorem push_frames_whole:
  assumes "vr_active (vb_request b)" and "frames \<noteq> []" and "sorted (map ef_frame_id (vb_frames b @ frames))"
  shows "\<exists>pre. vb_frames b @ frames = pre @ vb_frames (push_frames frames b)
    \<and> length (vb_frames (push_frames frames b)) \<le> 4
    \<and> ef_frame_id ` set pre \<inter> ef_frame_id ` set (vb_frames (push_frames frames b)) = {}
    \<and> vb_frames_dropped (push_frames frames b) = vb_frames_dropped b + of_nat (length pre)
    \<and> vb_frames_queued (push_frames frames b) = vb_frames_queued b + of_nat (length frames)
    \<and> (length (vb_frames b @ frames) \<le> 4 \<longrightarrow> pre = [])"
proof -
  obtain q n where d: "drop_overflow (vb_frames b @ frames) = (q, n)" by fastforce
  from drop_overflow_spec [OF d] obtain pre where pre: "vb_frames b @ frames = pre @ q" "n = length pre"
    "length q \<le> kMaxQueued" "pre \<noteq> [] \<and> q \<noteq> [] \<longrightarrow> ef_frame_id (last pre) \<noteq> ef_frame_id (hd q)"
    "length (vb_frames b @ frames) \<le> kMaxQueued \<longrightarrow> pre = []" by blast
  then have "ef_frame_id ` set pre \<inter> ef_frame_id ` set q = {}"
    using split_sorted_ids [of ef_frame_id pre q] assms(3) by simp
  with pre show ?thesis using assms d by (intro exI [of _ pre]) (auto simp: push_frames_def kMaxQueued_def)
qed

section \<open>The bridge as a machine\<close>

text \<open>
  The calls made while the helper runs. \<^verbatim>\<open>set_prefs\<close> is not among them: it is
  called once, before any client connects, and is the one call that changes
  the bitrate without moving its generation.
\<close>

datatype video_call =
  SetBitrate u32
| SetClient fp bool bool
| ClearClient
| RequestIdr
| TakeFrames
| PublishStream encoder_stream_info bool
| PushFrames "encoded_frame list"

fun video_step :: "video_bridge \<Rightarrow> video_call \<Rightarrow> video_bridge" where
  "video_step b (SetBitrate r) = set_bitrate r b"
| "video_step b (SetClient hz h265 h264) = set_client hz h265 h264 b"
| "video_step b ClearClient = clear_client b"
| "video_step b RequestIdr = request_idr b"
| "video_step b TakeFrames = snd (take_frames b)"
| "video_step b (PublishStream i v) = publish_stream i v b"
| "video_step b (PushFrames fs) = push_frames fs b"

lemmas video_ops = set_bitrate_def set_client_def clear_client_def request_idr_def take_frames_def
  publish_stream_def push_frames_def

text \<open>Nothing is queued when there is no client, and never more than four entries.\<close>

definition video_wf :: "video_bridge \<Rightarrow> bool" where
  "video_wf b \<longleftrightarrow> length (vb_frames b) \<le> kMaxQueued \<and> (vb_frames b \<noteq> [] \<longrightarrow> vr_active (vb_request b))"

lemma video_wf_new: "video_wf (set_prefs r c a video_bridge_new)"
  by (simp add: video_wf_def set_prefs_def video_bridge_new_def)

lemma drop_overflow_bound: "drop_overflow q = (q', n) \<Longrightarrow> length q' \<le> kMaxQueued"
  using drop_overflow_spec by blast

interpretation video: machine_invariant video_step video_wf
proof
  fix b e assume "video_wf b"
  then show "video_wf (video_step b e)"
    by (cases e) (auto simp: video_wf_def video_ops Let_def dest: drop_overflow_bound split: prod.splits)
qed

lemma fp_eq_imp_eq: "fp_eq x y \<Longrightarrow> x = y"
  by (cases x; cases y) auto

text \<open>
  The four pieces of the request and of the stream description the other
  thread follows by a counter.
\<close>

interpretation stream_cell: generation_cell video_step video_wf
    "\<lambda>b. (ss_info (vb_stream b), ss_valid (vb_stream b))" "\<lambda>b. ss_generation (vb_stream b)"
proof
  fix b e
  show "ss_generation (vb_stream (video_step b e)) = ss_generation (vb_stream b) + 1 \<or>
    ss_generation (vb_stream (video_step b e)) = ss_generation (vb_stream b) \<and>
    (ss_info (vb_stream (video_step b e)), ss_valid (vb_stream (video_step b e))) =
    (ss_info (vb_stream b), ss_valid (vb_stream b))"
    by (cases e) (simp_all add: video_ops Let_def split: prod.splits)
qed

interpretation bitrate_cell: generation_cell video_step video_wf
    "\<lambda>b. vr_bitrate_bps (vb_request b)" "\<lambda>b. vr_bitrate_generation (vb_request b)"
proof
  fix b e
  show "vr_bitrate_generation (vb_request (video_step b e)) = vr_bitrate_generation (vb_request b) + 1 \<or>
    vr_bitrate_generation (vb_request (video_step b e)) = vr_bitrate_generation (vb_request b) \<and>
    vr_bitrate_bps (vb_request (video_step b e)) = vr_bitrate_bps (vb_request b)"
    by (cases e) (simp_all add: video_ops Let_def split: prod.splits)
qed

interpretation client_config_cell: generation_cell video_step video_wf
    "\<lambda>b. (vr_refresh_hz (vb_request b), vr_allow_h265 (vb_request b), vr_allow_h264 (vb_request b))"
    "\<lambda>b. vr_config_generation (vb_request b)"
proof
  fix b e
  show "vr_config_generation (vb_request (video_step b e)) = vr_config_generation (vb_request b) + 1 \<or>
    vr_config_generation (vb_request (video_step b e)) = vr_config_generation (vb_request b) \<and>
    (vr_refresh_hz (vb_request (video_step b e)), vr_allow_h265 (vb_request (video_step b e)),
      vr_allow_h264 (vb_request (video_step b e))) =
    (vr_refresh_hz (vb_request b), vr_allow_h265 (vb_request b), vr_allow_h264 (vb_request b))"
    by (cases e) (auto simp: video_ops Let_def dest: fp_eq_imp_eq split: prod.splits)
qed

text \<open>
  An encoder thread that compares generations misses nothing. If it looked
  at the bridge in some state and looks again after any run of calls (fewer
  than \<open>2 ^ 64\<close>), then an unchanged bitrate generation means an unchanged
  bitrate, an unchanged configuration generation unchanged refresh rate and
  codecs, and an unchanged stream generation an unchanged description.
\<close>

theorem unchanged_generation_unchanged_value:
  assumes "video_wf b" and "length es < 2 ^ 64" and "b' = foldl video_step b es"
  shows "(vr_bitrate_generation (vb_request b') = vr_bitrate_generation (vb_request b)
      \<longrightarrow> vr_bitrate_bps (vb_request b') = vr_bitrate_bps (vb_request b))
    \<and> (vr_config_generation (vb_request b') = vr_config_generation (vb_request b)
      \<longrightarrow> vr_refresh_hz (vb_request b') = vr_refresh_hz (vb_request b)
        \<and> vr_allow_h265 (vb_request b') = vr_allow_h265 (vb_request b)
        \<and> vr_allow_h264 (vb_request b') = vr_allow_h264 (vb_request b))
    \<and> (ss_generation (vb_stream b') = ss_generation (vb_stream b)
      \<longrightarrow> ss_info (vb_stream b') = ss_info (vb_stream b) \<and> ss_valid (vb_stream b') = ss_valid (vb_stream b))"
  using bitrate_cell.same_gen_same_val [OF assms(1,2)] client_config_cell.same_gen_same_val [OF assms(1,2)]
    stream_cell.same_gen_same_val [OF assms(1,2)] assms(3) by simp

text \<open>
  A client that connects after the previous one was cleared always gets a
  fresh encoder and a key frame, at the command line's bitrate, with none of
  the previous session's frames left in the queue; and the codecs asked for
  are those it offered, less the one the command line rules out.
\<close>

theorem new_client_starts_clean:
  assumes "b1 = foldl video_step (set_prefs rate codec_pref adaptive video_bridge_new) es"
    and "b2 = set_client hz h265 h264 (clear_client b1)"
  shows "vr_active (vb_request b2) \<and> vb_frames b2 = []
    \<and> vr_bitrate_bps (vb_request b2) = rate
    \<and> vr_idr_generation (vb_request b2) = vr_idr_generation (vb_request b1) + 1
    \<and> vr_config_generation (vb_request b2) = vr_config_generation (vb_request b1) + 1
    \<and> vr_allow_h265 (vb_request b2) = (h265 \<and> codec_pref \<noteq> 1)
    \<and> vr_allow_h264 (vb_request b2) = (h264 \<and> codec_pref \<noteq> 2)"
proof -
  have prefs: "vb_prefs (foldl video_step b es) = vb_prefs b" for b es
  proof (induction es arbitrary: b)
    case (Cons e es)
    have "vb_prefs (video_step b e) = vb_prefs b"
      by (cases e) (simp_all add: vb_prefs_def video_ops Let_def split: prod.splits)
    with Cons.IH show ?case by simp
  qed simp
  have "vb_pref_bitrate_bps b1 = rate" "vb_pref_codec b1 = codec_pref"
    using prefs [of "set_prefs rate codec_pref adaptive video_bridge_new" es] assms(1)
    by (simp_all add: vb_prefs_def set_prefs_def)
  moreover have "video_wf b1" using video.inv_run [OF video_wf_new] assms(1) by simp
  ultimately show ?thesis
    using assms(2) by (auto simp: clear_client_def set_client_def video_wf_def Let_def)
qed

section \<open>Witnesses\<close>

definition eye :: "u64 \<Rightarrow> u8 \<Rightarrow> encoded_frame" where
  "eye fid stream = \<lparr>ef_frame_id = fid, ef_sample_time_qpc = 0, ef_predict_s = 0, ef_pose_q = (0, 0, 0, 0),
     ef_pose_p = (0, 0, 0), ef_stream_index = stream, ef_idr = False, ef_data = [1]\<rparr>"

definition full_bridge :: video_bridge where
  "full_bridge = foldl video_step (set_prefs 30000000 2 True video_bridge_new)
     [SetClient (Num 72) True True, PushFrames [eye 1 0, eye 1 1], PushFrames [eye 2 0, eye 2 1]]"

lemma full_bridge_frames: "vb_frames full_bridge = [eye 1 0, eye 1 1, eye 2 0, eye 2 1]"
  by code_simp

theorem push_frames_whole_witness:
  "length (vb_frames (push_frames [eye 3 0, eye 3 1] full_bridge)) \<le> 4
   \<and> vb_frames (push_frames [eye 3 0, eye 3 1] full_bridge) = [eye 2 0, eye 2 1, eye 3 0, eye 3 1]"
proof -
  have "vr_active (vb_request full_bridge)" by code_simp
  moreover have "sorted (map ef_frame_id (vb_frames full_bridge @ [eye 3 0, eye 3 1]))"
    by (simp add: full_bridge_frames eye_def)
  moreover have "vb_frames (push_frames [eye 3 0, eye 3 1] full_bridge) = [eye 2 0, eye 2 1, eye 3 0, eye 3 1]"
    by code_simp
  ultimately show ?thesis using push_frames_whole [of full_bridge "[eye 3 0, eye 3 1]"] by auto
qed

theorem unchanged_generation_unchanged_value_witness:
  "vr_bitrate_bps (vb_request (foldl video_step full_bridge [RequestIdr, SetBitrate 30000000])) =
     vr_bitrate_bps (vb_request full_bridge)"
proof -
  have "video_wf full_bridge"
    using video.inv_run [OF video_wf_new] by (simp only: full_bridge_def)
  moreover have "vr_bitrate_generation (vb_request (foldl video_step full_bridge [RequestIdr, SetBitrate 30000000])) =
      vr_bitrate_generation (vb_request full_bridge)" by code_simp
  ultimately show ?thesis
    using unchanged_generation_unchanged_value [of full_bridge "[RequestIdr, SetBitrate 30000000]", OF _ _ refl]
    by simp
qed

theorem new_client_starts_clean_witness:
  "vb_frames (set_client (Num 90) True True (clear_client full_bridge)) = []
   \<and> \<not> vr_allow_h264 (vb_request (set_client (Num 90) True True (clear_client full_bridge)))"
  using new_client_starts_clean [OF full_bridge_def refl, of "Num 90" True True] by simp

end
