(* ===== verification/Video_Intake.thy ===== *)
theory Video_Intake
  imports Video_Bridge "HOL-Library.Multiset"
begin

text \<open>
  Frame intake: \<^verbatim>\<open>helper/src/video_intake.h\<close> and \<^verbatim>\<open>video_intake.cpp\<close>. The calls of
  the pipe read loop are atomic (each runs under \<^verbatim>\<open>mutex_\<close>). The encoder thread
  is a program counter and a step function: one step is what the thread does
  between two moments at which another thread can observe or change what it
  shares, that is one locked section or one call on the video bridge. The
  encoder behind \<^verbatim>\<open>IVideoEncoder\<close> is a parameter: a state \<open>'e\<close> and its five
  virtual functions.
\<close>

section \<open>State\<close>

record 'e encoder_env =
  en_configure :: "staging_config \<Rightarrow> u32 \<Rightarrow> encoder_config \<Rightarrow> 'e \<Rightarrow> bool \<times> 'e"
  en_shutdown :: "'e \<Rightarrow> 'e"
  en_set_bitrate :: "u32 \<Rightarrow> 'e \<Rightarrow> 'e"
  en_stream_info :: "'e \<Rightarrow> encoder_stream_info"
  en_encode :: "frame_ready \<Rightarrow> bool \<Rightarrow> 'e \<Rightarrow> encode_result \<times> encoded_frame list \<times> 'e"

definition kDoneEncoded :: u32 where "kDoneEncoded = 0"
definition kDoneDropped :: u32 where "kDoneDropped = 1"
definition kMaxDone :: nat where "kMaxDone = 8"

text \<open>
  \<open>vi_answered\<close> is a history variable: the list of all FrameDones ever queued,
  which no operation reads. Everything else is a member of \<^verbatim>\<open>VideoIntake\<close>;
  \<open>vi_encoder\<close> tells whether \<^verbatim>\<open>encoder_\<close> is non-null.
\<close>

record intake =
  vi_encoder :: bool
  vi_stop :: bool
  vi_vrserver_pid :: u32
  vi_staging :: "staging_config option"
  vi_staging_changed :: bool
  vi_pending :: "frame_ready option"
  vi_done :: "frame_done list"
  vi_encoder_ready :: bool
  vi_encoder_generation :: u32
  vi_encoder_config_generation :: u64
  vi_idr_seen :: u64
  vi_bitrate_seen :: u64
  vi_frames_seen :: u64
  vi_frames_encoded :: u64
  vi_frames_dropped :: u64
  vi_answered :: "frame_done list"

definition intake_new :: "bool \<Rightarrow> intake" where
  "intake_new encoder = \<lparr>vi_encoder = encoder, vi_stop = False, vi_vrserver_pid = 0, vi_staging = None,
     vi_staging_changed = False, vi_pending = None, vi_done = [], vi_encoder_ready = False,
     vi_encoder_generation = 0, vi_encoder_config_generation = 0, vi_idr_seen = 0, vi_bitrate_seen = 0,
     vi_frames_seen = 0, vi_frames_encoded = 0, vi_frames_dropped = 0, vi_answered = []\<rparr>"

section \<open>The pipe read loop's calls\<close>

definition push_done :: "u64 \<Rightarrow> u32 \<Rightarrow> u32 \<Rightarrow> intake \<Rightarrow> intake" where
  "push_done frame_id staging_index flags v =
     (let d = \<lparr>fd_frame_id = frame_id, fd_staging_index = staging_index, fd_flags = flags\<rparr>
      in v\<lparr>vi_done := push_bounded kMaxDone d (vi_done v), vi_answered := vi_answered v @ [d]\<rparr>)"

definition pop_done :: "intake \<Rightarrow> frame_done option \<times> intake" where
  "pop_done v = (case vi_done v of [] \<Rightarrow> (None, v) | d # ds \<Rightarrow> (Some d, v\<lparr>vi_done := ds\<rparr>))"

definition intake_stop :: "intake \<Rightarrow> intake" where
  "intake_stop v = v\<lparr>vi_stop := True\<rparr>"

definition set_vrserver_pid :: "u32 \<Rightarrow> intake \<Rightarrow> intake" where
  "set_vrserver_pid pid v = v\<lparr>vi_vrserver_pid := pid\<rparr>"

definition on_staging_config :: "staging_config \<Rightarrow> intake \<Rightarrow> intake" where
  "on_staging_config config v =
     (let v = (case vi_pending v of
                 Some f \<Rightarrow> if fr_generation f \<noteq> sc_generation config
                   then (push_done (fr_frame_id f) (fr_staging_index f) kDoneDropped v)\<lparr>vi_pending := None\<rparr>
                   else v
               | None \<Rightarrow> v)
      in v\<lparr>vi_staging := Some config, vi_staging_changed := True\<rparr>)"

definition on_frame_ready :: "frame_ready \<Rightarrow> video_bridge \<Rightarrow> intake \<Rightarrow> intake" where
  "on_frame_ready frame b v =
     (let v = v\<lparr>vi_frames_seen := vi_frames_seen v + 1\<rparr>;
          refuse = (\<lambda>v. (push_done (fr_frame_id frame) (fr_staging_index frame) kDoneDropped v)
                         \<lparr>vi_frames_dropped := vi_frames_dropped v + 1\<rparr>)
      in if (case vi_staging v of None \<Rightarrow> True
             | Some st \<Rightarrow> fr_generation frame \<noteq> sc_generation st \<or> sc_count st \<le> fr_staging_index frame)
         then refuse v
         else if \<not> vi_encoder v \<or> \<not> vr_active (vb_request b) then refuse v
         else
           let v = (case vi_pending v of
                      Some p \<Rightarrow> (push_done (fr_frame_id p) (fr_staging_index p) kDoneDropped v)
                                  \<lparr>vi_frames_dropped := vi_frames_dropped v + 1\<rparr>
                    | None \<Rightarrow> v)
           in v\<lparr>vi_pending := Some frame\<rparr>)"

definition on_shim_gone :: "intake \<Rightarrow> intake" where
  "on_shim_gone v =
     v\<lparr>vi_staging := None, vi_staging_changed := True, vi_pending := None, vi_done := []\<rparr>"

section \<open>The encoder thread\<close>

text \<open>
  Where the thread is: waiting on the condition variable; about to shut the
  encoder down after a staging change, with the lock released; about to take
  the lock again; in \<^verbatim>\<open>encode_one\<close> at its first lock, at the read of the request,
  at \<^verbatim>\<open>ensure_encoder\<close> with the request, at \<^verbatim>\<open>configure\<close>, at the answer for an
  encoder that is not ready, at \<^verbatim>\<open>encode\<close>, at the final lock; leaving \<^verbatim>\<open>run\<close>; gone.
\<close>

datatype enc_pc =
  PcWait
| PcTeardown
| PcRelock
| PcFrame frame_ready
| PcConfig frame_ready staging_config u32
| PcRequest frame_ready staging_config u32 video_request
| PcConfigure frame_ready staging_config u32 video_request
| PcNotReady frame_ready
| PcEncode frame_ready video_request
| PcEncoded frame_ready encode_result
| PcExit
| PcDone

record 'e helper =
  he_intake :: intake
  he_bridge :: video_bridge
  he_encoder :: 'e
  he_pc :: enc_pc

definition helper_new :: "bool \<Rightarrow> video_bridge \<Rightarrow> 'e \<Rightarrow> 'e helper" where
  "helper_new encoder b e = \<lparr>he_intake = intake_new encoder, he_bridge = b, he_encoder = e, he_pc = PcWait\<rparr>"

text \<open>The end of the locked section of \<^verbatim>\<open>run\<close>: take the pending frame, if any.\<close>

definition run_take :: "'e helper \<Rightarrow> 'e helper" where
  "run_take h =
     (case vi_pending (he_intake h) of
        None \<Rightarrow> h\<lparr>he_pc := PcWait\<rparr>
      | Some f \<Rightarrow> h\<lparr>he_intake := (he_intake h)\<lparr>vi_pending := None\<rparr>, he_pc := PcFrame f\<rparr>)"

definition run_wait :: "'e helper \<Rightarrow> 'e helper" where
  "run_wait h =
     (let v = he_intake h
      in if \<not> (vi_stop v \<or> vi_pending v \<noteq> None \<or> vi_staging_changed v) then h
         else if vi_stop v then h\<lparr>he_pc := PcExit\<rparr>
         else if vi_staging_changed v then
           let h = h\<lparr>he_intake := v\<lparr>vi_staging_changed := False\<rparr>\<rparr>
           in if vi_encoder v \<and> vi_encoder_ready v then h\<lparr>he_pc := PcTeardown\<rparr> else run_take h
         else run_take h)"

definition run_teardown :: "'e encoder_env \<Rightarrow> 'e helper \<Rightarrow> 'e helper" where
  "run_teardown env h =
     h\<lparr>he_encoder := en_shutdown env (he_encoder h),
       he_bridge := publish_stream encoder_stream_info_new False (he_bridge h),
       he_pc := PcRelock\<rparr>"

definition run_relock :: "'e helper \<Rightarrow> 'e helper" where
  "run_relock h =
     run_take (h\<lparr>he_intake := (he_intake h)\<lparr>vi_encoder_ready := False, vi_encoder_generation := 0\<rparr>\<rparr>)"

definition answer :: "frame_ready \<Rightarrow> u32 \<Rightarrow> (intake \<Rightarrow> intake) \<Rightarrow> 'e helper \<Rightarrow> 'e helper" where
  "answer f flags counter h =
     h\<lparr>he_intake := push_done (fr_frame_id f) (fr_staging_index f) flags (counter (he_intake h)), he_pc := PcWait\<rparr>"

definition count_dropped :: "intake \<Rightarrow> intake" where
  "count_dropped v = v\<lparr>vi_frames_dropped := vi_frames_dropped v + 1\<rparr>"

definition count_encoded :: "intake \<Rightarrow> intake" where
  "count_encoded v = v\<lparr>vi_frames_encoded := vi_frames_encoded v + 1\<rparr>"

definition encode_one_staging :: "frame_ready \<Rightarrow> 'e helper \<Rightarrow> 'e helper" where
  "encode_one_staging f h =
     (case vi_staging (he_intake h) of
        None \<Rightarrow> answer f kDoneDropped (\<lambda>v. v) h
      | Some config \<Rightarrow> h\<lparr>he_pc := PcConfig f config (vi_vrserver_pid (he_intake h))\<rparr>)"

definition ensure_encoder_teardown ::
    "'e encoder_env \<Rightarrow> frame_ready \<Rightarrow> staging_config \<Rightarrow> u32 \<Rightarrow> video_request \<Rightarrow> 'e helper \<Rightarrow> 'e helper" where
  "ensure_encoder_teardown env f config pid rq h =
     (let v = he_intake h
      in if vi_encoder_ready v \<and> vi_encoder_generation v = sc_generation config
            \<and> vi_encoder_config_generation v = vr_config_generation rq
         then h\<lparr>he_pc := PcEncode f rq\<rparr>
         else if vi_encoder_ready v then
           h\<lparr>he_encoder := en_shutdown env (he_encoder h), he_intake := v\<lparr>vi_encoder_ready := False\<rparr>,
             he_bridge := publish_stream encoder_stream_info_new False (he_bridge h),
             he_pc := PcConfigure f config pid rq\<rparr>
         else h\<lparr>he_pc := PcConfigure f config pid rq\<rparr>)"

definition ensure_encoder_configure ::
    "'e encoder_env \<Rightarrow> frame_ready \<Rightarrow> staging_config \<Rightarrow> u32 \<Rightarrow> video_request \<Rightarrow> 'e helper \<Rightarrow> 'e helper" where
  "ensure_encoder_configure env f config pid rq h =
     (let v = he_intake h;
          cfg = \<lparr>ec_refresh_hz = vr_refresh_hz rq, ec_bitrate_bps = vr_bitrate_bps rq,
                 ec_allow_h265 = vr_allow_h265 rq, ec_allow_h264 = vr_allow_h264 rq\<rparr>
      in case en_configure env config pid cfg (he_encoder h) of
           (False, e) \<Rightarrow>
             h\<lparr>he_encoder := e,
               he_intake := v\<lparr>vi_encoder_config_generation := vr_config_generation rq,
                 vi_encoder_generation := sc_generation config\<rparr>,
               he_pc := PcNotReady f\<rparr>
         | (True, e) \<Rightarrow>
             h\<lparr>he_encoder := e,
               he_intake := v\<lparr>vi_encoder_ready := True, vi_encoder_generation := sc_generation config,
                 vi_encoder_config_generation := vr_config_generation rq, vi_idr_seen := 0,
                 vi_bitrate_seen := vr_bitrate_generation rq\<rparr>,
               he_bridge := publish_stream (en_stream_info env e) True (he_bridge h),
               he_pc := PcEncode f rq\<rparr>)"

definition force_idr :: "video_request \<Rightarrow> intake \<Rightarrow> bool" where
  "force_idr rq v \<longleftrightarrow> vr_idr_generation rq \<noteq> vi_idr_seen v"

definition encode_one_encode :: "'e encoder_env \<Rightarrow> frame_ready \<Rightarrow> video_request \<Rightarrow> 'e helper \<Rightarrow> 'e helper" where
  "encode_one_encode env f rq h =
     (let v = he_intake h;
          (v, e) = (if vr_bitrate_generation rq \<noteq> vi_bitrate_seen v
                    then (v\<lparr>vi_bitrate_seen := vr_bitrate_generation rq\<rparr>,
                          en_set_bitrate env (vr_bitrate_bps rq) (he_encoder h))
                    else (v, he_encoder h))
      in case en_encode env f (force_idr rq v) e of (result, encoded, e) \<Rightarrow>
        let h = h\<lparr>he_pc := PcEncoded f result\<rparr>
        in case result of
             EncFatal \<Rightarrow>
               h\<lparr>he_encoder := en_shutdown env e, he_intake := v\<lparr>vi_encoder_ready := False\<rparr>,
                 he_bridge := publish_stream encoder_stream_info_new False (he_bridge h)\<rparr>
           | EncOk \<Rightarrow>
               h\<lparr>he_encoder := e,
                 he_intake := (if force_idr rq v then v\<lparr>vi_idr_seen := vr_idr_generation rq\<rparr> else v),
                 he_bridge := push_frames encoded (he_bridge h)\<rparr>
           | EncDropped \<Rightarrow> h\<lparr>he_encoder := e, he_intake := v\<rparr>)"

fun enc_step :: "'e encoder_env \<Rightarrow> enc_pc \<Rightarrow> 'e helper \<Rightarrow> 'e helper" where
  "enc_step env PcWait h = run_wait h"
| "enc_step env PcTeardown h = run_teardown env h"
| "enc_step env PcRelock h = run_relock h"
| "enc_step env (PcFrame f) h = encode_one_staging f h"
| "enc_step env (PcConfig f config pid) h = h\<lparr>he_pc := PcRequest f config pid (vb_request (he_bridge h))\<rparr>"
| "enc_step env (PcRequest f config pid rq) h =
     (if \<not> vr_active rq then answer f kDoneDropped count_dropped h
      else ensure_encoder_teardown env f config pid rq h)"
| "enc_step env (PcConfigure f config pid rq) h = ensure_encoder_configure env f config pid rq h"
| "enc_step env (PcNotReady f) h = answer f kDoneDropped count_dropped h"
| "enc_step env (PcEncode f rq) h = encode_one_encode env f rq h"
| "enc_step env (PcEncoded f result) h =
     (if result = EncOk then answer f kDoneEncoded count_encoded h
      else answer f kDoneDropped count_dropped h)"
| "enc_step env PcExit h =
     (if vi_encoder (he_intake h) then h\<lparr>he_encoder := en_shutdown env (he_encoder h), he_pc := PcDone\<rparr>
      else h\<lparr>he_pc := PcDone\<rparr>)"
| "enc_step env PcDone h = h"

section \<open>The three threads together\<close>

datatype helper_event =
  Pid u32
| Staging staging_config
| FrameReadyMsg frame_ready
| ShimGone
| PopDone
| Session video_call
| EncoderThread
| Stop

fun helper_step :: "'e encoder_env \<Rightarrow> 'e helper \<Rightarrow> helper_event \<Rightarrow> 'e helper" where
  "helper_step env h (Pid p) = h\<lparr>he_intake := set_vrserver_pid p (he_intake h)\<rparr>"
| "helper_step env h (Staging c) = h\<lparr>he_intake := on_staging_config c (he_intake h)\<rparr>"
| "helper_step env h (FrameReadyMsg f) = h\<lparr>he_intake := on_frame_ready f (he_bridge h) (he_intake h)\<rparr>"
| "helper_step env h ShimGone = h\<lparr>he_intake := on_shim_gone (he_intake h)\<rparr>"
| "helper_step env h PopDone = h\<lparr>he_intake := snd (pop_done (he_intake h))\<rparr>"
| "helper_step env h (Session c) = h\<lparr>he_bridge := video_step (he_bridge h) c\<rparr>"
| "helper_step env h EncoderThread = enc_step env (he_pc h) h"
| "helper_step env h Stop = h\<lparr>he_intake := intake_stop (he_intake h)\<rparr>"

lemmas pipe_ops = push_done_def pop_done_def intake_stop_def set_vrserver_pid_def on_staging_config_def
  on_frame_ready_def on_shim_gone_def

lemmas thread_ops = run_take_def run_wait_def run_teardown_def run_relock_def answer_def count_dropped_def
  count_encoded_def encode_one_staging_def ensure_encoder_teardown_def ensure_encoder_configure_def
  encode_one_encode_def

text \<open>The state in which \<^verbatim>\<open>encode\<close> is called, and the three ways it goes on.\<close>

lemma encode_one_encode_cases:
  obtains v e result encoded e' where
    "v = he_intake h \<or> v = (he_intake h)\<lparr>vi_bitrate_seen := vr_bitrate_generation rq\<rparr>"
    "e = he_encoder h \<or> e = en_set_bitrate env (vr_bitrate_bps rq) (he_encoder h)"
    "en_encode env f (force_idr rq (he_intake h)) e = (result, encoded, e')"
    "result = EncFatal \<Longrightarrow> encode_one_encode env f rq h = h\<lparr>he_pc := PcEncoded f EncFatal,
       he_encoder := en_shutdown env e', he_intake := v\<lparr>vi_encoder_ready := False\<rparr>,
       he_bridge := publish_stream encoder_stream_info_new False (he_bridge h)\<rparr>"
    "result = EncOk \<Longrightarrow> encode_one_encode env f rq h = h\<lparr>he_pc := PcEncoded f EncOk, he_encoder := e',
       he_intake := (if force_idr rq (he_intake h) then v\<lparr>vi_idr_seen := vr_idr_generation rq\<rparr> else v),
       he_bridge := push_frames encoded (he_bridge h)\<rparr>"
    "result = EncDropped \<Longrightarrow> encode_one_encode env f rq h =
       h\<lparr>he_pc := PcEncoded f EncDropped, he_encoder := e', he_intake := v\<rparr>"
proof -
  let ?c = "vr_bitrate_generation rq \<noteq> vi_bitrate_seen (he_intake h)"
  define v where "v = (if ?c then (he_intake h)\<lparr>vi_bitrate_seen := vr_bitrate_generation rq\<rparr> else he_intake h)"
  define e where "e = (if ?c then en_set_bitrate env (vr_bitrate_bps rq) (he_encoder h) else he_encoder h)"
  obtain result encoded e' where r: "en_encode env f (force_idr rq v) e = (result, encoded, e')"
    by (cases "en_encode env f (force_idr rq v) e")
  have "(if ?c then ((he_intake h)\<lparr>vi_bitrate_seen := vr_bitrate_generation rq\<rparr>,
      en_set_bitrate env (vr_bitrate_bps rq) (he_encoder h)) else (he_intake h, he_encoder h)) = (v, e)"
    by (simp add: v_def e_def)
  moreover have "force_idr rq v = force_idr rq (he_intake h)" by (simp add: force_idr_def v_def)
  ultimately show ?thesis
    by (intro that [of v e result encoded e'])
      (use r in \<open>simp_all add: encode_one_encode_def Let_def\<close>, auto simp: v_def e_def)
qed

text \<open>What \<^verbatim>\<open>encode\<close> leaves alone, whichever way it goes.\<close>

lemma encode_one_encode_keeps:
  "vi_pending (he_intake (encode_one_encode env f rq h)) = vi_pending (he_intake h)"
  "vi_stop (he_intake (encode_one_encode env f rq h)) = vi_stop (he_intake h)"
  "vi_answered (he_intake (encode_one_encode env f rq h)) = vi_answered (he_intake h)"
  "\<exists>r. he_pc (encode_one_encode env f rq h) = PcEncoded f r"
  by (simp_all add: encode_one_encode_def Let_def split: prod.splits encode_result.splits)

lemma frame_done_collapse [simp]:
  "\<lparr>fd_frame_id = fd_frame_id d, fd_staging_index = fd_staging_index d, fd_flags = fd_flags d\<rparr> = d"
  by (cases d) simp

interpretation done_queue: bounded_fifo vi_done
    "\<lambda>d. push_done (fd_frame_id d) (fd_staging_index d) (fd_flags d)" pop_done kMaxDone
  by unfold_locales (simp_all add: push_done_def pop_done_def kMaxDone_def Let_def)

section \<open>Every frame is answered exactly once\<close>

definition frame_key :: "frame_ready \<Rightarrow> u64 \<times> u32" where
  "frame_key f = (fr_frame_id f, fr_staging_index f)"

definition done_key :: "frame_done \<Rightarrow> u64 \<times> u32" where
  "done_key d = (fd_frame_id d, fd_staging_index d)"

fun pc_frame :: "enc_pc \<Rightarrow> frame_ready option" where
  "pc_frame (PcFrame f) = Some f"
| "pc_frame (PcConfig f c p) = Some f"
| "pc_frame (PcRequest f c p rq) = Some f"
| "pc_frame (PcConfigure f c p rq) = Some f"
| "pc_frame (PcNotReady f) = Some f"
| "pc_frame (PcEncode f rq) = Some f"
| "pc_frame (PcEncoded f r) = Some f"
| "pc_frame _ = None"

definition keys_of :: "frame_ready option \<Rightarrow> (u64 \<times> u32) multiset" where
  "keys_of x = (case x of None \<Rightarrow> {#} | Some f \<Rightarrow> {#frame_key f#})"

lemma keys_of_simps [simp]: "keys_of None = {#}" "keys_of (Some f) = {#frame_key f#}"
  by (simp_all add: keys_of_def)

text \<open>The frames taken and not answered: the pending one and the encoder thread's own.\<close>

definition owed :: "'e helper \<Rightarrow> (u64 \<times> u32) multiset" where
  "owed h = keys_of (vi_pending (he_intake h)) + keys_of (pc_frame (he_pc h))"

definition answers :: "'e helper \<Rightarrow> (u64 \<times> u32) multiset" where
  "answers h = mset (map done_key (vi_answered (he_intake h)))"

fun asked :: "helper_event \<Rightarrow> (u64 \<times> u32) multiset" where
  "asked (FrameReadyMsg f) = {#frame_key f#}"
| "asked _ = {#}"

lemmas ledger_defs = owed_def answers_def frame_key_def done_key_def

lemma enc_step_ledger:
  assumes "pc = he_pc h"
  shows "answers (enc_step env pc h) + owed (enc_step env pc h) = answers h + owed h"
proof (cases pc)
  case PcWait
  then show ?thesis using assms by (auto simp: thread_ops ledger_defs Let_def split: option.splits)
next
  case (PcFrame f)
  then show ?thesis using assms [symmetric]
    by (auto simp: thread_ops push_done_def ledger_defs Let_def split: option.splits)
next
  case (PcRequest f c p rq)
  then show ?thesis using assms [symmetric] by (auto simp: thread_ops push_done_def ledger_defs Let_def)
next
  case (PcConfigure f c p rq)
  then show ?thesis using assms [symmetric]
    by (auto simp: thread_ops ledger_defs Let_def split: prod.splits bool.splits)
next
  case (PcEncode f rq)
  obtain r where "he_pc (encode_one_encode env f rq h) = PcEncoded f r" using encode_one_encode_keeps(4) by blast
  with PcEncode assms [symmetric] show ?thesis by (simp add: ledger_defs encode_one_encode_keeps)
next
  case PcRelock
  then show ?thesis using assms [symmetric] by (auto simp: thread_ops ledger_defs Let_def split: option.splits)
qed (use assms [symmetric] in \<open>auto simp: thread_ops push_done_def ledger_defs Let_def\<close>)

lemma helper_step_ledger:
  assumes "e \<noteq> ShimGone"
  shows "answers (helper_step env h e) + owed (helper_step env h e) = answers h + owed h + asked e"
proof (cases e)
  case EncoderThread
  then show ?thesis using enc_step_ledger [of "he_pc h" h env] by simp
next
  case (Staging c)
  then show ?thesis by (auto simp: pipe_ops ledger_defs Let_def split: option.splits)
next
  case (FrameReadyMsg f)
  then show ?thesis by (auto simp: pipe_ops ledger_defs Let_def split: option.splits)
next
  case PopDone
  then show ?thesis by (auto simp: pipe_ops ledger_defs split: list.splits)
qed (use assms in \<open>auto simp: pipe_ops ledger_defs\<close>)

text \<open>
  C1. The ledger of frames. For every interleaving of the pipe loop, the
  session and the encoder thread, on any encoder, as long as the shim stays
  connected: the FrameDones queued plus the frames still in hand are, as a
  multiset, exactly the FrameReadys received. So every frame is answered at
  most once, and a frame that is neither pending nor in the encoder thread has
  been answered.
\<close>

theorem every_frame_answered_once:
  assumes "ShimGone \<notin> set es" and "h' = foldl (helper_step env) h es"
  shows "answers h' + owed h' = answers h + owed h + (\<Sum>e \<leftarrow> es. asked e)"
  using assms
proof (induction es arbitrary: h)
  case (Cons e es)
  then have "answers h' + owed h' =
      answers (helper_step env h e) + owed (helper_step env h e) + (\<Sum>e \<leftarrow> es. asked e)" by simp
  also have "\<dots> = answers h + owed h + asked e + (\<Sum>e \<leftarrow> es. asked e)"
    using helper_step_ledger [of e env h] Cons.prems(1) by auto
  finally show ?case by (simp add: ac_simps)
qed simp

section \<open>The encoder thread answers\<close>

text \<open>Steps the thread still needs to have answered everything it owes.\<close>

fun pc_rank :: "bool \<Rightarrow> enc_pc \<Rightarrow> nat" where
  "pc_rank pend PcWait = (if pend then 9 else 0)"
| "pc_rank pend PcTeardown = (if pend then 8 else 0)"
| "pc_rank pend PcRelock = (if pend then 7 else 0)"
| "pc_rank pend (PcFrame f) = (if pend then 15 else 6)"
| "pc_rank pend (PcConfig f c p) = (if pend then 14 else 5)"
| "pc_rank pend (PcRequest f c p rq) = (if pend then 13 else 4)"
| "pc_rank pend (PcConfigure f c p rq) = (if pend then 12 else 3)"
| "pc_rank pend (PcEncode f rq) = (if pend then 11 else 2)"
| "pc_rank pend (PcNotReady f) = (if pend then 10 else 1)"
| "pc_rank pend (PcEncoded f r) = (if pend then 10 else 1)"
| "pc_rank pend _ = 0"

definition work_left :: "'e helper \<Rightarrow> nat" where
  "work_left h = pc_rank (vi_pending (he_intake h) \<noteq> None) (he_pc h)"

definition alive :: "'e helper \<Rightarrow> bool" where
  "alive h \<longleftrightarrow> \<not> vi_stop (he_intake h) \<and> he_pc h \<noteq> PcExit \<and> he_pc h \<noteq> PcDone"

lemma enc_step_progress:
  assumes "alive h"
  shows "alive (enc_step env (he_pc h) h) \<and> work_left (enc_step env (he_pc h) h) \<le> work_left h - 1"
proof (cases "he_pc h")
  case PcWait
  then show ?thesis using assms
    by (auto simp: thread_ops work_left_def alive_def Let_def split: option.splits)
next
  case (PcFrame f)
  then show ?thesis using assms
    by (auto simp: thread_ops push_done_def work_left_def alive_def Let_def split: option.splits)
next
  case (PcConfigure f c p rq)
  then show ?thesis using assms
    by (auto simp: thread_ops work_left_def alive_def Let_def split: prod.splits bool.splits)
next
  case (PcEncode f rq)
  obtain r where "he_pc (encode_one_encode env f rq h) = PcEncoded f r" using encode_one_encode_keeps(4) by blast
  with PcEncode assms show ?thesis by (simp add: work_left_def alive_def encode_one_encode_keeps)
next
  case PcRelock
  then show ?thesis using assms
    by (auto simp: thread_ops work_left_def alive_def Let_def split: option.splits)
qed (use assms in \<open>auto simp: thread_ops push_done_def work_left_def alive_def Let_def\<close>)

lemma enc_steps_progress:
  "alive h \<Longrightarrow> alive (foldl (helper_step env) h (replicate n EncoderThread))
     \<and> work_left (foldl (helper_step env) h (replicate n EncoderThread)) \<le> work_left h - n"
proof (induction n arbitrary: h)
  case (Suc n)
  from enc_step_progress [OF Suc.prems, of env] Suc.IH [of "enc_step env (he_pc h) h"]
  show ?case by (auto intro: order_trans)
qed simp

lemma work_left_bound: "work_left h \<le> 15"
  by (cases "he_pc h") (auto simp: work_left_def)

lemma no_work_owes_nothing: "alive h \<Longrightarrow> work_left h = 0 \<Longrightarrow> owed h = {#}"
  by (cases "he_pc h") (auto simp: work_left_def owed_def alive_def split: if_splits)

text \<open>
  C2. No frame is stuck. From any state of the helper that is not shutting
  down, fifteen steps of the encoder thread are enough to have answered every
  frame in hand, however the encoder behaves (it may refuse to configure, drop
  or fail).
\<close>

theorem frames_answered_within_15_steps:
  assumes "alive h" and "h' = foldl (helper_step env) h (replicate 15 EncoderThread)"
  shows "owed h' = {#} \<and> answers h' = answers h + owed h"
proof -
  have "alive h'" "work_left h' = 0"
    using enc_steps_progress [OF assms(1), of env 15] work_left_bound [of h] assms(2) by auto
  then have "owed h' = {#}" by (rule no_work_owes_nothing)
  moreover have "answers (foldl (helper_step env) h (replicate n EncoderThread))
      + owed (foldl (helper_step env) h (replicate n EncoderThread)) = answers h + owed h" for n
  proof (induction n arbitrary: h)
    case (Suc n)
    then show ?case using enc_step_ledger [of "he_pc h" h env] by simp
  qed simp
  ultimately show ?thesis using assms(2) by (metis add.right_neutral)
qed

section \<open>The encoder's call protocol\<close>

text \<open>
  An encoder with a monitor around it: whether it is configured, whether it has
  produced a frame since, and whether a call came that \<^verbatim>\<open>IVideoEncoder\<close> does not
  expect. Configuring a configured encoder, encoding or setting the bitrate of
  one that is not configured, and encoding the first frame of a new encoder
  without asking for a key frame are such calls.
\<close>

record 'e monitored =
  mo_inner :: 'e
  mo_ready :: bool
  mo_fresh :: bool
  mo_bad :: bool

definition monitor :: "'e encoder_env \<Rightarrow> 'e monitored encoder_env" where
  "monitor env = \<lparr>
     en_configure = (\<lambda>c p cfg m. case en_configure env c p cfg (mo_inner m) of (ok, e) \<Rightarrow>
       (ok, \<lparr>mo_inner = e, mo_ready = ok, mo_fresh = ok, mo_bad = mo_bad m \<or> mo_ready m\<rparr>)),
     en_shutdown = (\<lambda>m. m\<lparr>mo_inner := en_shutdown env (mo_inner m), mo_ready := False, mo_fresh := False\<rparr>),
     en_set_bitrate = (\<lambda>r m. m\<lparr>mo_inner := en_set_bitrate env r (mo_inner m), mo_bad := mo_bad m \<or> \<not> mo_ready m\<rparr>),
     en_stream_info = (\<lambda>m. en_stream_info env (mo_inner m)),
     en_encode = (\<lambda>f idr m. case en_encode env f idr (mo_inner m) of (res, fs, e) \<Rightarrow>
       (res, fs, m\<lparr>mo_inner := e, mo_fresh := mo_fresh m \<and> res \<noteq> EncOk,
                   mo_bad := mo_bad m \<or> \<not> mo_ready m \<or> (mo_fresh m \<and> \<not> idr)\<rparr>))\<rparr>"

text \<open>
  A request the session has made for an active client carries a key-frame
  generation other than 0, as long as it moved fewer than \<open>2 ^ 64\<close> times.
\<close>

definition idr_counted :: "nat \<Rightarrow> video_request \<Rightarrow> bool" where
  "idr_counted n rq \<longleftrightarrow> (\<exists>k \<le> n. vr_idr_generation rq = of_nat k \<and> (vr_active rq \<longrightarrow> 0 < k))"

lemma idr_counted_mono: "idr_counted n rq \<Longrightarrow> n \<le> m \<Longrightarrow> idr_counted m rq"
  unfolding idr_counted_def by (meson le_trans)

lemma idr_counted_pos: "idr_counted n rq \<Longrightarrow> vr_active rq \<Longrightarrow> n < 2 ^ 64 \<Longrightarrow> vr_idr_generation rq \<noteq> 0"
  unfolding idr_counted_def by (metis le_less_trans of_nat_small_zero)

lemma idr_counted_Suc:
  assumes "idr_counted n rq" and "vr_idr_generation rq' = vr_idr_generation rq + 1"
  shows "idr_counted (Suc n) rq'"
proof -
  obtain k where "k \<le> n" "vr_idr_generation rq = of_nat k" using assms(1) by (auto simp: idr_counted_def)
  then show ?thesis using assms(2) by (auto simp: idr_counted_def intro!: exI [of _ "Suc k"])
qed

lemma video_step_idr:
  assumes "idr_counted n (vb_request b)"
  shows "idr_counted (Suc n) (vb_request (video_step b c))"
proof (cases "vr_idr_generation (vb_request (video_step b c)) = vr_idr_generation (vb_request b) + 1")
  case True
  then show ?thesis using idr_counted_Suc [OF assms] by simp
next
  case False
  then have "vr_idr_generation (vb_request (video_step b c)) = vr_idr_generation (vb_request b)
      \<and> (vr_active (vb_request (video_step b c)) \<longrightarrow> vr_active (vb_request b))"
    by (cases c) (auto simp: video_ops Let_def split: prod.splits if_splits)
  then show ?thesis using assms unfolding idr_counted_def by (metis le_SucI)
qed

lemma bridge_idr_same [simp]:
  "idr_counted n (vb_request (publish_stream i x b)) = idr_counted n (vb_request b)"
  "idr_counted n (vb_request (push_frames fs b)) = idr_counted n (vb_request b)"
  by (auto simp: publish_stream_def push_frames_def split: prod.splits)

fun pc_request_ok :: "nat \<Rightarrow> enc_pc \<Rightarrow> bool" where
  "pc_request_ok n (PcRequest f c p rq) = idr_counted n rq"
| "pc_request_ok n (PcConfigure f c p rq) = (idr_counted n rq \<and> vr_active rq)"
| "pc_request_ok n (PcEncode f rq) = (idr_counted n rq \<and> vr_active rq)"
| "pc_request_ok n _ = True"

lemma pc_request_ok_mono: "pc_request_ok n pc \<Longrightarrow> n \<le> m \<Longrightarrow> pc_request_ok m pc"
  by (cases pc) (auto intro: idr_counted_mono)

fun pc_encoder_ok :: "bool \<Rightarrow> 'e monitored \<Rightarrow> enc_pc \<Rightarrow> bool" where
  "pc_encoder_ok ready m PcRelock = (\<not> mo_ready m)"
| "pc_encoder_ok ready m PcDone = True"
| "pc_encoder_ok ready m (PcConfigure f c p rq) = (\<not> mo_ready m \<and> \<not> ready)"
| "pc_encoder_ok ready m (PcEncode f rq) = (mo_ready m \<and> ready)"
| "pc_encoder_ok ready m _ = (ready = mo_ready m)"

definition protocol_inv :: "nat \<Rightarrow> 'e monitored helper \<Rightarrow> bool" where
  "protocol_inv n h \<longleftrightarrow> \<not> mo_bad (he_encoder h) \<and> idr_counted n (vb_request (he_bridge h))
     \<and> pc_request_ok n (he_pc h) \<and> pc_encoder_ok (vi_encoder_ready (he_intake h)) (he_encoder h) (he_pc h)
     \<and> (mo_fresh (he_encoder h) \<longrightarrow> mo_ready (he_encoder h) \<and> vi_idr_seen (he_intake h) = 0)"

lemma pipe_keeps_encoder_state:
  "vi_encoder_ready (on_staging_config c v) = vi_encoder_ready v"
  "vi_idr_seen (on_staging_config c v) = vi_idr_seen v"
  "vi_encoder_ready (on_frame_ready f b v) = vi_encoder_ready v"
  "vi_idr_seen (on_frame_ready f b v) = vi_idr_seen v"
  "vi_encoder_ready (push_done i j k v) = vi_encoder_ready v"
  "vi_idr_seen (push_done i j k v) = vi_idr_seen v"
  "vi_encoder_ready (snd (pop_done v)) = vi_encoder_ready v"
  "vi_idr_seen (snd (pop_done v)) = vi_idr_seen v"
  by (simp_all add: pipe_ops Let_def split: option.splits list.splits)

lemma protocol_encode:
  assumes "protocol_inv n h" and "he_pc h = PcEncode f rq" and "n < 2 ^ 64"
  shows "protocol_inv n (encode_one_encode (monitor env) f rq h)"
proof -
  have rq: "idr_counted n rq" "vr_active rq" "vr_idr_generation rq \<noteq> 0"
    and inv: "mo_ready (he_encoder h)" "vi_encoder_ready (he_intake h)" "\<not> mo_bad (he_encoder h)"
      "idr_counted n (vb_request (he_bridge h))" "mo_fresh (he_encoder h) \<Longrightarrow> vi_idr_seen (he_intake h) = 0"
    using assms idr_counted_pos [of n rq] by (auto simp: protocol_inv_def)
  have idr: "mo_fresh (he_encoder h) \<Longrightarrow> force_idr rq (he_intake h)"
    using rq inv by (simp add: force_idr_def)
  show ?thesis
  proof (cases rule: encode_one_encode_cases [of h rq "monitor env" f])
    case (1 v e result encoded e')
    have e: "mo_ready e" "\<not> mo_bad e" "mo_fresh e = mo_fresh (he_encoder h)"
      using 1(2) inv by (auto simp: monitor_def)
    have e': "mo_ready e'" "\<not> mo_bad e'" "mo_fresh e' = (mo_fresh e \<and> result \<noteq> EncOk)"
      using 1(3) e idr by (auto simp: monitor_def split: prod.splits)
    have v: "vi_idr_seen v = vi_idr_seen (he_intake h)" "vi_encoder_ready v" using 1(1) inv by auto
    show ?thesis
    proof (cases result)
      case EncFatal
      then show ?thesis unfolding 1(4) [OF EncFatal] using inv e' by (simp add: protocol_inv_def monitor_def)
    next
      case EncOk
      then show ?thesis unfolding 1(5) [OF EncOk] using inv e e' v by (simp add: protocol_inv_def)
    next
      case EncDropped
      then show ?thesis unfolding 1(6) [OF EncDropped] using inv e e' v by (simp add: protocol_inv_def)
    qed
  qed
qed

lemma protocol_enc_step:
  assumes "protocol_inv n h" and "n < 2 ^ 64"
  shows "protocol_inv n (enc_step (monitor env) (he_pc h) h)"
proof (cases "he_pc h")
  case (PcEncode f rq)
  then show ?thesis using protocol_encode [OF assms(1) PcEncode assms(2)] by simp
next
  case (PcConfigure f c p rq)
  then show ?thesis using assms(1)
    by (auto simp: protocol_inv_def ensure_encoder_configure_def monitor_def Let_def split: prod.splits bool.splits)
next
  case PcWait
  then show ?thesis using assms(1)
    by (auto simp: protocol_inv_def run_wait_def run_take_def Let_def split: option.splits)
next
  case PcRelock
  then show ?thesis using assms(1)
    by (auto simp: protocol_inv_def run_relock_def run_take_def split: option.splits)
next
  case (PcFrame f)
  then show ?thesis using assms(1)
    by (auto simp: protocol_inv_def encode_one_staging_def answer_def pipe_keeps_encoder_state split: option.splits)
next
  case (PcRequest f c p rq)
  then show ?thesis using assms(1)
    by (auto simp: protocol_inv_def ensure_encoder_teardown_def answer_def count_dropped_def monitor_def
        pipe_keeps_encoder_state Let_def)
next
  case (PcEncoded f r)
  then show ?thesis using assms(1)
    by (auto simp: protocol_inv_def answer_def count_dropped_def count_encoded_def pipe_keeps_encoder_state)
next
  case (PcNotReady f)
  then show ?thesis using assms(1)
    by (auto simp: protocol_inv_def answer_def count_dropped_def pipe_keeps_encoder_state)
qed (use assms(1) in \<open>auto simp: protocol_inv_def run_teardown_def monitor_def\<close>)

lemma protocol_step:
  assumes "protocol_inv n h" and "n < 2 ^ 64"
  shows "protocol_inv (Suc n) (helper_step (monitor env) h e)"
proof -
  have suc: "protocol_inv (Suc n) h'" if "protocol_inv n h'" for h' :: "'a monitored helper"
    using that idr_counted_mono [of n _ "Suc n"] pc_request_ok_mono [of n _ "Suc n"]
    by (auto simp: protocol_inv_def)
  show ?thesis
  proof (cases e)
    case EncoderThread
    then show ?thesis using suc protocol_enc_step [OF assms] by simp
  next
    case (Session c)
    then show ?thesis
      using assms(1) video_step_idr [of n "he_bridge h" c] pc_request_ok_mono [of n _ "Suc n"]
      by (auto simp: protocol_inv_def)
  qed (use suc [of "helper_step (monitor env) h e"] assms(1) in
      \<open>auto simp: protocol_inv_def pipe_keeps_encoder_state set_vrserver_pid_def on_shim_gone_def intake_stop_def\<close>)
qed

text \<open>
  C3. The encoder is driven by its protocol, for every interleaving of fewer
  than \<open>2 ^ 64\<close> events: it is configured only when it is not configured,
  encodes and changes bitrate only while it is configured, and the frames a
  new encoder is given until it has produced one are all asked for as key
  frames, so that a client always gets a parameter set first.
\<close>

theorem encoder_protocol_respected:
  assumes "length es < 2 ^ 64"
    and "h = foldl (helper_step (monitor env))
        (helper_new has_encoder (set_prefs rate codec_pref adaptive video_bridge_new)
          \<lparr>mo_inner = e0, mo_ready = False, mo_fresh = False, mo_bad = False\<rparr>) es"
  shows "\<not> mo_bad (he_encoder h)"
proof -
  let ?h0 = "helper_new has_encoder (set_prefs rate codec_pref adaptive video_bridge_new)
      \<lparr>mo_inner = e0, mo_ready = False, mo_fresh = False, mo_bad = False\<rparr>"
  have "protocol_inv 0 ?h0"
    by (simp add: protocol_inv_def helper_new_def intake_new_def idr_counted_def set_prefs_def
        video_bridge_new_def video_request_new_def)
  then have "protocol_inv (length es) (foldl (helper_step (monitor env)) ?h0 es)"
    using assms(1)
  proof (induction es rule: rev_induct)
    case (snoc e es)
    then show ?case using protocol_step [of "length es"] by simp
  qed simp
  then show ?thesis using assms(2) by (simp add: protocol_inv_def)
qed

section \<open>Witnesses\<close>

text \<open>An encoder that configures, and produces one entry per eye for every second frame.\<close>

definition toy_encoder :: "nat encoder_env" where
  "toy_encoder = \<lparr>en_configure = (\<lambda>_ _ _ n. (True, n)), en_shutdown = (\<lambda>n. n), en_set_bitrate = (\<lambda>_ n. n),
     en_stream_info = (\<lambda>_. encoder_stream_info_new),
     en_encode = (\<lambda>f idr n. if even n then (EncOk, [eye (fr_frame_id f) 0, eye (fr_frame_id f) 1], n + 1)
                             else (EncDropped, [], n + 1))\<rparr>"

definition toy_config :: staging_config where
  "toy_config = \<lparr>sc_generation = 1, sc_width = 4000, sc_height = 2000, sc_dxgi_format = 28, sc_count = 3,
     sc_pad = 0, sc_handles = (100, 101, 102)\<rparr>"

definition toy_frame :: "u64 \<Rightarrow> u32 \<Rightarrow> frame_ready" where
  "toy_frame fid i = \<lparr>fr_frame_id = fid, fr_sample_time_qpc = 0, fr_generation = 1, fr_staging_index = i,
     fr_qw = 0, fr_qx = 0, fr_qy = 0, fr_qz = 0, fr_px = 0, fr_py = 0, fr_pz = 0, fr_predict_s = 0\<rparr>"

definition toy_run :: "helper_event list" where
  "toy_run = [Session (SetClient (Num 90) True True), Staging toy_config, FrameReadyMsg (toy_frame 5 0),
     EncoderThread, EncoderThread, FrameReadyMsg (toy_frame 6 1), FrameReadyMsg (toy_frame 7 2)]"

theorem every_frame_answered_once_witness:
  "answers (foldl (helper_step toy_encoder) (helper_new True video_bridge_new 0) toy_run) = {#(6, 1)#}
   \<and> owed (foldl (helper_step toy_encoder) (helper_new True video_bridge_new 0) toy_run) = {#(5, 0), (7, 2)#}"
proof -
  let ?h = "foldl (helper_step toy_encoder) (helper_new True video_bridge_new 0) toy_run"
  have gone: "ShimGone \<notin> set toy_run" by (simp add: toy_run_def)
  have "map done_key (vi_answered (he_intake ?h)) = [(6, 1)]" by code_simp
  then have "answers ?h = {#(6, 1)#}" by (simp add: answers_def)
  moreover have "answers ?h + owed ?h = {#(5, 0), (6, 1), (7, 2)#}"
    using every_frame_answered_once [OF gone refl, of toy_encoder "helper_new True video_bridge_new 0"]
    by (simp add: toy_run_def toy_frame_def frame_key_def owed_def answers_def helper_new_def intake_new_def)
  ultimately show ?thesis by simp
qed

theorem frames_answered_within_15_steps_witness:
  "owed (foldl (helper_step toy_encoder) (foldl (helper_step toy_encoder) (helper_new True video_bridge_new 0) toy_run)
     (replicate 15 EncoderThread)) = {#}"
proof -
  have "alive (foldl (helper_step toy_encoder) (helper_new True video_bridge_new 0) toy_run)" by code_simp
  from frames_answered_within_15_steps [OF this refl, of toy_encoder] show ?thesis by simp
qed

theorem encoder_protocol_respected_witness:
  "\<not> mo_bad (he_encoder (foldl (helper_step (monitor toy_encoder))
      (helper_new True (set_prefs 20000000 0 True video_bridge_new)
        \<lparr>mo_inner = 0, mo_ready = False, mo_fresh = False, mo_bad = False\<rparr>)
      (toy_run @ replicate 12 EncoderThread)))"
  by (rule encoder_protocol_respected [OF _ refl]) (simp add: toy_run_def)

section \<open>A failed configure\<close>

text \<open>
  An encoder that cannot be configured, counting the attempts. Although the
  generations are recorded after a failure, the early return of
  \<^verbatim>\<open>ensure_encoder\<close> also asks for a ready encoder, so the next frame of the same
  staging ring tries again: three frames, three attempts.
\<close>

definition broken_encoder :: "nat encoder_env" where
  "broken_encoder = \<lparr>en_configure = (\<lambda>_ _ _ n. (False, n + 1)), en_shutdown = (\<lambda>n. n),
     en_set_bitrate = (\<lambda>_ n. n), en_stream_info = (\<lambda>_. encoder_stream_info_new),
     en_encode = (\<lambda>f idr n. (EncDropped, [], n))\<rparr>"

text \<open>A helper with a client and a staging ring, at rest, whose encoder is not configured.\<close>

definition unconfigured :: "staging_config \<Rightarrow> 'e helper \<Rightarrow> bool" where
  "unconfigured sc h \<longleftrightarrow> he_pc h = PcWait \<and> vr_active (vb_request (he_bridge h))
     \<and> vi_encoder (he_intake h) \<and> \<not> vi_stop (he_intake h) \<and> vi_staging (he_intake h) = Some sc
     \<and> \<not> vi_staging_changed (he_intake h) \<and> vi_pending (he_intake h) = None \<and> \<not> vi_encoder_ready (he_intake h)"

definition one_frame :: "frame_ready \<Rightarrow> helper_event list" where
  "one_frame f = FrameReadyMsg f # replicate 6 EncoderThread"

lemma unconfigured_frame:
  assumes "unconfigured sc h" and "fr_generation f = sc_generation sc" and "fr_staging_index f < sc_count sc"
  shows "unconfigured sc (foldl (helper_step broken_encoder) h (one_frame f))
    \<and> he_encoder (foldl (helper_step broken_encoder) h (one_frame f)) = he_encoder h + 1"
proof -
  note u = assms(1) [unfolded unconfigured_def]
  define v where "v = he_intake h"
  define rq where "rq = vb_request (he_bridge h)"
  define v1 where "v1 = v\<lparr>vi_frames_seen := vi_frames_seen v + 1\<rparr>"
  define v2 where "v2 = v1\<lparr>vi_encoder_config_generation := vr_config_generation rq,
    vi_encoder_generation := sc_generation sc\<rparr>"
  let ?step = "helper_step broken_encoder"
  have s1: "?step h (FrameReadyMsg f) = h\<lparr>he_intake := v1\<lparr>vi_pending := Some f\<rparr>\<rparr>"
    using u assms(2,3) by (simp add: on_frame_ready_def Let_def v1_def v_def not_le)
  have s2: "?step (h\<lparr>he_intake := v1\<lparr>vi_pending := Some f\<rparr>\<rparr>) EncoderThread = h\<lparr>he_intake := v1, he_pc := PcFrame f\<rparr>"
    using u by (simp add: run_wait_def run_take_def Let_def v1_def v_def)
  have s3: "?step (h\<lparr>he_intake := v1, he_pc := PcFrame f\<rparr>) EncoderThread
      = h\<lparr>he_intake := v1, he_pc := PcConfig f sc (vi_vrserver_pid v1)\<rparr>" (is "_ = ?h3")
    using u by (simp add: encode_one_staging_def v1_def v_def)
  have s4: "?step ?h3 EncoderThread = h\<lparr>he_intake := v1, he_pc := PcRequest f sc (vi_vrserver_pid v1) rq\<rparr>" (is "_ = ?h4")
    by (simp add: rq_def)
  have s5: "?step ?h4 EncoderThread = h\<lparr>he_intake := v1, he_pc := PcConfigure f sc (vi_vrserver_pid v1) rq\<rparr>" (is "_ = ?h5")
    using u by (simp add: ensure_encoder_teardown_def Let_def v1_def v_def rq_def)
  have s6: "?step ?h5 EncoderThread = h\<lparr>he_intake := v2, he_encoder := he_encoder h + 1, he_pc := PcNotReady f\<rparr>" (is "_ = ?h6")
    by (simp add: ensure_encoder_configure_def broken_encoder_def Let_def v2_def)
  have s7: "?step ?h6 EncoderThread = h\<lparr>he_intake := push_done (fr_frame_id f) (fr_staging_index f) kDoneDropped
      (count_dropped v2), he_encoder := he_encoder h + 1, he_pc := PcWait\<rparr>" (is "_ = ?h7")
    by (simp add: answer_def)
  have "foldl ?step h (one_frame f) = ?h7"
    by (simp only: one_frame_def numeral_eq_Suc pred_numeral_simps BitM.simps replicate.simps foldl.simps s1 s2 s3 s4 s5 s6 s7)
  moreover have "unconfigured sc ?h7"
    using u by (simp add: unconfigured_def push_done_def count_dropped_def Let_def v2_def v1_def v_def)
  ultimately show ?thesis by simp
qed

text \<open>
  A failed configure is retried on every frame. On an encoder that cannot
  be configured, any number of frames of one and the same staging ring, under
  one and the same request, makes as many configure attempts: recording the
  generations after a failure does not stop the next attempt.
\<close>

theorem failed_configure_is_retried:
  assumes "unconfigured sc h"
    and "\<forall>f \<in> set fs. fr_generation f = sc_generation sc \<and> fr_staging_index f < sc_count sc"
  shows "he_encoder (foldl (helper_step broken_encoder) h (concat (map one_frame fs))) = he_encoder h + length fs"
  using assms
proof (induction fs arbitrary: h)
  case (Cons f fs)
  then have "unconfigured sc (foldl (helper_step broken_encoder) h (one_frame f))"
    "he_encoder (foldl (helper_step broken_encoder) h (one_frame f)) = he_encoder h + 1"
    using unconfigured_frame [of sc h f] by auto
  with Cons.IH Cons.prems(2) show ?case by simp
qed simp

theorem failed_configure_is_retried_witness:
  "he_encoder (foldl (helper_step broken_encoder)
     (foldl (helper_step broken_encoder) (helper_new True video_bridge_new 0)
        [Session (SetClient (Num 90) True True), Staging toy_config, EncoderThread])
     (concat (map one_frame [toy_frame 1 0, toy_frame 2 1, toy_frame 3 2]))) = 3"
proof -
  let ?h = "foldl (helper_step broken_encoder) (helper_new True video_bridge_new 0)
        [Session (SetClient (Num 90) True True), Staging toy_config, EncoderThread]"
  have "unconfigured toy_config ?h \<and> he_encoder ?h = 0" by code_simp
  then show ?thesis
    using failed_configure_is_retried [of toy_config ?h "[toy_frame 1 0, toy_frame 2 1, toy_frame 3 2]"]
    by (simp only: ) (simp add: toy_frame_def toy_config_def)
qed

end
