(* ===== verification/Pipe_Server.thy ===== *)
theory Pipe_Server
  imports Bridge Video_Intake
begin

text \<open>
  The helper's end of the pipe: \<^verbatim>\<open>helper/src/pipe_server.h\<close> and
  \<^verbatim>\<open>pipe_server.cpp\<close>. The server thread is a program counter and a step function
  over the helper's shared objects: the bridge, and the frame intake with its
  encoder thread and video bridge. A step contains at most one call on a shared
  object. What Windows answers is the input of a step. The history variable
  \<open>pv_sent\<close> holds the messages written on the current connection. Logging and
  the heartbeat are left out.
\<close>

section \<open>State\<close>

datatype wait_result = WrMessage "u8 list" | WrTimeout | WrShutdown | WrError

datatype server_pc =
  SvAccept | SvHandshake | SvReply | SvFirst | SvFlush | SvDone | SvDoneSend frame_done | SvWait
| SvGone bool | SvStopped

record 'e server =
  pv_bridge :: bridge
  pv_helper :: "'e helper"
  pv_cursor :: cursor
  pv_pc :: server_pc
  pv_sent :: "u8 list list"
  pv_poses_sent :: u64
  pv_inputs_sent :: u64
  pv_frames_ready_seen :: u64
  pv_frames_done_sent :: u64
  pv_staging_configs_seen :: u64
  pv_keepalives_seen :: u64
  pv_haptics_seen :: u64
  pv_unknown_seen :: u64

record server_io =
  si_accepted :: bool
  si_wait :: wait_result
  si_writes :: "bool list"
  si_shutdown :: bool

definition server_new :: "bridge \<Rightarrow> 'e helper \<Rightarrow> 'e server" where
  "server_new b h = \<lparr>pv_bridge = b, pv_helper = h, pv_cursor = cursor_new, pv_pc = SvAccept, pv_sent = [],
     pv_poses_sent = 0, pv_inputs_sent = 0, pv_frames_ready_seen = 0, pv_frames_done_sent = 0,
     pv_staging_configs_seen = 0, pv_keepalives_seen = 0, pv_haptics_seen = 0, pv_unknown_seen = 0\<rparr>"

definition on_intake :: "(intake \<Rightarrow> intake) \<Rightarrow> 'e server \<Rightarrow> 'e server" where
  "on_intake f s = s\<lparr>pv_helper := (pv_helper s)\<lparr>he_intake := f (he_intake (pv_helper s))\<rparr>\<rparr>"

section \<open>Writing\<close>

definition server_send :: "bool \<Rightarrow> message_type \<Rightarrow> u8 list \<Rightarrow> 'e server \<Rightarrow> bool \<times> 'e server" where
  "server_send written t payload s =
     (if kMaxMessageSize < 4 + length payload then (False, s)
      else if written then (True, s\<lparr>pv_sent := pv_sent s @ [wire_message t payload]\<rparr>)
      else (False, s))"

text \<open>
  The loop of \<^verbatim>\<open>flush_bridge\<close> over the collected messages, with the outcome of
  each write; a write whose outcome is not given fails.
\<close>

fun send_all :: "bool list \<Rightarrow> outgoing list \<Rightarrow> 'e server \<Rightarrow> bool \<times> 'e server" where
  "send_all ws [] s = (True, s)"
| "send_all [] (m # ms') s = (False, s)"
| "send_all (wr # ws) (m # ms') s =
     (case server_send wr (og_type m) (og_bytes m) s of
        (False, s) \<Rightarrow> (False, s)
      | (True, s) \<Rightarrow>
          send_all ws ms'
            (if og_type m = MT_pose_update then s\<lparr>pv_poses_sent := pv_poses_sent s + 1\<rparr>
             else if og_type m = MT_input_update then s\<lparr>pv_inputs_sent := pv_inputs_sent s + 1\<rparr>
             else s))"

definition flush_bridge :: "bool list \<Rightarrow> 'e server \<Rightarrow> bool \<times> 'e server" where
  "flush_bridge ws s =
     (case collect (pv_bridge s) (pv_cursor s) [] of (c, out) \<Rightarrow> send_all ws out (s\<lparr>pv_cursor := c\<rparr>))"

section \<open>The connection\<close>

definition sgoto :: "server_pc \<Rightarrow> 'e server \<Rightarrow> 'e server" where
  "sgoto pc s = s\<lparr>pv_pc := pc\<rparr>"

definition server_accept :: "server_io \<Rightarrow> 'e server \<Rightarrow> 'e server" where
  "server_accept i s =
     (if \<not> si_accepted i then sgoto SvStopped s
      else sgoto SvHandshake (s\<lparr>pv_sent := [], pv_poses_sent := 0, pv_inputs_sent := 0,
        pv_keepalives_seen := 0, pv_haptics_seen := 0, pv_unknown_seen := 0, pv_frames_ready_seen := 0,
        pv_frames_done_sent := 0, pv_staging_configs_seen := 0, pv_cursor := cursor_new\<rparr>))"

definition shim_hello_ok :: "u8 list \<Rightarrow> bool" where
  "shim_hello_ok msg \<longleftrightarrow> type_of_raw (msg_raw_type msg) = Some MT_shim_hello \<and> length msg = 4 + 12
     \<and> sh_magic (dec_shim_hello (msg_payload msg)) = kShimMagic
     \<and> sh_version (dec_shim_hello (msg_payload msg)) = kProtocolVersion"

definition handshake :: "server_io \<Rightarrow> 'e server \<Rightarrow> 'e server" where
  "handshake i s =
     (case si_wait i of
        WrMessage msg \<Rightarrow>
          (if length msg < 4 \<or> \<not> shim_hello_ok msg then sgoto (SvGone True) s
           else sgoto SvReply (on_intake (set_vrserver_pid (sh_vrserver_pid (dec_shim_hello (msg_payload msg)))) s))
      | _ \<Rightarrow> sgoto (SvGone True) s)"

definition handshake_reply :: "server_io \<Rightarrow> 'e server \<Rightarrow> 'e server" where
  "handshake_reply i s =
     (case server_send (si_writes i \<noteq> [] \<and> hd (si_writes i)) MT_helper_hello
             (enc_helper_hello \<lparr>hh_magic = kHelperMagic, hh_version = kProtocolVersion\<rparr>) s of
        (False, s) \<Rightarrow> sgoto (SvGone True) s
      | (True, s) \<Rightarrow> sgoto SvFirst s)"

definition serve_flush :: "server_io \<Rightarrow> server_pc \<Rightarrow> 'e server \<Rightarrow> 'e server" where
  "serve_flush i next s =
     (case flush_bridge (si_writes i) s of
        (False, s) \<Rightarrow> sgoto (SvGone True) s
      | (True, s) \<Rightarrow> sgoto next s)"

text \<open>One round of the loop in \<^verbatim>\<open>flush_frame_done\<close>: the locked pop, then the write.\<close>

definition flush_done_pop :: "'e server \<Rightarrow> 'e server" where
  "flush_done_pop s =
     (case pop_done (he_intake (pv_helper s)) of
        (None, v) \<Rightarrow> sgoto SvWait s
      | (Some d, v) \<Rightarrow> sgoto (SvDoneSend d) (on_intake (\<lambda>_. v) s))"

definition flush_done_send :: "server_io \<Rightarrow> frame_done \<Rightarrow> 'e server \<Rightarrow> 'e server" where
  "flush_done_send i d s =
     (case server_send (si_writes i \<noteq> [] \<and> hd (si_writes i)) MT_frame_done (enc_frame_done d) s of
        (False, s) \<Rightarrow> sgoto (SvGone True) s
      | (True, s) \<Rightarrow> sgoto SvDone (s\<lparr>pv_frames_done_sent := pv_frames_done_sent s + 1\<rparr>))"

definition server_handle_message :: "u8 list \<Rightarrow> 'e server \<Rightarrow> bool \<times> 'e server" where
  "server_handle_message msg s =
     (let payload = msg_payload msg; n = length payload; t = type_of_raw (msg_raw_type msg)
      in if t = Some MT_keep_alive then
           (if n \<noteq> 8 then (False, s) else (True, s\<lparr>pv_keepalives_seen := pv_keepalives_seen s + 1\<rparr>))
         else if t = Some MT_haptic then
           (if n \<noteq> 20 then (False, s)
            else (True, s\<lparr>pv_bridge := push_haptic (dec_haptic payload) (pv_bridge s),
                          pv_haptics_seen := pv_haptics_seen s + 1\<rparr>))
         else if t = Some MT_staging_config then
           (if n \<noteq> 48 then (False, s)
            else (True, (on_intake (on_staging_config (dec_staging_config payload)) s)
                          \<lparr>pv_staging_configs_seen := pv_staging_configs_seen s + 1\<rparr>))
         else if t = Some MT_frame_ready then
           (if n \<noteq> 56 then (False, s)
            else (True, (on_intake (on_frame_ready (dec_frame_ready payload) (he_bridge (pv_helper s))) s)
                          \<lparr>pv_frames_ready_seen := pv_frames_ready_seen s + 1\<rparr>))
         else if t = Some MT_shim_hello then (False, s)
         else (True, s\<lparr>pv_unknown_seen := pv_unknown_seen s + 1\<rparr>))"

definition serve_wait :: "server_io \<Rightarrow> 'e server \<Rightarrow> 'e server" where
  "serve_wait i s =
     (case si_wait i of
        WrMessage msg \<Rightarrow>
          (if length msg < 4 then sgoto (SvGone True) s
           else case server_handle_message msg s of
             (False, s) \<Rightarrow> sgoto (SvGone True) s
           | (True, s) \<Rightarrow> sgoto SvFlush s)
      | WrTimeout \<Rightarrow> sgoto SvFlush s
      | WrShutdown \<Rightarrow> sgoto (SvGone False) s
      | WrError \<Rightarrow> sgoto (SvGone True) s)"

definition server_gone :: "server_io \<Rightarrow> bool \<Rightarrow> 'e server \<Rightarrow> 'e server" where
  "server_gone i keep_running s =
     (let s = on_intake on_shim_gone s
      in if \<not> keep_running \<or> si_shutdown i then sgoto SvStopped s else sgoto SvAccept s)"

primrec server_thread :: "server_pc \<Rightarrow> server_io \<Rightarrow> 'e server \<Rightarrow> 'e server" where
  "server_thread SvAccept i s = server_accept i s"
| "server_thread SvHandshake i s = handshake i s"
| "server_thread SvReply i s = handshake_reply i s"
| "server_thread SvFirst i s = serve_flush i SvFlush s"
| "server_thread SvFlush i s = serve_flush i SvDone s"
| "server_thread SvDone i s = flush_done_pop s"
| "server_thread (SvDoneSend d) i s = flush_done_send i d s"
| "server_thread SvWait i s = serve_wait i s"
| "server_thread (SvGone keep) i s = server_gone i keep s"
| "server_thread SvStopped i s = s"

section \<open>The helper process\<close>

text \<open>
  The server thread interleaved with the other threads: producers on the
  bridge, and the session and encoder thread on the video side.
\<close>

datatype process_event =
  ServerThread server_io
| Producer bridge_call
| VideoSession video_call
| VideoEncoder

primrec process_step :: "'e encoder_env \<Rightarrow> 'e server \<Rightarrow> process_event \<Rightarrow> 'e server" where
  "process_step env s (ServerThread i) = server_thread (pv_pc s) i s"
| "process_step env s (Producer c) = s\<lparr>pv_bridge := bridge_step (pv_bridge s) c\<rparr>"
| "process_step env s (VideoSession c) = s\<lparr>pv_helper := helper_step env (pv_helper s) (Session c)\<rparr>"
| "process_step env s VideoEncoder = s\<lparr>pv_helper := helper_step env (pv_helper s) EncoderThread\<rparr>"

section \<open>What the helper writes\<close>

definition helper_message :: "u8 list \<Rightarrow> bool" where
  "helper_message bs \<longleftrightarrow> (\<exists>t p. bs = wire_message t p \<and>
     (t, length p) \<in> {(MT_hmd_config, 104), (MT_pose_update, 120), (MT_device_add, 4), (MT_device_remove, 4),
       (MT_input_update, 36), (MT_frame_done, 16)})"

lemma helper_messageI:
  "(t, length p) \<in> {(MT_hmd_config, 104), (MT_pose_update, 120), (MT_device_add, 4), (MT_device_remove, 4),
     (MT_input_update, 36), (MT_frame_done, 16)} \<Longrightarrow> helper_message (wire_message t p)"
  unfolding helper_message_def by blast

definition og_wire :: "outgoing \<Rightarrow> u8 list" where
  "og_wire o' = wire_message (og_type o') (og_bytes o')"

definition hello_message :: "u8 list" where
  "hello_message = wire_message MT_helper_hello
     (enc_helper_hello \<lparr>hh_magic = kHelperMagic, hh_version = kProtocolVersion\<rparr>)"

lemma og_wire_frame_out [simp]: "length p < 2 ^ 32 \<Longrightarrow> og_wire (frame_out t p) = wire_message t p"
  by (simp add: og_wire_def)

lemma news_messages:
  "list_all (helper_message \<circ> og_wire) (news_config b c)"
  "list_all (helper_message \<circ> og_wire) (news_presence b c i)"
  "list_all (helper_message \<circ> og_wire) (news_pose b c i)"
  "list_all (helper_message \<circ> og_wire) (news_input b c i)"
  by (simp_all add: news_config_def news_presence_def news_pose_def news_input_def presence_message_def
      helper_messageI)

lemma collect_messages: "list_all (helper_message \<circ> og_wire) (snd (collect b c []))"
  by (simp add: collect_out news_messages del: o_apply)

lemma collect_fresh:
  assumes "br_config_gen b \<noteq> 0"
  shows "\<exists>out. snd (collect b cursor_new []) = frame_out MT_hmd_config (enc_hmd_config (br_config b)) # out"
  using assms by (simp add: collect_out news_config_def cursor_new_def)

lemma send_all_sent:
  "send_all ws out s = (ok, s') \<Longrightarrow> \<exists>k \<le> length out. pv_sent s' = pv_sent s @ map og_wire (take k out)
     \<and> (ok \<longrightarrow> k = length out) \<and> pv_bridge s' = pv_bridge s \<and> pv_cursor s' = pv_cursor s"
proof (induction ws out s rule: send_all.induct)
  case (3 wr ws m ms' s)
  obtain ok1 s1 where send: "server_send wr (og_type m) (og_bytes m) s = (ok1, s1)" by fastforce
  show ?case
  proof (cases ok1)
    case True
    then have s1: "pv_sent s1 = pv_sent s @ [og_wire m]" "pv_bridge s1 = pv_bridge s" "pv_cursor s1 = pv_cursor s"
      using send by (auto simp: server_send_def og_wire_def split: if_splits)
    let ?s2 = "if og_type m = MT_pose_update then s1\<lparr>pv_poses_sent := pv_poses_sent s1 + 1\<rparr>
        else if og_type m = MT_input_update then s1\<lparr>pv_inputs_sent := pv_inputs_sent s1 + 1\<rparr> else s1"
    have "send_all ws ms' ?s2 = (ok, s')" using "3.prems" send True by simp
    then obtain k where "k \<le> length ms'" "pv_sent s' = pv_sent ?s2 @ map og_wire (take k ms')"
      "ok \<longrightarrow> k = length ms'" "pv_bridge s' = pv_bridge ?s2" "pv_cursor s' = pv_cursor ?s2"
      using "3.IH" send True by fastforce
    moreover have "pv_sent ?s2 = pv_sent s1" "pv_bridge ?s2 = pv_bridge s1" "pv_cursor ?s2 = pv_cursor s1" by auto
    ultimately show ?thesis using s1 by (intro exI [of _ "Suc k"]) simp
  next
    case False
    then have "s1 = s" using send by (auto simp: server_send_def split: if_splits)
    then show ?thesis using "3.prems" send False by (intro exI [of _ 0]) simp
  qed
qed auto

text \<open>A connection's messages: the greeting, then the configuration, then any of the others.\<close>

definition config_first :: "u8 list list \<Rightarrow> bool" where
  "config_first rest \<longleftrightarrow> (\<exists>cfg rest'. rest = wire_message MT_hmd_config (enc_hmd_config cfg) # rest'
     \<and> list_all helper_message rest')"

definition opened :: "u8 list list \<Rightarrow> bool" where
  "opened sent \<longleftrightarrow> sent = [] \<or> (\<exists>rest. sent = hello_message # rest \<and> (rest = [] \<or> config_first rest))"

definition configured :: "u8 list list \<Rightarrow> bool" where
  "configured sent \<longleftrightarrow> (\<exists>rest. sent = hello_message # rest \<and> config_first rest)"

lemma configured_opened: "configured sent \<Longrightarrow> opened sent"
  by (auto simp: configured_def opened_def)

lemma configured_more: "configured sent \<Longrightarrow> list_all helper_message xs \<Longrightarrow> configured (sent @ xs)"
  by (auto simp: configured_def config_first_def)

primrec server_pc_ok :: "server_pc \<Rightarrow> cursor \<Rightarrow> u8 list list \<Rightarrow> bool" where
  "server_pc_ok SvAccept cu sent = True"
| "server_pc_ok SvHandshake cu sent = (sent = [] \<and> cu = cursor_new)"
| "server_pc_ok SvReply cu sent = (sent = [] \<and> cu = cursor_new)"
| "server_pc_ok SvFirst cu sent = (sent = [hello_message] \<and> cu = cursor_new)"
| "server_pc_ok SvFlush cu sent = configured sent"
| "server_pc_ok SvDone cu sent = configured sent"
| "server_pc_ok (SvDoneSend d) cu sent = configured sent"
| "server_pc_ok SvWait cu sent = configured sent"
| "server_pc_ok (SvGone keep) cu sent = True"
| "server_pc_ok SvStopped cu sent = True"

definition server_inv :: "hmd_config \<Rightarrow> nat \<Rightarrow> 'e server \<Rightarrow> bool" where
  "server_inv cfg n s \<longleftrightarrow> opened (pv_sent s) \<and> server_pc_ok (pv_pc s) (pv_cursor s) (pv_sent s)
     \<and> (\<exists>cs. length cs \<le> n \<and> pv_bridge s = foldl bridge_step (bridge_new cfg) cs)"

lemma server_inv_goto:
  assumes "opened sent" and "server_pc_ok pc cu sent" and "length cs \<le> n"
    and "pv_sent s = sent" and "pv_cursor s = cu" and "pv_bridge s = foldl bridge_step (bridge_new cfg) cs"
  shows "server_inv cfg n (sgoto pc s)"
  using assms by (auto simp: server_inv_def sgoto_def)

lemma serve_flush_inv:
  assumes inv: "server_inv cfg n s" and n: "n < 2 ^ 64 - 1"
    and pc: "pv_pc s = SvFirst \<and> next' = SvFlush \<or> pv_pc s = SvFlush \<and> next' = SvDone"
  shows "server_inv cfg n (serve_flush i next' s)"
proof -
  obtain cs where cs: "length cs \<le> n" "pv_bridge s = foldl bridge_step (bridge_new cfg) cs"
    using inv by (auto simp: server_inv_def)
  obtain cu out where col: "collect (pv_bridge s) (pv_cursor s) [] = (cu, out)" by fastforce
  obtain ok s' where sa: "send_all (si_writes i) out (s\<lparr>pv_cursor := cu\<rparr>) = (ok, s')" by fastforce
  from send_all_sent [OF sa] obtain k where k: "pv_sent s' = pv_sent s @ map og_wire (take k out)"
    "ok \<longrightarrow> k = length out" "pv_bridge s' = pv_bridge s" "pv_cursor s' = cu" by auto
  have msgs: "list_all helper_message (map og_wire (take k out))"
    using collect_messages [of "pv_bridge s" "pv_cursor s"] col
    by (auto simp: list_all_iff dest: in_set_takeD)
  have "opened (pv_sent s') \<and> (ok \<longrightarrow> configured (pv_sent s'))"
  proof (cases "pv_pc s = SvFirst")
    case True
    then have s: "pv_sent s = [hello_message]" "pv_cursor s = cursor_new" using inv by (auto simp: server_inv_def)
    have "br_config_gen (pv_bridge s) \<noteq> 0" using fresh_trusts(1) [OF _ cs(2)] cs(1) n by simp
    then obtain out' where out: "out = frame_out MT_hmd_config (enc_hmd_config (br_config (pv_bridge s))) # out'"
      using collect_fresh [of "pv_bridge s"] col s by auto
    show ?thesis
      using k(1,2) msgs s out by (cases k) (auto simp: opened_def configured_def config_first_def)
  next
    case False
    then have "configured (pv_sent s)" using inv pc by (auto simp: server_inv_def)
    then have "configured (pv_sent s')" using configured_more k(1) msgs by simp
    then show ?thesis using configured_opened by blast
  qed
  then have "server_inv cfg n (sgoto (if ok then next' else SvGone True) s')"
    using pc by (intro server_inv_goto [OF _ _ cs(1) refl refl]) (auto simp: k cs(2))
  then show ?thesis using col sa by (cases ok) (simp_all add: serve_flush_def flush_bridge_def)
qed

lemma server_inv_mono: "server_inv cfg n s \<Longrightarrow> n \<le> m \<Longrightarrow> server_inv cfg m s"
  unfolding server_inv_def by (meson le_trans)

lemma server_inv_bridge_call:
  assumes "server_inv cfg n s" and "pv_sent s' = pv_sent s" and "pv_pc s' = pv_pc s" and "pv_cursor s' = pv_cursor s"
    and "pv_bridge s' = pv_bridge s \<or> pv_bridge s' = bridge_step (pv_bridge s) c"
  shows "server_inv cfg (Suc n) s'"
proof -
  obtain cs where cs: "length cs \<le> n" "pv_bridge s = foldl bridge_step (bridge_new cfg) cs"
    using assms(1) by (auto simp: server_inv_def)
  then have "\<exists>cs'. length cs' \<le> Suc n \<and> pv_bridge s' = foldl bridge_step (bridge_new cfg) cs'"
    using assms(5) by (auto intro: exI [of _ cs] exI [of _ "cs @ [c]"] le_SucI)
  then show ?thesis using assms by (simp add: server_inv_def)
qed

lemma handle_message_keeps:
  assumes "server_handle_message msg s = (ok, s')"
  shows "pv_sent s' = pv_sent s" "pv_pc s' = pv_pc s" "pv_cursor s' = pv_cursor s"
    "pv_bridge s' = pv_bridge s \<or> pv_bridge s' = bridge_step (pv_bridge s) (PushHaptic (dec_haptic (msg_payload msg)))"
  using assms by (auto simp: server_handle_message_def on_intake_def Let_def split: if_splits)

lemma sgoto_inv:
  assumes "server_inv cfg n s" and "server_pc_ok pc (pv_cursor s) (pv_sent s)"
  shows "server_inv cfg n (sgoto pc s)"
  using assms by (auto simp: server_inv_def sgoto_def)

lemma server_sent_inv:
  assumes "server_inv cfg n s" and "server_send wr t p s = (ok, s')"
    and "ok \<Longrightarrow> opened (pv_sent s @ [wire_message t p]) \<and> server_pc_ok pc (pv_cursor s) (pv_sent s @ [wire_message t p])"
  shows "server_inv cfg n (sgoto (if ok then pc else SvGone True) s')"
  using assms by (auto simp: server_send_def server_inv_def sgoto_def split: if_splits)

lemma server_thread_inv:
  assumes inv: "server_inv cfg n s" and n: "n < 2 ^ 64 - 1"
  shows "server_inv cfg (Suc n) (server_thread (pv_pc s) i s)"
proof (cases "pv_pc s")
  case SvWait
  then have conf: "configured (pv_sent s)" using inv by (simp add: server_inv_def)
  show ?thesis
  proof (cases "si_wait i")
    case (WrMessage msg)
    obtain ok s' where hm: "server_handle_message msg s = (ok, s')" by fastforce
    note keep = handle_message_keeps [OF hm]
    have "server_inv cfg (Suc n) s'" using server_inv_bridge_call [OF inv keep] .
    from sgoto_inv [OF this] have "server_inv cfg (Suc n) (sgoto pc s')" if "pc = SvFlush \<or> pc = SvGone True" for pc
      using that conf keep(1) by auto
    moreover have "server_inv cfg (Suc n) (sgoto (SvGone True) s)"
      using sgoto_inv [OF server_inv_mono [OF inv]] by simp
    ultimately show ?thesis using SvWait WrMessage hm by (cases ok) (simp_all add: serve_wait_def)
  qed (use SvWait conf sgoto_inv [OF server_inv_mono [OF inv]] in \<open>simp_all add: serve_wait_def\<close>)
next
  case SvFirst
  then show ?thesis using serve_flush_inv [OF inv n, of SvFlush i] server_inv_mono by fastforce
next
  case SvFlush
  then show ?thesis using serve_flush_inv [OF inv n, of SvDone i] server_inv_mono by fastforce
next
  case SvReply
  obtain ok s' where sd: "server_send (si_writes i \<noteq> [] \<and> hd (si_writes i)) MT_helper_hello
      (enc_helper_hello \<lparr>hh_magic = kHelperMagic, hh_version = kProtocolVersion\<rparr>) s = (ok, s')" by fastforce
  have "server_inv cfg n (sgoto (if ok then SvFirst else SvGone True) s')"
    by (rule server_sent_inv [OF inv sd])
      (use inv SvReply in \<open>simp add: server_inv_def opened_def hello_message_def\<close>)
  then show ?thesis
    using SvReply sd server_inv_mono [of cfg n _ "Suc n"] by (cases ok) (simp_all add: handshake_reply_def)
next
  case (SvDoneSend d)
  obtain ok s' where sd: "server_send (si_writes i \<noteq> [] \<and> hd (si_writes i)) MT_frame_done (enc_frame_done d) s = (ok, s')"
    by fastforce
  have conf: "configured (pv_sent s)" using inv SvDoneSend by (simp add: server_inv_def)
  have "server_inv cfg n (sgoto (if ok then SvDone else SvGone True) s')"
    by (rule server_sent_inv [OF inv sd])
      (use configured_more [OF conf, of "[wire_message MT_frame_done (enc_frame_done d)]"] configured_opened
        in \<open>simp add: helper_messageI\<close>)
  then show ?thesis
    using SvDoneSend sd by (cases ok) (auto simp: flush_done_send_def server_inv_def sgoto_def intro: le_SucI)
next
  case SvDone
  then show ?thesis using inv
    by (auto simp: flush_done_pop_def on_intake_def server_inv_def sgoto_def intro: le_SucI
        split: prod.splits option.splits)
next
  case SvHandshake
  then show ?thesis using inv
    by (auto simp: handshake_def on_intake_def server_inv_def sgoto_def intro: le_SucI split: wait_result.splits)
next
  case SvAccept
  then show ?thesis using inv
    by (auto simp: server_accept_def opened_def server_inv_def sgoto_def intro: le_SucI)
next
  case (SvGone keep)
  then show ?thesis using inv
    by (auto simp: server_gone_def on_intake_def server_inv_def sgoto_def Let_def intro: le_SucI)
next
  case SvStopped
  then show ?thesis using server_inv_mono [OF inv] by simp
qed

lemma process_step_inv:
  assumes "server_inv cfg n s" and "n < 2 ^ 64 - 1"
  shows "server_inv cfg (Suc n) (process_step env s e)"
proof (cases e)
  case (ServerThread i)
  then show ?thesis using server_thread_inv [OF assms] by simp
next
  case (Producer c)
  then show ?thesis using server_inv_bridge_call [OF assms(1), of "process_step env s e" c] by simp
qed (use server_inv_mono [OF assms(1), of "Suc n"] in \<open>simp_all add: server_inv_def\<close>)

lemma process_run_inv:
  "length es < 2 ^ 64 - 1 \<Longrightarrow>
     server_inv cfg (length es) (foldl (process_step env) (server_new (bridge_new cfg) h) es)"
proof (induction es rule: rev_induct)
  case Nil
  then show ?case by (simp add: server_inv_def server_new_def opened_def)
next
  case (snoc e es)
  then show ?case using process_step_inv [of cfg "length es"] by simp
qed

text \<open>
  C8. On every connection, however the helper's threads interleave and
  whatever the shim sends, the helper writes the HelperHello first and an
  HmdConfig second, and after that only well-formed messages of the six kinds
  the protocol has in this direction; once it is serving, both have gone out.
\<close>

theorem helper_speaks_protocol:
  assumes "length es < 2 ^ 64 - 1"
    and "s = foldl (process_step env) (server_new (bridge_new cfg) h) es"
  shows "opened (pv_sent s) \<and> (pv_pc s \<in> {SvFlush, SvDone, SvWait} \<longrightarrow> configured (pv_sent s))"
  using process_run_inv [OF assms(1), of cfg env h] assms(2) by (auto simp: server_inv_def)

section \<open>A connection\<close>

definition shim_greets :: "u8 list" where
  "shim_greets = wire_message MT_shim_hello
     (enc_shim_hello \<lparr>sh_magic = kShimMagic, sh_version = kProtocolVersion, sh_vrserver_pid = 1234\<rparr>)"

definition good_io :: server_io where
  "good_io = \<lparr>si_accepted = True, si_wait = WrMessage shim_greets, si_writes = replicate 9 True, si_shutdown = False\<rparr>"

definition served :: "nat server" where
  "served = foldl (process_step toy_encoder)
     (server_new (bridge_new example_config) (helper_new True video_bridge_new 0))
     [ServerThread good_io, Producer (SetPresent 1 True), ServerThread good_io, ServerThread good_io, ServerThread good_io]"

lemma served_pc: "pv_pc served = SvFlush"
  by code_simp

theorem helper_speaks_protocol_witness: "configured (pv_sent served)"
  using helper_speaks_protocol [OF _ served_def] served_pc by simp

end
