(* ===== verification/Pipe_Protocol.thy ===== *)
theory Pipe_Protocol
  imports Ipc_Client Pipe_Server
begin

text \<open>
  The two ends of the pipe together: everything the helper writes on a
  connection is accepted by the shim's message handler and reported, and
  everything the shim writes is accepted by the helper's. The pipe itself is a
  message queue that keeps order and content, as a message-mode pipe does.
\<close>

section \<open>The shim reads what the helper writes\<close>

text \<open>The shim's handler over a list of messages: whether all were accepted, and the outcome.\<close>

fun client_feed :: "u8 list list \<Rightarrow> session \<Rightarrow> client \<Rightarrow> bool \<times> session \<times> client" where
  "client_feed [] se c = (True, se, c)"
| "client_feed (m # rest) se c =
     (case client_handle_message m se c of (ok, se', c') \<Rightarrow>
        if ok then client_feed rest se' c' else (False, se', c'))"

definition fresh_session :: "time_ns \<Rightarrow> session" where
  "fresh_session t = \<lparr>se_got_helper_hello = False, se_got_config = False, se_session_start = t,
     se_next_keep_alive = t + kKeepAliveInterval\<rparr>"

text \<open>What the shim reports for a message of a configured session.\<close>

definition report :: "u8 list \<Rightarrow> callback" where
  "report m =
     (let t = type_of_raw (msg_raw_type m); p = msg_payload m
      in if t = Some MT_hmd_config then CbConfig (dec_hmd_config p)
         else if t = Some MT_pose_update then CbPose (dec_pose_update p)
         else if t = Some MT_device_add then CbDeviceAdd (dec_device_add p)
         else if t = Some MT_device_remove then CbDeviceRemove (dec_device_remove p)
         else if t = Some MT_input_update then CbInput (dec_input_update p)
         else CbFrameDone (dec_frame_done p))"

lemma type_of_raw_values [simp]:
  "type_of_raw 1 = Some MT_shim_hello" "type_of_raw 2 = Some MT_keep_alive" "type_of_raw 3 = Some MT_haptic"
  "type_of_raw 100 = Some MT_helper_hello" "type_of_raw 101 = Some MT_hmd_config"
  "type_of_raw 102 = Some MT_pose_update" "type_of_raw 103 = Some MT_device_add"
  "type_of_raw 104 = Some MT_device_remove" "type_of_raw 105 = Some MT_input_update"
  "type_of_raw 200 = Some MT_staging_config" "type_of_raw 201 = Some MT_frame_ready"
  "type_of_raw 202 = Some MT_frame_done"
  by (simp_all add: type_of_raw_def)

lemma client_accepts:
  assumes "helper_message m" and "se_got_helper_hello se" and "se_got_config se"
  shows "client_handle_message m se c = (True, se, call_back (report m) c)"
proof -
  obtain t p where m: "m = wire_message t p" and tp: "(t, length p) \<in> {(MT_hmd_config, 104),
      (MT_pose_update, 120), (MT_device_add, 4), (MT_device_remove, 4), (MT_input_update, 36), (MT_frame_done, 16)}"
    using assms(1) unfolding helper_message_def by blast
  have "se\<lparr>se_got_config := True\<rparr> = se" using assms(3) by (cases se) simp
  with tp assms(2,3) show ?thesis unfolding m
    by (elim insertE emptyE) (simp_all only: prod.inject, simp_all add: client_handle_message_def report_def Let_def)
qed

lemma client_accepts_hello:
  "client_handle_message hello_message se c = (True, se\<lparr>se_got_helper_hello := True\<rparr>, c)"
  by (simp add: hello_message_def client_handle_message_def Let_def)

lemma client_accepts_config:
  "se_got_helper_hello se \<Longrightarrow> client_handle_message (wire_message MT_hmd_config (enc_hmd_config cfg)) se c =
     (True, se\<lparr>se_got_config := True\<rparr>, call_back (CbConfig cfg) c)"
  by (simp add: client_handle_message_def Let_def)

lemma client_feed_live:
  "list_all helper_message ms' \<Longrightarrow> se_got_helper_hello se \<Longrightarrow> se_got_config se \<Longrightarrow>
     client_feed ms' se c = (True, se, c\<lparr>cl_callbacks := cl_callbacks c @ map report ms'\<rparr>)"
proof (induction ms' arbitrary: c)
  case (Cons m ms')
  then show ?case using client_accepts [of m se c] by (simp add: call_back_def)
qed simp

text \<open>
  C4. The shim accepts the helper. Take any run of the helper's threads and the
  messages it has written on the current connection: a shim that has just
  connected and handles them in order never drops the session, and what it
  reports is exactly the configuration and the messages that follow it, in
  order. Once the helper is serving, the shim has been configured.
\<close>

theorem shim_accepts_helper:
  assumes "length es < 2 ^ 64 - 1"
    and "s = foldl (process_step env) (server_new (bridge_new cfg) h) es"
    and "client_feed (pv_sent s) (fresh_session t) c = (ok, se, c')"
  shows "ok \<and> cl_callbacks c' = cl_callbacks c @ map report (tl (pv_sent s))
    \<and> (pv_pc s \<in> {SvFlush, SvDone, SvWait} \<longrightarrow> se_got_config se)"
proof -
  have prot: "opened (pv_sent s)" "pv_pc s \<in> {SvFlush, SvDone, SvWait} \<Longrightarrow> configured (pv_sent s)"
    using process_run_inv [OF assms(1), of cfg env h] assms(2) by (auto simp: server_inv_def)
  have fed: "ok \<and> se_got_config se \<and> cl_callbacks c' = cl_callbacks c @ map report (tl (pv_sent s))"
    if conf: "configured (pv_sent s)"
  proof -
    obtain cfg' rest where sent: "pv_sent s = hello_message # wire_message MT_hmd_config (enc_hmd_config cfg') # rest"
      "list_all helper_message rest" using conf by (auto simp: configured_def config_first_def)
    have "report (wire_message MT_hmd_config (enc_hmd_config cfg')) = CbConfig cfg'"
      by (simp add: report_def Let_def)
    then show ?thesis
      using assms(3) sent
      by (auto simp: client_accepts_hello client_accepts_config client_feed_live fresh_session_def call_back_def)
  qed
  from prot(1) show ?thesis
  proof (cases "configured (pv_sent s)")
    case False
    then have "pv_sent s = [] \<or> pv_sent s = [hello_message]" using prot(1) by (auto simp: opened_def configured_def)
    then show ?thesis using assms(3) prot(2) False by (auto simp: client_accepts_hello)
  qed (use fed in blast)
qed

section \<open>The helper reads what the shim writes\<close>

fun server_feed :: "u8 list list \<Rightarrow> 'e server \<Rightarrow> bool \<times> 'e server" where
  "server_feed [] s = (True, s)"
| "server_feed (m # rest) s =
     (if length m < 4 then (False, s)
      else case server_handle_message m s of (ok, s') \<Rightarrow> if ok then server_feed rest s' else (False, s'))"

lemma server_accepts: "shim_message m \<Longrightarrow> 4 \<le> length m \<and> fst (server_handle_message m s)"
  by (auto simp: shim_message_def server_handle_message_def Let_def)

lemma server_feed_accepts: "list_all shim_message ms' \<Longrightarrow> fst (server_feed ms' s)"
proof (induction ms' arbitrary: s)
  case (Cons m ms')
  then show ?case using server_accepts [of m s] by (cases "server_handle_message m s") auto
qed simp

text \<open>
  C5. The helper accepts the shim. Take any run of the shim's threads in which
  only its three kinds of messages are queued, and the messages written on the
  current connection: the first one, if any, passes the helper's handshake
  with the process identifier the shim gave, and the helper's message handler
  accepts all the others, so the helper never drops the session over them.
\<close>

theorem helper_accepts_shim:
  assumes "list_all event_ok es" and "c = foldl client_step client_new es" and "cl_sent c = m # rest"
  shows "(\<exists>pid. m = greeting pid \<and> shim_hello_ok m \<and> sh_vrserver_pid (dec_shim_hello (msg_payload m)) = pid)
    \<and> fst (server_feed rest s)"
proof -
  have "greeted (cl_sent c)" using client_run_written [OF assms(1)] assms(2,3) by (auto simp: written_ok_def)
  then obtain pid where "m = greeting pid" "list_all shim_message rest" using assms(3) by (auto simp: greeted_def)
  then show ?thesis
    using server_feed_accepts [of rest s] by (simp add: greeting_def shim_hello_ok_def)
qed

theorem shim_accepts_helper_witness:
  "fst (client_feed (pv_sent served) (fresh_session 0) client_new)
   \<and> se_got_config (fst (snd (client_feed (pv_sent served) (fresh_session 0) client_new)))"
proof -
  obtain ok se c' where f: "client_feed (pv_sent served) (fresh_session 0) client_new = (ok, se, c')"
    by (cases "client_feed (pv_sent served) (fresh_session 0) client_new")
  from shim_accepts_helper [OF _ served_def f] served_pc f show ?thesis by simp
qed

theorem helper_accepts_shim_witness:
  "\<exists>m. cl_sent (foldl client_step client_new [Start, Thread quiet, Thread quiet]) = [m] \<and> shim_hello_ok m
     \<and> fst (server_feed [] served)"
proof -
  have "length (cl_sent (foldl client_step client_new [Start, Thread quiet, Thread quiet])) = 1" by code_simp
  then obtain m where m: "cl_sent (foldl client_step client_new [Start, Thread quiet, Thread quiet]) = [m]"
    by (metis One_nat_def length_0_conv length_Suc_conv)
  have "list_all event_ok [Start, Thread quiet, Thread quiet]" by (simp add: list_all_iff)
  from helper_accepts_shim [OF this refl m, of served] m show ?thesis by auto
qed

end
