(* ===== verification/Max_Filter.thy ===== *)
theory Max_Filter
  imports Ieee
begin

text \<open>
  The windowed maximum of \<^verbatim>\<open>BitrateController::max_filter\<close>, declared in
  \<^verbatim>\<open>helper/src/wivrn/bitrate_controller.h\<close>: three entries, whatever the number
  of samples. The array member \<^verbatim>\<open>s\<close> is three fields here; values are binary64.
  The result is compared with the history of the samples: the filter returns
  the exact maximum of everything since some sample of the window.
\<close>

section \<open>The filter\<close>

record entry =
  en_when :: time_ns
  en_value :: fp

record max_filter =
  mf_s0 :: entry
  mf_s1 :: entry
  mf_s2 :: entry
  mf_count :: nat

definition entry_new :: entry where
  "entry_new = \<lparr>en_when = 0, en_value = Num 0\<rparr>"

definition mf_new :: max_filter where
  "mf_new = \<lparr>mf_s0 = entry_new, mf_s1 = entry_new, mf_s2 = entry_new, mf_count = 0\<rparr>"

definition mf_valid :: "max_filter \<Rightarrow> bool" where
  "mf_valid m \<longleftrightarrow> mf_count m \<noteq> 0"

definition mf_get :: "max_filter \<Rightarrow> fp" where
  "mf_get m = en_value (mf_s0 m)"

definition mf_reset :: "max_filter \<Rightarrow> max_filter" where
  "mf_reset m = m\<lparr>mf_count := 0, mf_s0 := entry_new, mf_s1 := entry_new, mf_s2 := entry_new\<rparr>"

definition better :: "fp \<Rightarrow> fp \<Rightarrow> bool" where
  "better a b \<longleftrightarrow> fp_le b a"

text \<open>The two stages of \<^verbatim>\<open>update\<close> after the first test: take the sample in, then age the entries.\<close>

definition mf_insert :: "entry \<Rightarrow> max_filter \<Rightarrow> max_filter" where
  "mf_insert e m =
     (if better (en_value e) (en_value (mf_s1 m)) then m\<lparr>mf_s1 := e, mf_s2 := e\<rparr>
      else if better (en_value e) (en_value (mf_s2 m)) then m\<lparr>mf_s2 := e\<rparr>
      else m)"

definition mf_age :: "entry \<Rightarrow> time_ns \<Rightarrow> max_filter \<Rightarrow> max_filter" where
  "mf_age e window m =
     (let now = en_when e in
      if window < now - en_when (mf_s0 m)
      then let m' = m\<lparr>mf_s0 := mf_s1 m, mf_s1 := mf_s2 m, mf_s2 := e\<rparr>
           in if window < now - en_when (mf_s0 m') then m'\<lparr>mf_s0 := mf_s1 m', mf_s1 := mf_s2 m'\<rparr> else m'
      else if en_when (mf_s1 m) = en_when (mf_s0 m) \<and> cdiv window 4 < now - en_when (mf_s1 m)
      then m\<lparr>mf_s1 := e, mf_s2 := e\<rparr>
      else if en_when (mf_s2 m) = en_when (mf_s1 m) \<and> cdiv window 2 < now - en_when (mf_s2 m)
      then m\<lparr>mf_s2 := e\<rparr>
      else m)"

definition mf_update :: "fp \<Rightarrow> time_ns \<Rightarrow> time_ns \<Rightarrow> max_filter \<Rightarrow> max_filter" where
  "mf_update val now window m0 =
     (let m = m0\<lparr>mf_count := mf_count m0 + 1\<rparr>; e = \<lparr>en_when = now, en_value = val\<rparr>
      in if mf_count m = 1 \<or> better val (en_value (mf_s0 m)) \<or> window < now - en_when (mf_s2 m)
         then m\<lparr>mf_s0 := e, mf_s1 := e, mf_s2 := e\<rparr>
         else mf_age e window (mf_insert e m))"

definition cap_entry :: "fp \<Rightarrow> entry \<Rightarrow> entry" where
  "cap_entry val e = (if better (en_value e) val then e\<lparr>en_value := val\<rparr> else e)"

definition mf_cap :: "fp \<Rightarrow> max_filter \<Rightarrow> max_filter" where
  "mf_cap val m = m\<lparr>mf_s0 := cap_entry val (mf_s0 m), mf_s1 := cap_entry val (mf_s1 m),
     mf_s2 := cap_entry val (mf_s2 m)\<rparr>"

section \<open>What the filter remembers\<close>

text \<open>
  The history is the list of the samples fed since the last reset, oldest
  first. An entry stands for position \<open>k\<close> of it when it is that sample and no
  later one is larger.
\<close>

definition dominates :: "(time_ns \<times> rat) list \<Rightarrow> nat \<Rightarrow> entry \<Rightarrow> bool" where
  "dominates h k e \<longleftrightarrow> k < length h \<and> en_when e = fst (h ! k) \<and> en_value e = Num (snd (h ! k))
     \<and> (\<forall>j. k \<le> j \<and> j < length h \<longrightarrow> snd (h ! j) \<le> snd (h ! k))"

definition mf_rel :: "time_ns \<Rightarrow> (time_ns \<times> rat) list \<Rightarrow> max_filter \<Rightarrow> bool" where
  "mf_rel window h m \<longleftrightarrow> mf_count m = length h \<and> (h \<noteq> [] \<longrightarrow>
     (\<exists>k0 k1 k2. k0 \<le> k1 \<and> k1 \<le> k2 \<and> dominates h k0 (mf_s0 m) \<and> dominates h k1 (mf_s1 m)
        \<and> dominates h k2 (mf_s2 m) \<and> fst (last h) - en_when (mf_s0 m) \<le> window))"

lemma better_num [simp]: "better (Num a) (Num b) \<longleftrightarrow> b \<le> a"
  by (auto simp: better_def fp_le_def)

lemma dominates_keep:
  "dominates h k e \<Longrightarrow> v \<le> snd (h ! k) \<Longrightarrow> dominates (h @ [(t, v)]) k e"
  by (auto simp: dominates_def nth_append less_Suc_eq)

lemma dominates_new:
  "dominates (h @ [(t, v)]) (length h) \<lparr>en_when = t, en_value = Num v\<rparr>"
  by (auto simp: dominates_def nth_append less_Suc_eq)

lemma dominates_value: "dominates h k e \<Longrightarrow> en_value e = Num (snd (h ! k))"
  by (simp add: dominates_def)

lemma dominates_index: "dominates h k e \<Longrightarrow> k \<le> length h"
  by (simp add: dominates_def)

text \<open>Taking a smaller sample in keeps three ordered entries that cover the history.\<close>

lemma mf_insert_rel:
  assumes "k0 \<le> k1" "k1 \<le> k2"
    and "dominates h k0 (mf_s0 m)" "dominates h k1 (mf_s1 m)" "dominates h k2 (mf_s2 m)"
    and "v \<le> snd (h ! k0)"
    and m'_def: "m' = mf_insert \<lparr>en_when = t, en_value = Num v\<rparr> m"
  shows "\<exists>k1 k2. k0 \<le> k1 \<and> k1 \<le> k2 \<and> dominates (h @ [(t, v)]) k0 (mf_s0 m')
    \<and> dominates (h @ [(t, v)]) k1 (mf_s1 m') \<and> dominates (h @ [(t, v)]) k2 (mf_s2 m')
    \<and> mf_s0 m' = mf_s0 m \<and> en_when (mf_s2 m') \<in> {t, en_when (mf_s2 m)}"
proof -
  note d = assms(3-5) and v = assms(3-5) [THEN dominates_value] and i = assms(3-5) [THEN dominates_index]
  note keep0 = dominates_keep [OF assms(3) assms(6), of t]
  have keep1: "dominates (h @ [(t, v)]) k1 (mf_s1 m)" if "\<not> snd (h ! k1) \<le> v"
    using that by (intro dominates_keep [OF d(2)]) simp
  have keep2: "dominates (h @ [(t, v)]) k2 (mf_s2 m)" if "\<not> snd (h ! k2) \<le> v"
    using that by (intro dominates_keep [OF d(3)]) simp
  show ?thesis
  proof (cases "snd (h ! k1) \<le> v")
    case True
    then show ?thesis
      using keep0 dominates_new [of h t v] i v
      by (intro exI [of _ "length h"]) (simp add: m'_def mf_insert_def)
  next
    case False
    note F1 = False
    show ?thesis
    proof (cases "snd (h ! k2) \<le> v")
      case True
      then show ?thesis
        using keep0 keep1 [OF F1] dominates_new [of h t v] i v F1 assms(1)
        by (intro exI [of _ k1] exI [of _ "length h"]) (simp add: m'_def mf_insert_def)
    next
      case False
      then show ?thesis
        using keep0 keep1 [OF F1] keep2 v F1 assms(1,2)
        by (intro exI [of _ k1] exI [of _ k2]) (simp add: m'_def mf_insert_def)
    qed
  qed
qed

text \<open>Ageing drops entries from the front only, and the newest sample is always young enough.\<close>

lemma mf_age_rel:
  assumes "k0 \<le> k1" "k1 \<le> k2" "0 \<le> window"
    and d: "dominates (h @ [(t, v)]) k0 (mf_s0 m)" "dominates (h @ [(t, v)]) k1 (mf_s1 m)"
      "dominates (h @ [(t, v)]) k2 (mf_s2 m)"
    and "t - en_when (mf_s2 m) \<le> window"
    and m'_def: "m' = mf_age \<lparr>en_when = t, en_value = Num v\<rparr> window m"
  shows "\<exists>k0 k1 k2. k0 \<le> k1 \<and> k1 \<le> k2 \<and> dominates (h @ [(t, v)]) k0 (mf_s0 m')
    \<and> dominates (h @ [(t, v)]) k1 (mf_s1 m') \<and> dominates (h @ [(t, v)]) k2 (mf_s2 m')
    \<and> t - en_when (mf_s0 m') \<le> window"
proof -
  let ?n = "length h" and ?e = "\<lparr>en_when = t, en_value = Num v\<rparr>"
  have new: "dominates (h @ [(t, v)]) ?n ?e" by (rule dominates_new)
  have i: "k0 \<le> ?n" "k1 \<le> ?n" "k2 \<le> ?n" using d by (auto simp: dominates_def)
  consider (two) "window < t - en_when (mf_s0 m)" "window < t - en_when (mf_s1 m)"
    | (one) "window < t - en_when (mf_s0 m)" "\<not> window < t - en_when (mf_s1 m)"
    | (none) "\<not> window < t - en_when (mf_s0 m)" by blast
  then show ?thesis
  proof cases
    case two
    then have "mf_s0 m' = mf_s2 m" "mf_s1 m' = ?e" "mf_s2 m' = ?e"
      by (simp_all add: m'_def mf_age_def Let_def)
    with new d(3) i assms(7) show ?thesis
      by (intro exI [of _ k2] exI [of _ ?n]) simp
  next
    case one
    then have "mf_s0 m' = mf_s1 m" "mf_s1 m' = mf_s2 m" "mf_s2 m' = ?e"
      by (simp_all add: m'_def mf_age_def Let_def)
    with new d i assms(1,2) one show ?thesis
      by (intro exI [of _ k1] exI [of _ k2] exI [of _ ?n]) simp
  next
    case none
    then have "mf_s0 m' = mf_s0 m"
      and "(mf_s1 m' = mf_s1 m \<and> mf_s2 m' = mf_s2 m) \<or> (mf_s1 m' = ?e \<and> mf_s2 m' = ?e)
        \<or> (mf_s1 m' = mf_s1 m \<and> mf_s2 m' = ?e)"
      by (simp_all add: m'_def mf_age_def Let_def)
    then consider "mf_s0 m' = mf_s0 m" "mf_s1 m' = mf_s1 m" "mf_s2 m' = mf_s2 m"
      | "mf_s0 m' = mf_s0 m" "mf_s1 m' = ?e" "mf_s2 m' = ?e"
      | "mf_s0 m' = mf_s0 m" "mf_s1 m' = mf_s1 m" "mf_s2 m' = ?e" by blast
    then show ?thesis
    proof cases
      case 1 with d assms(1,2) none show ?thesis by (intro exI [of _ k0] exI [of _ k1] exI [of _ k2]) simp
    next
      case 2 with d new i none show ?thesis by (intro exI [of _ k0] exI [of _ ?n]) simp
    next
      case 3 with d new i assms(1) none show ?thesis
        by (intro exI [of _ k0] exI [of _ k1] exI [of _ ?n]) simp
    qed
  qed
qed

lemma mf_update_rel:
  assumes "mf_rel window h m" and "0 \<le> window"
  shows "mf_rel window (h @ [(t, v)]) (mf_update (Num v) t window m)"
proof -
  let ?e = "\<lparr>en_when = t, en_value = Num v\<rparr>"
  define m1 where "m1 = m\<lparr>mf_count := mf_count m + 1\<rparr>"
  have c: "mf_count m1 = Suc (length h)" using assms(1) by (simp add: m1_def mf_rel_def)
  show ?thesis
  proof (cases "h = [] \<or> better (Num v) (en_value (mf_s0 m)) \<or> window < t - en_when (mf_s2 m)")
    case True
    then have "mf_update (Num v) t window m = m1\<lparr>mf_s0 := ?e, mf_s1 := ?e, mf_s2 := ?e\<rparr>"
      using c by (auto simp: mf_update_def Let_def m1_def)
    then show ?thesis
      using c dominates_new [of h t v] assms(2) by (auto simp: mf_rel_def)
  next
    case False
    from assms(1) False obtain k0 k1 k2 where k: "k0 \<le> k1" "k1 \<le> k2" "dominates h k0 (mf_s0 m1)"
      "dominates h k1 (mf_s1 m1)" "dominates h k2 (mf_s2 m1)"
      by (auto simp: mf_rel_def m1_def)
    have small: "v \<le> snd (h ! k0)" using False k(3) by (simp add: dominates_def m1_def)
    let ?m2 = "mf_insert ?e m1"
    obtain j1 j2 where j: "k0 \<le> j1" "j1 \<le> j2" "dominates (h @ [(t, v)]) k0 (mf_s0 ?m2)"
      "dominates (h @ [(t, v)]) j1 (mf_s1 ?m2)" "dominates (h @ [(t, v)]) j2 (mf_s2 ?m2)"
      "en_when (mf_s2 ?m2) \<in> {t, en_when (mf_s2 m1)}"
      using mf_insert_rel [OF k small refl, of t] by blast
    have young: "t - en_when (mf_s2 ?m2) \<le> window"
      using j(6) False assms(2) by (auto simp: m1_def)
    have u: "mf_update (Num v) t window m = mf_age ?e window ?m2"
      using False c by (auto simp: mf_update_def Let_def m1_def)
    have "mf_count (mf_age ?e window ?m2) = Suc (length h)"
      using c by (simp add: mf_age_def mf_insert_def Let_def)
    with mf_age_rel [OF j(1,2) assms(2) j(3-5) young refl] u show ?thesis
      by (simp add: mf_rel_def)
  qed
qed

definition mf_feed :: "time_ns \<Rightarrow> (time_ns \<times> rat) list \<Rightarrow> max_filter" where
  "mf_feed window h = foldl (\<lambda>m (t, v). mf_update (Num v) t window m) mf_new h"

lemma mf_feed_rel: "0 \<le> window \<Longrightarrow> mf_rel window h (mf_feed window h)"
proof (induction h rule: rev_induct)
  case Nil
  then show ?case by (simp add: mf_feed_def mf_rel_def mf_new_def)
next
  case (snoc x xs)
  then show ?case by (cases x) (simp add: mf_feed_def mf_update_rel)
qed

text \<open>
  C37. The bandwidth estimate is a true windowed maximum of what was measured:
  whatever samples were fed since the last reset, the filter returns the exact
  maximum of all the samples from some point on, and that point is a sample at
  most one window older than the newest. So it never invents a bandwidth, never
  remembers one beyond the window, and is never below the newest sample.
\<close>

theorem max_filter_is_suffix_maximum:
  assumes "0 \<le> window" and "h \<noteq> []"
  shows "\<exists>k < length h. mf_get (mf_feed window h) = Num (Max (snd ` set (drop k h)))
    \<and> fst (last h) - fst (h ! k) \<le> window"
proof -
  from mf_feed_rel [OF assms(1), of h] assms(2) obtain k where
    k: "dominates h k (mf_s0 (mf_feed window h))" "fst (last h) - en_when (mf_s0 (mf_feed window h)) \<le> window"
    by (auto simp: mf_rel_def)
  have "Max (snd ` set (drop k h)) = snd (h ! k)"
  proof (rule Max_eqI)
    show "snd (h ! k) \<in> snd ` set (drop k h)"
      using k(1) by (auto simp: dominates_def in_set_conv_nth intro!: exI [of _ 0] imageI)
    show "y \<le> snd (h ! k)" if "y \<in> snd ` set (drop k h)" for y
    proof -
      from that obtain i where "i < length h - k" "y = snd (h ! (k + i))"
        by (auto simp: in_set_conv_nth)
      with k(1) show ?thesis by (simp add: dominates_def)
    qed
  qed simp
  with k show ?thesis by (auto simp: mf_get_def dominates_def)
qed

theorem max_filter_is_suffix_maximum_witness:
  "\<exists>k < length [(0 :: int, 5 :: rat), (3, 2), (12, 1)].
     mf_get (mf_feed 10 [(0, 5), (3, 2), (12, 1)]) = Num (Max (snd ` set (drop k [(0 :: int, 5), (3, 2), (12, 1)])))
   \<and> fst (last [(0 :: int, 5 :: rat), (3, 2), (12, 1)]) - fst ([(0 :: int, 5 :: rat), (3, 2), (12, 1)] ! k) \<le> 10"
  using max_filter_is_suffix_maximum [of 10 "[(0, 5), (3, 2), (12, 1)]"] by simp

section \<open>Values stay finite\<close>

definition mf_finite :: "max_filter \<Rightarrow> bool" where
  "mf_finite m \<longleftrightarrow> is_num (en_value (mf_s0 m)) \<and> is_num (en_value (mf_s1 m)) \<and> is_num (en_value (mf_s2 m))"

lemma mf_cap_le:
  assumes "mf_finite m"
  shows "fp_le (mf_get (mf_cap (Num v) m)) (Num v) \<and> fp_le (mf_get (mf_cap (Num v) m)) (mf_get m)"
proof -
  from assms obtain a where "en_value (mf_s0 m) = Num a"
    by (cases "en_value (mf_s0 m)") (auto simp: mf_finite_def)
  then show ?thesis by (auto simp: mf_get_def mf_cap_def cap_entry_def fp_le_def)
qed

end
