(* ===== verification/Bitrate_Controller.thy ===== *)
theory Bitrate_Controller
  imports Max_Filter Wivrn_Packets
begin

text \<open>
  The automatic bitrate control of \<^verbatim>\<open>helper/src/wivrn/bitrate_controller.{h,cpp}\<close>:
  the frame ring that joins the per-stream feedback, the sliding window of
  samples, the two control laws (AIMD and delivered bandwidth), and the radio
  trend. The object's members are one record; the members of the bandwidth
  estimator and of the radio trend are grouped in records of their own. The
  mutex makes every public member function one atomic step, so each is a
  function from state to state, with the returned
  \<^verbatim>\<open>std::optional<uint32_t>\<close> beside it. \<^verbatim>\<open>float\<close> and \<^verbatim>\<open>double\<close> values are binary32
  and binary64; the log lines are left out.
\<close>

section \<open>Configuration and constants\<close>

datatype bitrate_mode = Aimd | Bbr

record bc_config =
  cf_enabled :: bool
  cf_min_bitrate_bps :: u32
  cf_control :: bitrate_mode

text \<open>A \<^verbatim>\<open>double\<close> literal: the nearest binary64 value.\<close>

definition lit :: "rat \<Rightarrow> fp" where
  "lit q = round_fp F64 q"

definition window_duration :: time_ns where "window_duration = ms 2000"
definition min_samples :: nat where "min_samples = 20"
definition evaluation_interval :: time_ns where "evaluation_interval = ms 250"
definition utilisation_percentile :: fp where "utilisation_percentile = lit (9 / 10)"
definition frame_ring_size :: nat where "frame_ring_size = 16"
definition video_stream_count :: u8 where "video_stream_count = 3"

definition utilisation_decrease :: fp where "utilisation_decrease = lit (85 / 100)"
definition utilisation_increase :: fp where "utilisation_increase = lit (60 / 100)"
definition utilisation_severe :: fp where "utilisation_severe = lit 1"
definition lost_frames_decrease :: nat where "lost_frames_decrease = 1"
definition lost_frames_severe :: nat where "lost_frames_severe = 3"
definition late_frames_decrease :: nat where "late_frames_decrease = 4"
definition late_frames_severe :: nat where "late_frames_severe = 10"

definition decrease_factor :: fp where "decrease_factor = lit (7 / 10)"
definition deep_decrease_factor :: fp where "deep_decrease_factor = lit (4 / 10)"
definition decrease_cooldown :: time_ns where "decrease_cooldown = ms 2000"
definition increase_step_min :: u32 where "increase_step_min = 2000000"
definition increase_step_ratio :: fp where "increase_step_ratio = lit (5 / 100)"
definition increase_hold :: time_ns where "increase_hold = ms 5000"

definition recovery_confirm :: time_ns where "recovery_confirm = ms 2500"
definition recovery_step_interval :: time_ns where "recovery_step_interval = ms 1000"
definition recovery_factor :: fp where "recovery_factor = lit 2"
definition recovery_target_backoff :: fp where "recovery_target_backoff = lit (75 / 100)"

definition radio_trend_window :: time_ns where "radio_trend_window = ms 4000"
definition radio_max_age :: time_ns where "radio_max_age = ms 5000"
definition radio_min_samples :: nat where "radio_min_samples = 4"
definition radio_ema_alpha :: fp where "radio_ema_alpha = lit (4 / 10)"
definition radio_fall_db :: fp where "radio_fall_db = lit 6"
definition radio_low_rssi_dbm :: fp where "radio_low_rssi_dbm = lit (- 65)"
definition radio_link_speed_headroom :: fp where "radio_link_speed_headroom = lit 2"
definition radio_link_speed_collapse :: fp where "radio_link_speed_collapse = lit (5 / 10)"
definition radio_step_interval :: time_ns where "radio_step_interval = ms 4000"
definition radio_rise_db :: fp where "radio_rise_db = lit 3"
definition radio_stable_slope :: fp where "radio_stable_slope = lit (75 / 100)"
definition radio_stable_hold :: time_ns where "radio_stable_hold = ms 3000"

definition estimator_window :: time_ns where "estimator_window = ms 10000"
definition app_limited_wire_fraction :: fp where "app_limited_wire_fraction = lit (30 / 100)"
definition unpaced_wire_fraction :: fp where "unpaced_wire_fraction = lit (10 / 100)"
definition estimator_min_samples :: nat where "estimator_min_samples = 12"

definition gain_startup :: fp where "gain_startup = lit (125 / 100)"
definition gain_steady :: fp where "gain_steady = lit (85 / 100)"
definition gain_probe :: fp where "gain_probe = lit (110 / 100)"
definition gain_radio :: fp where "gain_radio = lit (75 / 100)"
definition backoff_factor :: fp where "backoff_factor = lit (70 / 100)"
definition round_duration :: time_ns where "round_duration = ms 500"
definition startup_growth :: fp where "startup_growth = lit (125 / 100)"
definition startup_stall_rounds :: nat where "startup_stall_rounds = 3"
definition probe_interval :: time_ns where "probe_interval = ms 8000"
definition probe_duration :: time_ns where "probe_duration = ms 500"
definition steady_interval :: time_ns where "steady_interval = ms 1000"
definition steady_change_threshold :: fp where "steady_change_threshold = lit (5 / 100)"
definition change_settle :: time_ns where "change_settle = ms 250"
definition slowdown_backoff :: fp where "slowdown_backoff = lit (160 / 100)"

section \<open>State\<close>

record frame_state =
  fs_index :: u64
  fs_first :: int
  fs_last :: int
  fs_valid :: bool
  fs_lost :: bool
  fs_late :: bool
  fs_bytes :: u64

definition frame_state_new :: frame_state where
  "frame_state_new = \<lparr>fs_index = - 1, fs_first = 0, fs_last = 0, fs_valid = False, fs_lost = False,
     fs_late = False, fs_bytes = 0\<rparr>"

record bc_sample =
  sm_when :: time_ns
  sm_utilisation :: fp
  sm_lost :: bool
  sm_late :: bool
  sm_rate :: fp

record radio_sample =
  rs_when :: time_ns
  rs_rssi_dbm :: fp
  rs_link_speed_mbps :: int

record radio_trend =
  rt_usable :: bool
  rt_rssi_dbm :: fp
  rt_slope_db_per_s :: fp
  rt_span_s :: fp
  rt_delta_db :: fp
  rt_link_speed_mbps :: int
  rt_link_speed_peak_mbps :: int

definition radio_trend_new :: radio_trend where
  "radio_trend_new = \<lparr>rt_usable = False, rt_rssi_dbm = Num 0, rt_slope_db_per_s = Num 0, rt_span_s = Num 0,
     rt_delta_db = Num 0, rt_link_speed_mbps = 0, rt_link_speed_peak_mbps = 0\<rparr>"

datatype aimd_state = Steady | Recovering

datatype bbr_state = BbrStartup | BbrSteady | BbrProbe

record bc_stats =
  st_utilisation :: fp
  st_lost :: nat
  st_late :: nat
  st_count :: nat
  st_rate :: fp
  st_rate_count :: nat

record bc_estimator =
  es_bbr_st :: bbr_state
  es_bandwidth :: max_filter
  es_bandwidth_samples :: nat
  es_last_bandwidth_sample :: time_ns
  es_startup_mark :: fp
  es_startup_stalled :: nat
  es_round_started :: time_ns
  es_last_probe :: time_ns
  es_probe_until :: time_ns
  es_last_bbr_change :: time_ns

record bc_radio_state =
  rd_window :: "radio_sample list"
  rd_ema :: "fp option"
  rd_last_sample :: time_ns
  rd_last_step :: time_ns
  rd_hold :: bool
  rd_stable_since :: "time_ns option"

record bc_frames =
  fr_frames :: "frame_state list"
  fr_newest_frame :: u64
  fr_has_frames :: bool
  fr_stale_before :: u64
  fr_frame_period :: int
  fr_pacing_window :: fp

record bc_window =
  wn_window :: "bc_sample list"
  wn_healthy_since :: "time_ns option"
  wn_last_evaluation :: time_ns
  wn_last_decrease :: time_ns

record bitrate_controller =
  bc_conf :: bc_config
  bc_client_enabled :: bool
  bc_client_mode :: "bitrate_mode option"
  bc_radio_aware :: bool
  bc_ceiling :: u32
  bc_bitrate :: u32
  bc_min_bitrate :: u32
  bc_st :: aimd_state
  bc_recovery_target :: u32
  bc_first_recovery_step :: bool
  bc_fr :: bc_frames
  bc_est :: bc_estimator
  bc_wn :: bc_window
  bc_radio :: bc_radio_state

definition frames_new :: "frame_state list" where
  "frames_new = replicate frame_ring_size frame_state_new"

definition estimator_new :: bc_estimator where
  "estimator_new = \<lparr>es_bbr_st = BbrStartup, es_bandwidth = mf_new, es_bandwidth_samples = 0,
     es_last_bandwidth_sample = 0, es_startup_mark = Num 0, es_startup_stalled = 0, es_round_started = 0,
     es_last_probe = 0, es_probe_until = 0, es_last_bbr_change = 0\<rparr>"

definition radio_state_new :: bc_radio_state where
  "radio_state_new = \<lparr>rd_window = [], rd_ema = None, rd_last_sample = 0, rd_last_step = 0, rd_hold = False,
     rd_stable_since = None\<rparr>"

definition bitrate_controller_new :: bitrate_controller where
  "bitrate_controller_new =
     \<lparr>bc_conf = \<lparr>cf_enabled = True, cf_min_bitrate_bps = 10000000, cf_control = Aimd\<rparr>,
      bc_client_enabled = True, bc_client_mode = None, bc_radio_aware = True,
      bc_ceiling = 0, bc_bitrate = 0, bc_min_bitrate = 0,
      bc_st = Steady, bc_recovery_target = 0, bc_first_recovery_step = True,
      bc_fr = \<lparr>fr_frames = frames_new, fr_newest_frame = 0, fr_has_frames = False, fr_stale_before = 0,
        fr_frame_period = 0, fr_pacing_window = Num 0\<rparr>,
      bc_est = estimator_new,
      bc_wn = \<lparr>wn_window = [], wn_healthy_since = None, wn_last_evaluation = 0, wn_last_decrease = 0\<rparr>,
      bc_radio = radio_state_new\<rparr>"

section \<open>Helpers\<close>

definition mode_locked :: "bitrate_controller \<Rightarrow> bitrate_mode" where
  "mode_locked c = (case bc_client_mode c of Some m \<Rightarrow> m | None \<Rightarrow> cf_control (bc_conf c))"

definition bc_enabled :: "bitrate_controller \<Rightarrow> bool" where
  "bc_enabled c \<longleftrightarrow> cf_enabled (bc_conf c) \<and> bc_client_enabled c"

text \<open>
  \<^verbatim>\<open>std::clamp<uint64_t>(value, min_bitrate, ceiling)\<close>, narrowed. The 64-bit value
  is an integer: none of the sums and conversions that form it wraps.
\<close>

definition bc_clamp :: "bitrate_controller \<Rightarrow> int \<Rightarrow> u32" where
  "bc_clamp c v = (if v < uint (bc_min_bitrate c) then bc_min_bitrate c
     else if uint (bc_ceiling c) < v then bc_ceiling c else word_of_int v)"

text \<open>\<^verbatim>\<open>uint64_t(bitrate * factor)\<close> of a bitrate and a \<^verbatim>\<open>double\<close>.\<close>

definition scale :: "u32 \<Rightarrow> fp \<Rightarrow> int" where
  "scale b factor = fp_to_u64 (fp_mul F64 (fp_of_int F64 (uint b)) factor)"

definition increase_step :: "bitrate_controller \<Rightarrow> u32" where
  "increase_step c = max increase_step_min
     (word_of_int (fp_to_u32 (fp_mul F64 (fp_of_int F64 (uint (bc_ceiling c))) increase_step_ratio)))"

definition flush :: "bitrate_controller \<Rightarrow> bitrate_controller" where
  "flush c = c\<lparr>bc_wn := (bc_wn c)\<lparr>wn_window := [], wn_healthy_since := None, wn_last_evaluation := 0\<rparr>,
     bc_fr := (if fr_has_frames (bc_fr c)
       then (bc_fr c)\<lparr>fr_stale_before := fr_newest_frame (bc_fr c) + 1\<rparr> else bc_fr c)\<rparr>"

definition flush_radio :: "bitrate_controller \<Rightarrow> bitrate_controller" where
  "flush_radio c = c\<lparr>bc_radio := (bc_radio c)\<lparr>rd_window := [], rd_ema := None, rd_last_sample := 0,
     rd_last_step := 0, rd_hold := False, rd_stable_since := None\<rparr>\<rparr>"

definition flush_estimator :: "bitrate_controller \<Rightarrow> bitrate_controller" where
  "flush_estimator c = c\<lparr>bc_est := (bc_est c)\<lparr>es_bandwidth := mf_reset (es_bandwidth (bc_est c)),
     es_bandwidth_samples := 0, es_last_bandwidth_sample := 0, es_bbr_st := BbrStartup,
     es_startup_mark := Num 0, es_startup_stalled := 0, es_round_started := 0, es_last_probe := 0,
     es_probe_until := 0, es_last_bbr_change := 0\<rparr>\<rparr>"

definition min_loaded_wire_ns :: "bitrate_controller \<Rightarrow> int" where
  "min_loaded_wire_ns c =
     (if fr_frame_period (bc_fr c) \<le> 0 then 0
      else let fraction = (if fp_lt (Num 0) (fr_pacing_window (bc_fr c))
             then fp_mul F64 app_limited_wire_fraction (fr_pacing_window (bc_fr c))
             else unpaced_wire_fraction)
           in fp_to_i64 (fp_mul F64 fraction (fp_of_int F64 (fr_frame_period (bc_fr c)))))"

section \<open>Switches and resets\<close>

text \<open>The part \<^verbatim>\<open>configure\<close> and \<^verbatim>\<open>reset_locked\<close> share: back to the ceiling, no frames.\<close>

definition back_to_ceiling :: "bitrate_controller \<Rightarrow> bitrate_controller" where
  "back_to_ceiling c = flush (c\<lparr>bc_bitrate := bc_ceiling c, bc_recovery_target := bc_ceiling c, bc_st := Steady,
     bc_first_recovery_step := True,
     bc_fr := (bc_fr c)\<lparr>fr_frames := frames_new, fr_has_frames := False, fr_stale_before := 0\<rparr>\<rparr>)"

definition bc_configure ::
    "bc_config \<Rightarrow> u32 \<Rightarrow> bool \<Rightarrow> bool \<Rightarrow> bitrate_mode option \<Rightarrow> bitrate_controller \<Rightarrow> bitrate_controller" where
  "bc_configure conf ceiling_bps client_enabled radio_aware client_mode c =
     flush_estimator (flush_radio (back_to_ceiling
       (c\<lparr>bc_conf := conf, bc_client_enabled := client_enabled, bc_radio_aware := radio_aware,
          bc_client_mode := client_mode, bc_ceiling := ceiling_bps,
          bc_min_bitrate := min (cf_min_bitrate_bps conf)
            (if ceiling_bps \<noteq> 0 then ceiling_bps else cf_min_bitrate_bps conf)\<rparr>)))"

definition reset_locked :: "bitrate_controller \<Rightarrow> u32 option \<times> bitrate_controller" where
  "reset_locked c =
     (if bc_ceiling c = 0 then (None, c)
      else let c1 = flush_estimator (back_to_ceiling c);
               c2 = c1\<lparr>bc_radio := (bc_radio c1)\<lparr>rd_hold := False, rd_stable_since := None, rd_last_step := 0\<rparr>\<rparr>
           in (Some (bc_bitrate c2), c2))"

definition set_client_mode :: "bitrate_mode option \<Rightarrow> bitrate_controller \<Rightarrow> u32 option \<times> bitrate_controller" where
  "set_client_mode m c =
     (if m = bc_client_mode c then (None, c)
      else let c' = c\<lparr>bc_client_mode := m\<rparr>
           in if mode_locked c = mode_locked c' then (None, c') else reset_locked c')"

definition set_pacing_window :: "fp \<Rightarrow> bitrate_controller \<Rightarrow> bitrate_controller" where
  "set_pacing_window window c = c\<lparr>bc_fr := (bc_fr c)\<lparr>fr_pacing_window := fp_clamp window (Num 0) (Num 1)\<rparr>\<rparr>"

definition set_client_enabled :: "bool \<Rightarrow> bitrate_controller \<Rightarrow> u32 option \<times> bitrate_controller" where
  "set_client_enabled enabled c =
     (if enabled = bc_client_enabled c then (None, c) else reset_locked (c\<lparr>bc_client_enabled := enabled\<rparr>))"

definition set_radio_aware :: "bool \<Rightarrow> bitrate_controller \<Rightarrow> bitrate_controller" where
  "set_radio_aware enabled c =
     (if enabled = bc_radio_aware c then c else flush_radio (c\<lparr>bc_radio_aware := enabled\<rparr>))"

definition set_ceiling :: "u32 \<Rightarrow> bitrate_controller \<Rightarrow> u32 option \<times> bitrate_controller" where
  "set_ceiling ceiling_bps c =
     (if ceiling_bps = 0 \<or> ceiling_bps = bc_ceiling c then (None, c)
      else reset_locked (c\<lparr>bc_ceiling := ceiling_bps,
             bc_min_bitrate := min (cf_min_bitrate_bps (bc_conf c)) ceiling_bps\<rparr>))"

definition bandwidth_estimate :: "bitrate_controller \<Rightarrow> u32" where
  "bandwidth_estimate c =
     (if mode_locked c \<noteq> Bbr \<or> \<not> mf_valid (es_bandwidth (bc_est c))
        \<or> es_bandwidth_samples (bc_est c) < estimator_min_samples then 0
      else word_of_int (fp_to_u32 (fp_min (mf_get (es_bandwidth (bc_est c))) (Num (2 ^ 32 - 1)))))"

datatype state_name = SnOff | SnSteady | SnRecovering | SnStartup | SnProbe

record bc_status =
  ss_bitrate_bps :: u32
  ss_ceiling_bps :: u32
  ss_control :: bitrate_mode
  ss_state :: state_name
  ss_radio_hold :: bool
  ss_estimate_bps :: u32

definition snapshot :: "bitrate_controller \<Rightarrow> bc_status" where
  "snapshot c =
     (let s = \<lparr>ss_bitrate_bps = bc_bitrate c, ss_ceiling_bps = bc_ceiling c, ss_control = mode_locked c,
               ss_state = SnOff, ss_radio_hold = False, ss_estimate_bps = bandwidth_estimate c\<rparr>
      in if \<not> bc_enabled c then s
         else s\<lparr>ss_state := (if mode_locked c = Bbr
                 then (case es_bbr_st (bc_est c) of BbrStartup \<Rightarrow> SnStartup | BbrSteady \<Rightarrow> SnSteady
                        | BbrProbe \<Rightarrow> SnProbe)
                 else if bc_st c = Recovering then SnRecovering else SnSteady),
               ss_radio_hold := rd_hold (bc_radio c) \<and> bc_radio_aware c\<rparr>)"

section \<open>The frame ring\<close>

definition close_frame :: "nat \<Rightarrow> time_ns \<Rightarrow> bitrate_controller \<Rightarrow> bitrate_controller" where
  "close_frame i now c =
     (let frame = fr_frames (bc_fr c) ! i in
      if fs_index frame = - 1 then c
      else
        let fresh = (fr_stale_before (bc_fr c) \<le> fs_index frame);
            push = (\<lambda>s c. if fresh then c\<lparr>bc_wn := (bc_wn c)\<lparr>wn_window := wn_window (bc_wn c) @ [s]\<rparr>\<rparr> else c);
            c1 = (if fs_lost frame
                  then push \<lparr>sm_when = now, sm_utilisation = Num 0, sm_lost = True, sm_late = fs_late frame,
                             sm_rate = Num 0\<rparr> c
                  else if fs_valid frame \<and> fs_first frame \<noteq> 0 \<and> fs_first frame \<le> fs_last frame
                    \<and> 0 < fr_frame_period (bc_fr c)
                  then let wire_ns = fs_last frame - fs_first frame;
                           measured = (mode_locked c = Bbr \<and> 0 < wire_ns \<and> fs_bytes frame \<noteq> 0
                             \<and> min_loaded_wire_ns c \<le> wire_ns);
                           rate = (if measured
                             then fp_div F64 (fp_mul F64 (lit 8000000000) (fp_of_int F64 (uint (fs_bytes frame))))
                                    (fp_of_int F64 wire_ns)
                             else Num 0);
                           c2 = (if measured
                             then c\<lparr>bc_est := (bc_est c)\<lparr>
                                      es_bandwidth := mf_update rate now estimator_window (es_bandwidth (bc_est c)),
                                      es_bandwidth_samples := es_bandwidth_samples (bc_est c) + 1,
                                      es_last_bandwidth_sample := now\<rparr>\<rparr>
                             else c)
                       in push \<lparr>sm_when = now,
                                sm_utilisation = fp_convert F32 (fp_div F64 (fp_of_int F64 wire_ns)
                                  (fp_of_int F64 (fr_frame_period (bc_fr c)))),
                                sm_lost = False, sm_late = fs_late frame, sm_rate = rate\<rparr> c2
                  else c)
        in c1\<lparr>bc_fr := (bc_fr c1)\<lparr>fr_frames := (fr_frames (bc_fr c1))[i := frame_state_new]\<rparr>\<rparr>)"

text \<open>
  The lookup of a frame's slot that \<^verbatim>\<open>on_frame_bytes\<close> and \<^verbatim>\<open>on_feedback\<close> share: no
  slot for a frame that has already become a sample, otherwise the slot, with
  the frame that was in it closed.
\<close>

definition ring_slot :: "u64 \<Rightarrow> time_ns \<Rightarrow> bitrate_controller \<Rightarrow> (nat \<times> bitrate_controller) option" where
  "ring_slot idx now c =
     (if fr_has_frames (bc_fr c) \<and> idx \<le> fr_newest_frame (bc_fr c)
         \<and> idx + of_nat frame_ring_size \<le> fr_newest_frame (bc_fr c) then None
      else
        let c1 = (if \<not> fr_has_frames (bc_fr c) \<or> fr_newest_frame (bc_fr c) < idx
                  then c\<lparr>bc_fr := (bc_fr c)\<lparr>fr_newest_frame := idx, fr_has_frames := True\<rparr>\<rparr> else c);
            i = unat (idx mod of_nat frame_ring_size);
            c2 = (if fs_index (fr_frames (bc_fr c1) ! i) \<noteq> idx
                  then let c' = close_frame i now c1
                       in c'\<lparr>bc_fr := (bc_fr c')\<lparr>fr_frames :=
                            (fr_frames (bc_fr c'))[i := (fr_frames (bc_fr c') ! i)\<lparr>fs_index := idx\<rparr>]\<rparr>\<rparr>
                  else c1)
        in Some (i, c2))"

definition on_slot :: "nat \<Rightarrow> (frame_state \<Rightarrow> frame_state) \<Rightarrow> bitrate_controller \<Rightarrow> bitrate_controller" where
  "on_slot i f c = c\<lparr>bc_fr := (bc_fr c)\<lparr>fr_frames := (fr_frames (bc_fr c))[i := f (fr_frames (bc_fr c) ! i)]\<rparr>\<rparr>"

definition on_frame_bytes :: "u64 \<Rightarrow> u8 \<Rightarrow> u32 \<Rightarrow> time_ns \<Rightarrow> bitrate_controller \<Rightarrow> bitrate_controller" where
  "on_frame_bytes idx stream bytes now c =
     (if mode_locked c \<noteq> Bbr \<or> \<not> cf_enabled (bc_conf c) \<or> \<not> bc_client_enabled c \<or> bc_ceiling c = 0 then c
      else if video_stream_count \<le> stream \<or> bytes = 0 then c
      else case ring_slot idx now c of
        None \<Rightarrow> c
      | Some (i, c') \<Rightarrow> on_slot i (\<lambda>f. f\<lparr>fs_bytes := fs_bytes f + ucast bytes\<rparr>) c')"

section \<open>Percentiles of the window\<close>

text \<open>\<^verbatim>\<open>std::nth_element\<close>: the element that stands at position \<open>n\<close> when the values are sorted.\<close>

fun fp_insort :: "fp \<Rightarrow> fp list \<Rightarrow> fp list" where
  "fp_insort x [] = [x]"
| "fp_insort x (y # ys) = (if fp_lt y x then y # fp_insort x ys else x # y # ys)"

fun fp_sort :: "fp list \<Rightarrow> fp list" where
  "fp_sort [] = []"
| "fp_sort (x # xs) = fp_insort x (fp_sort xs)"

definition percentile_index :: "nat \<Rightarrow> nat" where
  "percentile_index len = min (len - 1) (nat (fp_to_u64 (fp_mul F64 utilisation_percentile (fp_of_int F64 (int len)))))"

definition percentile :: "fp list \<Rightarrow> fp" where
  "percentile xs = (if xs = [] then Num 0 else fp_sort xs ! percentile_index (length xs))"

definition trim_window :: "time_ns \<Rightarrow> bc_sample list \<Rightarrow> bc_sample list" where
  "trim_window now w = dropWhile (\<lambda>s. window_duration < now - sm_when s) w"

definition window_stats :: "bc_sample list \<Rightarrow> bc_stats" where
  "window_stats w =
     (let lost = length (filter sm_lost w);
          utilisation = percentile (map sm_utilisation (filter (\<lambda>s. \<not> sm_lost s) w));
          rates = filter (fp_lt (Num 0)) (map sm_rate w)
      in \<lparr>st_utilisation = (if lost \<noteq> 0 then fp_max utilisation utilisation_severe else utilisation),
          st_lost = lost, st_late = length (filter sm_late w), st_count = length w,
          st_rate = percentile rates, st_rate_count = length rates\<rparr>)"

definition analyse :: "time_ns \<Rightarrow> bitrate_controller \<Rightarrow> bc_stats \<times> bitrate_controller" where
  "analyse now c =
     (let w = trim_window now (wn_window (bc_wn c))
      in (window_stats w, c\<lparr>bc_wn := (bc_wn c)\<lparr>wn_window := w\<rparr>\<rparr>))"

section \<open>The AIMD law\<close>

definition is_severe :: "bc_stats \<Rightarrow> bool" where
  "is_severe s \<longleftrightarrow> fp_lt utilisation_severe (st_utilisation s) \<or> lost_frames_severe \<le> st_lost s
     \<or> late_frames_severe \<le> st_late s"

definition is_degraded :: "bc_stats \<Rightarrow> bool" where
  "is_degraded s \<longleftrightarrow> is_severe s \<or> fp_lt utilisation_decrease (st_utilisation s)
     \<or> lost_frames_decrease \<le> st_lost s \<or> late_frames_decrease \<le> st_late s"

definition is_healthy :: "bc_stats \<Rightarrow> bool" where
  "is_healthy s \<longleftrightarrow> fp_lt (st_utilisation s) utilisation_increase \<and> st_lost s = 0 \<and> st_late s = 0"

text \<open>\<^verbatim>\<open>if (bitrate == previous) return {}; ... return bitrate;\<close>\<close>

definition changed :: "u32 \<Rightarrow> bitrate_controller \<Rightarrow> u32 option \<times> bitrate_controller" where
  "changed previous c = (if bc_bitrate c = previous then None else Some (bc_bitrate c), c)"

abbreviation set_healthy_since :: "time_ns option \<Rightarrow> bitrate_controller \<Rightarrow> bitrate_controller" where
  "set_healthy_since t c \<equiv> c\<lparr>bc_wn := (bc_wn c)\<lparr>wn_healthy_since := t\<rparr>\<rparr>"

abbreviation set_last_decrease :: "time_ns \<Rightarrow> bitrate_controller \<Rightarrow> bitrate_controller" where
  "set_last_decrease t c \<equiv> c\<lparr>bc_wn := (bc_wn c)\<lparr>wn_last_decrease := t\<rparr>\<rparr>"

abbreviation set_hold :: "bool \<Rightarrow> bitrate_controller \<Rightarrow> bitrate_controller" where
  "set_hold h c \<equiv> c\<lparr>bc_radio := (bc_radio c)\<lparr>rd_hold := h\<rparr>\<rparr>"

definition aimd_decrease :: "bool \<Rightarrow> bitrate_controller \<Rightarrow> bitrate_controller" where
  "aimd_decrease severe c =
     (let c1 = (if bc_st c = Recovering
                then c\<lparr>bc_recovery_target := bc_clamp c (scale (bc_recovery_target c) recovery_target_backoff)\<rparr>
                else c);
          c2 = (if severe
                then let c' = (if bc_st c1 \<noteq> Recovering then c1\<lparr>bc_recovery_target := bc_bitrate c1\<rparr> else c1)
                     in set_hold False (c'\<lparr>bc_bitrate := bc_clamp c' (scale (bc_bitrate c') deep_decrease_factor),
                          bc_st := Recovering, bc_first_recovery_step := True\<rparr>)
                else c1\<lparr>bc_bitrate := bc_clamp c1 (scale (bc_bitrate c1) decrease_factor)\<rparr>);
          c3 = (if bc_st c2 = Recovering \<and> bc_recovery_target c2 \<le> bc_bitrate c2 then c2\<lparr>bc_st := Steady\<rparr> else c2)
      in flush c3)"

definition aimd_rebound :: "bitrate_controller \<Rightarrow> bitrate_controller" where
  "aimd_rebound c =
     (let c1 = c\<lparr>bc_bitrate := min (bc_recovery_target c) (bc_clamp c (scale (bc_bitrate c) recovery_factor)),
                 bc_first_recovery_step := False\<rparr>;
          c2 = (if bc_recovery_target c1 \<le> bc_bitrate c1 then c1\<lparr>bc_st := Steady\<rparr> else c1)
      in flush c2)"

definition aimd_increase :: "bitrate_controller \<Rightarrow> bitrate_controller" where
  "aimd_increase c =
     (let b = bc_clamp c (uint (bc_bitrate c) + uint (increase_step c))
      in flush (c\<lparr>bc_bitrate := b, bc_recovery_target := b\<rparr>))"

definition evaluate_aimd :: "time_ns \<Rightarrow> bc_stats \<Rightarrow> bitrate_controller \<Rightarrow> u32 option \<times> bitrate_controller" where
  "evaluate_aimd now s c =
     (if is_degraded s
      then let c1 = set_healthy_since None c
           in if now - wn_last_decrease (bc_wn c1) < decrease_cooldown then (None, c1)
              else changed (bc_bitrate c) (aimd_decrease (is_severe s) (set_last_decrease now c1))
      else if is_healthy s
      then let since = (case wn_healthy_since (bc_wn c) of Some t \<Rightarrow> t | None \<Rightarrow> now);
               c1 = set_healthy_since (Some since) c;
               held = now - since
           in if bc_st c1 = Recovering
              then if held < (if bc_first_recovery_step c1 then recovery_confirm else recovery_step_interval)
                   then (None, c1) else changed (bc_bitrate c) (aimd_rebound c1)
              else if rd_hold (bc_radio c1) then (None, c1)
              else if held < increase_hold \<or> bc_ceiling c1 \<le> bc_bitrate c1 then (None, c1)
              else changed (bc_bitrate c) (aimd_increase c1)
      else (None, set_healthy_since None c))"

section \<open>The delivered-bandwidth law\<close>

definition slowdown :: "bc_stats \<Rightarrow> bitrate_controller \<Rightarrow> fp" where
  "slowdown s c = (if mf_valid (es_bandwidth (bc_est c)) \<and> fp_lt (Num 0) (st_rate s)
     then fp_div F64 (mf_get (es_bandwidth (bc_est c))) (st_rate s) else Num 1)"

definition bbr_acute :: "bc_stats \<Rightarrow> bitrate_controller \<Rightarrow> bool" where
  "bbr_acute s c \<longleftrightarrow> lost_frames_decrease \<le> st_lost s \<or> late_frames_decrease \<le> st_late s
     \<or> (es_bbr_st (bc_est c) \<noteq> BbrProbe
        \<and> (fp_lt utilisation_severe (st_utilisation s)
           \<or> (es_bbr_st (bc_est c) \<noteq> BbrStartup \<and> fp_lt slowdown_backoff (slowdown s c))))"

definition bbr_expire :: "time_ns \<Rightarrow> bitrate_controller \<Rightarrow> bitrate_controller" where
  "bbr_expire now c =
     (if es_bandwidth_samples (bc_est c) \<noteq> 0 \<and> estimator_window < now - es_last_bandwidth_sample (bc_est c)
      then c\<lparr>bc_est := (bc_est c)\<lparr>es_bandwidth := mf_reset (es_bandwidth (bc_est c)), es_bandwidth_samples := 0\<rparr>\<rparr>
      else c)"

text \<open>Nothing measured and no failure: the blind additive probe.\<close>

definition bbr_blind :: "time_ns \<Rightarrow> bc_stats \<Rightarrow> bitrate_controller \<Rightarrow> u32 option \<times> bitrate_controller" where
  "bbr_blind now s c =
     (if \<not> is_healthy s \<or> rd_hold (bc_radio c) then (None, set_healthy_since None c)
      else let since = (case wn_healthy_since (bc_wn c) of Some t \<Rightarrow> t | None \<Rightarrow> now);
               c1 = set_healthy_since (Some since) c
           in if now - since < increase_hold \<or> bc_ceiling c1 \<le> bc_bitrate c1 then (None, c1)
              else changed (bc_bitrate c) (flush (c1\<lparr>bc_bitrate :=
                     bc_clamp c1 (uint (bc_bitrate c1) + uint (increase_step c1))\<rparr>)))"

text \<open>Nothing measured but a failure: the bitrate itself seeds the filter.\<close>

definition bbr_seed :: "time_ns \<Rightarrow> bitrate_controller \<Rightarrow> bitrate_controller" where
  "bbr_seed now c = c\<lparr>bc_est := (bc_est c)\<lparr>
     es_bandwidth := mf_update (fp_of_int F64 (uint (bc_bitrate c))) now estimator_window
       (mf_reset (es_bandwidth (bc_est c))),
     es_bandwidth_samples := estimator_min_samples, es_last_bandwidth_sample := now\<rparr>\<rparr>"

definition bbr_backoff :: "time_ns \<Rightarrow> bc_stats \<Rightarrow> fp \<Rightarrow> bitrate_controller \<Rightarrow> bitrate_controller" where
  "bbr_backoff now s bw c =
     (let c1 = set_last_decrease now c;
          filt = mf_cap (if fp_lt (Num 0) (st_rate s) then st_rate s else fp_mul F64 backoff_factor bw)
                   (es_bandwidth (bc_est c1));
          c2 = c1\<lparr>bc_est := (bc_est c1)\<lparr>es_bandwidth := filt, es_bbr_st := BbrSteady,
                   es_startup_stalled := startup_stall_rounds, es_last_probe := now,
                   es_last_bbr_change := now, es_probe_until := 0\<rparr>\<rparr>
      in flush (c2\<lparr>bc_bitrate := bc_clamp c2 (fp_to_u64 (fp_mul F64 backoff_factor (mf_get filt)))\<rparr>))"

definition bbr_radio_steady :: "time_ns \<Rightarrow> bitrate_controller \<Rightarrow> bitrate_controller" where
  "bbr_radio_steady now c =
     (if rd_hold (bc_radio c) \<and> es_bbr_st (bc_est c) \<noteq> BbrSteady
      then c\<lparr>bc_est := (bc_est c)\<lparr>es_bbr_st := BbrSteady, es_probe_until := 0, es_last_probe := now\<rparr>\<rparr>
      else c)"

text \<open>The first \<^verbatim>\<open>switch\<close>: the state machine. The flag is \<^verbatim>\<open>forced\<close>.\<close>

definition bbr_advance :: "time_ns \<Rightarrow> fp \<Rightarrow> bitrate_controller \<Rightarrow> bool \<times> bitrate_controller" where
  "bbr_advance now bw c =
     (case es_bbr_st (bc_est c) of
        BbrStartup \<Rightarrow>
          let e = bc_est c;
              e1 = (if es_round_started e = 0
                    then e\<lparr>es_round_started := now, es_startup_mark := bw\<rparr>
                    else if round_duration \<le> now - es_round_started e
                    then e\<lparr>es_startup_stalled := (if fp_lt (fp_mul F64 startup_growth (es_startup_mark e)) bw
                              then 0 else es_startup_stalled e + 1),
                           es_startup_mark := bw, es_round_started := now\<rparr>
                    else e);
              e2 = (if startup_stall_rounds \<le> es_startup_stalled e1
                    then e1\<lparr>es_bbr_st := BbrSteady, es_last_probe := now\<rparr> else e1)
          in (False, c\<lparr>bc_est := e2\<rparr>)
      | BbrProbe \<Rightarrow>
          if es_probe_until (bc_est c) \<le> now
          then (True, flush (c\<lparr>bc_est := (bc_est c)\<lparr>es_bbr_st := BbrSteady, es_last_probe := now\<rparr>\<rparr>))
          else (False, c)
      | BbrSteady \<Rightarrow>
          if \<not> rd_hold (bc_radio c) \<and> probe_interval \<le> now - es_last_probe (bc_est c)
            \<and> bc_bitrate c < bc_ceiling c
          then (False, c\<lparr>bc_est := (bc_est c)\<lparr>es_bbr_st := BbrProbe, es_probe_until := now + probe_duration\<rparr>\<rparr>)
          else (False, c))"

definition bbr_gain :: "bitrate_controller \<Rightarrow> fp" where
  "bbr_gain c = (case es_bbr_st (bc_est c) of BbrStartup \<Rightarrow> gain_startup | BbrProbe \<Rightarrow> gain_probe
     | BbrSteady \<Rightarrow> if rd_hold (bc_radio c) then gain_radio else gain_steady)"

definition bbr_track :: "time_ns \<Rightarrow> fp \<Rightarrow> bitrate_controller \<Rightarrow> u32 option \<times> bitrate_controller" where
  "bbr_track now bw c0 =
     (let (forced, c) = bbr_advance now bw (bbr_radio_steady now c0);
          target = bc_clamp c (fp_to_u64 (fp_mul F64 (bbr_gain c) bw));
          limited = (es_bbr_st (bc_est c) \<noteq> BbrStartup \<and> \<not> forced);
          delta = fp_abs (fp_sub F64 (fp_of_int F64 (uint target)) (fp_of_int F64 (uint (bc_bitrate c))))
      in if limited \<and> now - es_last_bbr_change (bc_est c) < steady_interval then (None, c)
         else if limited \<and> bc_bitrate c \<noteq> 0
           \<and> fp_lt delta (fp_mul F64 steady_change_threshold (fp_of_int F64 (uint (bc_bitrate c)))) then (None, c)
         else let c1 = c\<lparr>bc_bitrate := target, bc_est := (bc_est c)\<lparr>es_last_bbr_change := now\<rparr>\<rparr>
              in changed (bc_bitrate c0) (if bc_bitrate c1 \<noteq> bc_bitrate c0 then flush c1 else c1))"

definition evaluate_bbr :: "time_ns \<Rightarrow> bc_stats \<Rightarrow> bitrate_controller \<Rightarrow> u32 option \<times> bitrate_controller" where
  "evaluate_bbr now s c =
     (if es_last_bbr_change (bc_est c) \<noteq> 0 \<and> now - es_last_bbr_change (bc_est c) < change_settle then (None, c)
      else
        let acute = bbr_acute s c; c1 = bbr_expire now c in
        if es_bandwidth_samples (bc_est c1) < estimator_min_samples \<and> \<not> acute then bbr_blind now s c1
        else
          let c2 = (if es_bandwidth_samples (bc_est c1) < estimator_min_samples then bbr_seed now c1 else c1);
              bw = mf_get (es_bandwidth (bc_est c2))
          in if acute
             then if now - wn_last_decrease (bc_wn c2) < decrease_cooldown then (None, c2)
                  else changed (bc_bitrate c2) (bbr_backoff now s bw c2)
             else bbr_track now bw c2)"

definition evaluate :: "time_ns \<Rightarrow> bitrate_controller \<Rightarrow> u32 option \<times> bitrate_controller" where
  "evaluate now c =
     (if now - wn_last_evaluation (bc_wn c) < evaluation_interval then (None, c)
      else
        let c1 = c\<lparr>bc_wn := (bc_wn c)\<lparr>wn_last_evaluation := now\<rparr>\<rparr>;
            c2 = (if rd_hold (bc_radio c1) \<and> radio_max_age < now - rd_last_sample (bc_radio c1)
                  then set_hold False c1 else c1);
            (s, c3) = analyse now c2
        in if st_count s < min_samples then (None, c3)
           else if mode_locked c3 = Bbr then evaluate_bbr now s c3 else evaluate_aimd now s c3)"

section \<open>Feedback\<close>

definition join_feedback :: "feedback \<Rightarrow> frame_state \<Rightarrow> frame_state" where
  "join_feedback fb f =
     (let f1 = (if sent_to_decoder fb = 0 then f\<lparr>fs_lost := True\<rparr>
                else f\<lparr>fs_first := (if received_first_packet fb \<noteq> 0
                              then if fs_first f \<noteq> 0 then min (fs_first f) (received_first_packet fb)
                                   else received_first_packet fb
                              else fs_first f),
                       fs_last := (if received_last_packet fb \<noteq> 0
                              then max (fs_last f) (received_last_packet fb) else fs_last f),
                       fs_valid := True\<rparr>)
      in if received_from_decoder fb \<noteq> 0 \<and> blitted fb = 0 \<and> times_displayed fb = 0
         then f1\<lparr>fs_late := True\<rparr> else f1)"

definition on_feedback ::
    "feedback \<Rightarrow> int \<Rightarrow> bool \<Rightarrow> time_ns \<Rightarrow> bitrate_controller \<Rightarrow> u32 option \<times> bitrate_controller" where
  "on_feedback fb period_ns streaming now c =
     (if \<not> cf_enabled (bc_conf c) \<or> \<not> bc_client_enabled c \<or> \<not> streaming \<or> bc_ceiling c = 0 \<or> period_ns \<le> 0
      then (None, c)
      else if video_stream_count \<le> stream_index fb then (None, c)
      else let c1 = c\<lparr>bc_fr := (bc_fr c)\<lparr>fr_frame_period := period_ns\<rparr>\<rparr>
           in case ring_slot (frame_index fb) now c1 of
                None \<Rightarrow> (None, c1)
              | Some (i, c2) \<Rightarrow> evaluate now (on_slot i (join_feedback fb) c2))"

section \<open>The radio trend\<close>

text \<open>\<^verbatim>\<open>std::chrono::duration<double>(d).count()\<close>.\<close>

definition seconds :: "time_ns \<Rightarrow> fp" where
  "seconds d = fp_div F64 (fp_of_int F64 d) (Num 1000000000)"

definition trim_radio :: "time_ns \<Rightarrow> radio_sample list \<Rightarrow> radio_sample list" where
  "trim_radio now w = dropWhile (\<lambda>s. radio_trend_window < now - rs_when s) w"

definition radio_means :: "radio_sample list \<Rightarrow> fp \<times> fp" where
  "radio_means w =
     (let oldest = hd w; n = fp_of_int F64 (int (length w));
          (t, y) = foldl (\<lambda>(t, y) s. (fp_add F64 t (seconds (rs_when s - rs_when oldest)),
                                      fp_add F64 y (rs_rssi_dbm s))) (Num 0, Num 0) w
      in (fp_div F64 t n, fp_div F64 y n))"

definition radio_fit :: "radio_sample list \<Rightarrow> fp \<times> fp" where
  "radio_fit w =
     (let oldest = hd w; (mean_t, mean_y) = radio_means w
      in foldl (\<lambda>(cov, var) s.
           let dt = fp_sub F64 (seconds (rs_when s - rs_when oldest)) mean_t
           in (fp_add F64 cov (fp_mul F64 dt (fp_sub F64 (rs_rssi_dbm s) mean_y)), fp_add F64 var (fp_mul F64 dt dt)))
         (Num 0, Num 0) w)"

definition radio_trend_of :: "radio_sample list \<Rightarrow> radio_trend" where
  "radio_trend_of w =
     (if length w < radio_min_samples then radio_trend_new
      else
        let oldest = hd w; newest = last w; span = seconds (rs_when newest - rs_when oldest);
            res = radio_trend_new\<lparr>rt_span_s := span\<rparr>
        in if fp_le span (Num 0) then res
           else let (cov, var) = radio_fit w in
             if fp_le var (Num 0) then res
             else let slope = fp_div F64 cov var
                  in res\<lparr>rt_usable := True, rt_rssi_dbm := rs_rssi_dbm newest, rt_slope_db_per_s := slope,
                        rt_delta_db := fp_mul F64 slope span, rt_link_speed_mbps := rs_link_speed_mbps newest,
                        rt_link_speed_peak_mbps := foldl (\<lambda>p s. max p (rs_link_speed_mbps s)) 0 w\<rparr>)"

definition analyse_radio :: "time_ns \<Rightarrow> bitrate_controller \<Rightarrow> radio_trend \<times> bitrate_controller" where
  "analyse_radio now c =
     (let w = trim_radio now (rd_window (bc_radio c))
      in (radio_trend_of w, c\<lparr>bc_radio := (bc_radio c)\<lparr>rd_window := w\<rparr>\<rparr>))"

text \<open>A gap in the reports, the smoothing and the push of one report.\<close>

definition radio_admit :: "int \<Rightarrow> int \<Rightarrow> time_ns \<Rightarrow> bitrate_controller \<Rightarrow> bitrate_controller" where
  "radio_admit rssi link_speed now c =
     (let r = bc_radio c;
          r1 = (if rd_window r \<noteq> [] \<and> radio_max_age < now - rd_last_sample r
                then r\<lparr>rd_window := [], rd_ema := None, rd_hold := False, rd_stable_since := None\<rparr> else r);
          ema = (case rd_ema r1 of
                   Some e \<Rightarrow> fp_add F64 (fp_mul F64 radio_ema_alpha (fp_of_int F64 rssi))
                               (fp_mul F64 (fp_sub F64 (Num 1) radio_ema_alpha) e)
                 | None \<Rightarrow> fp_of_int F64 rssi)
      in c\<lparr>bc_radio := r1\<lparr>rd_last_sample := now, rd_ema := Some ema,
           rd_window := rd_window r1 @ [\<lparr>rs_when = now, rs_rssi_dbm = ema,
             rs_link_speed_mbps = max 0 link_speed\<rparr>]\<rparr>\<rparr>)"

definition radio_falling :: "radio_trend \<Rightarrow> bool" where
  "radio_falling t \<longleftrightarrow> fp_lt (rt_delta_db t) (fp_neg radio_fall_db) \<and> fp_lt (rt_rssi_dbm t) radio_low_rssi_dbm"

definition radio_starved :: "radio_trend \<Rightarrow> u32 \<Rightarrow> bool" where
  "radio_starved t b \<longleftrightarrow> 0 < rt_link_speed_mbps t \<and> 0 < rt_link_speed_peak_mbps t
     \<and> fp_le (fp_of_int F64 (rt_link_speed_mbps t))
         (fp_mul F64 radio_link_speed_collapse (fp_of_int F64 (rt_link_speed_peak_mbps t)))
     \<and> fp_lt (fp_mul F64 (fp_of_int F64 (rt_link_speed_mbps t)) (lit 1000000))
         (fp_mul F64 radio_link_speed_headroom (fp_of_int F64 (uint b)))"

text \<open>The two ways a hold is released by the trend: the signal came back, or it stopped falling.\<close>

definition radio_release :: "radio_trend \<Rightarrow> time_ns \<Rightarrow> bitrate_controller \<Rightarrow> bitrate_controller" where
  "radio_release t now c =
     (let r = bc_radio c;
          r1 = (if rd_hold r \<and> fp_lt radio_rise_db (rt_delta_db t) \<and> fp_lt radio_low_rssi_dbm (rt_rssi_dbm t)
                then r\<lparr>rd_hold := False\<rparr> else r);
          r2 = (if rd_hold r1 \<and> \<not> radio_falling t \<and> \<not> radio_starved t (bc_bitrate c)
                  \<and> fp_lt (fp_abs (rt_slope_db_per_s t)) radio_stable_slope
                then (case rd_stable_since r1 of
                        None \<Rightarrow> r1\<lparr>rd_stable_since := Some now\<rparr>
                      | Some t0 \<Rightarrow> if radio_stable_hold \<le> now - t0
                          then r1\<lparr>rd_hold := False, rd_stable_since := None\<rparr> else r1)
                else r1\<lparr>rd_stable_since := None\<rparr>)
      in c\<lparr>bc_radio := r2\<rparr>)"

text \<open>The preemptive step.\<close>

definition radio_step :: "time_ns \<Rightarrow> bitrate_controller \<Rightarrow> u32 option \<times> bitrate_controller" where
  "radio_step now c =
     (let c1 = (if mode_locked c = Bbr \<and> mf_valid (es_bandwidth (bc_est c))
                then let c' = c\<lparr>bc_est := (bc_est c)\<lparr>es_bbr_st := BbrSteady\<rparr>\<rparr>;
                         target = bc_clamp c' (fp_to_u64 (fp_mul F64 gain_radio (mf_get (es_bandwidth (bc_est c')))))
                     in if target < bc_bitrate c'
                        then c'\<lparr>bc_bitrate := target, bc_est := (bc_est c')\<lparr>es_last_bbr_change := now\<rparr>\<rparr> else c'
                else c\<lparr>bc_bitrate := bc_clamp c (scale (bc_bitrate c) decrease_factor)\<rparr>);
          c2 = set_last_decrease now (c1\<lparr>bc_radio := (bc_radio c1)\<lparr>rd_hold := True, rd_last_step := now\<rparr>\<rparr>)
      in if bc_bitrate c2 = bc_bitrate c then (None, c2) else (Some (bc_bitrate c2), flush c2))"

definition on_wifi_state :: "int \<Rightarrow> int \<Rightarrow> time_ns \<Rightarrow> bitrate_controller \<Rightarrow> u32 option \<times> bitrate_controller" where
  "on_wifi_state rssi link_speed now c =
     (if \<not> cf_enabled (bc_conf c) \<or> \<not> bc_client_enabled c \<or> \<not> bc_radio_aware c \<or> bc_ceiling c = 0 then (None, c)
      else if 0 \<le> rssi \<or> rssi \<le> - 110 then (None, c)
      else
        let (t, c1) = analyse_radio now (radio_admit rssi link_speed now c) in
        if \<not> rt_usable t then (None, c1)
        else if mode_locked c1 = Aimd \<and> bc_st c1 = Recovering then (None, c1)
        else
          let falling = radio_falling t; starved = radio_starved t (bc_bitrate c1); c2 = radio_release t now c1
          in if \<not> falling \<and> \<not> starved then (None, c2)
             else if now - wn_last_decrease (bc_wn c2) < decrease_cooldown
               \<or> now - rd_last_step (bc_radio c2) < radio_step_interval then (None, c2)
             else radio_step now c2)"

end
