(* ===== verification/Bitrate_Safety.thy ===== *)
theory Bitrate_Safety
  imports Bitrate_Controller
begin

text \<open>
  What the bitrate controller guarantees over every sequence of calls: the
  range of the bitrate, the direction of the radio steps, the spacing of the
  decreases, the return to the ceiling when it is switched off, and the two
  laws' reaction on each branch.
\<close>

section \<open>Calls\<close>

datatype bc_call =
  Configure bc_config u32 bool bool "bitrate_mode option"
| SetClientMode "bitrate_mode option"
| SetPacingWindow fp
| SetClientEnabled bool
| SetRadioAware bool
| SetCeiling u32
| ResetCall
| FrameBytes u64 u8 u32 time_ns
| Feedback feedback int bool time_ns
| WifiState int int time_ns

primrec bc_perform :: "bc_call \<Rightarrow> bitrate_controller \<Rightarrow> u32 option \<times> bitrate_controller" where
  "bc_perform (Configure conf ceil en radio m) c = (None, bc_configure conf ceil en radio m c)"
| "bc_perform (SetClientMode m) c = set_client_mode m c"
| "bc_perform (SetPacingWindow w) c = (None, set_pacing_window w c)"
| "bc_perform (SetClientEnabled b) c = set_client_enabled b c"
| "bc_perform (SetRadioAware b) c = (None, set_radio_aware b c)"
| "bc_perform (SetCeiling b) c = set_ceiling b c"
| "bc_perform ResetCall c = reset_locked c"
| "bc_perform (FrameBytes idx str n now) c = (None, on_frame_bytes idx str n now c)"
| "bc_perform (Feedback fb period streaming now) c = on_feedback fb period streaming now c"
| "bc_perform (WifiState rssi link now) c = on_wifi_state rssi link now c"

definition bc_step :: "bitrate_controller \<Rightarrow> bc_call \<Rightarrow> bitrate_controller" where
  "bc_step c e = snd (bc_perform e c)"

definition bc_run :: "bitrate_controller \<Rightarrow> bc_call list \<Rightarrow> bitrate_controller" where
  "bc_run = foldl bc_step"

section \<open>The members the policy decides about\<close>

record bc_core =
  co_conf :: bc_config
  co_client_enabled :: bool
  co_client_mode :: "bitrate_mode option"
  co_ceiling :: u32
  co_bitrate :: u32
  co_min :: u32
  co_st :: aimd_state
  co_target :: u32
  co_last_decrease :: time_ns

definition core :: "bitrate_controller \<Rightarrow> bc_core" where
  "core c = \<lparr>co_conf = bc_conf c, co_client_enabled = bc_client_enabled c, co_client_mode = bc_client_mode c,
     co_ceiling = bc_ceiling c, co_bitrate = bc_bitrate c, co_min = bc_min_bitrate c, co_st = bc_st c,
     co_target = bc_recovery_target c, co_last_decrease = wn_last_decrease (bc_wn c)\<rparr>"

named_theorems core_simps \<open>operations that leave the core alone\<close>

lemma core_flush [core_simps]: "core (flush c) = core c"
  by (simp add: core_def flush_def)

lemma core_flush_radio [core_simps]: "core (flush_radio c) = core c"
  by (simp add: core_def flush_radio_def)

lemma core_flush_estimator [core_simps]: "core (flush_estimator c) = core c"
  by (simp add: core_def flush_estimator_def)

lemma core_fields [core_simps]:
  "core (c\<lparr>bc_fr := fr\<rparr>) = core c" "core (c\<lparr>bc_est := es\<rparr>) = core c" "core (c\<lparr>bc_radio := rd\<rparr>) = core c"
  "core (c\<lparr>bc_radio_aware := ra\<rparr>) = core c" "core (c\<lparr>bc_first_recovery_step := fr'\<rparr>) = core c"
  "core (c\<lparr>bc_wn := (bc_wn c)\<lparr>wn_window := w\<rparr>\<rparr>) = core c"
  "core (c\<lparr>bc_wn := (bc_wn c)\<lparr>wn_healthy_since := h\<rparr>\<rparr>) = core c"
  "core (c\<lparr>bc_wn := (bc_wn c)\<lparr>wn_last_evaluation := t\<rparr>\<rparr>) = core c"
  "core (c\<lparr>bc_bitrate := b\<rparr>) = (core c)\<lparr>co_bitrate := b\<rparr>"
  "core (c\<lparr>bc_recovery_target := b\<rparr>) = (core c)\<lparr>co_target := b\<rparr>"
  "core (c\<lparr>bc_st := s\<rparr>) = (core c)\<lparr>co_st := s\<rparr>"
  by (simp_all add: core_def)

lemma core_last_decrease [core_simps]: "core (set_last_decrease t c) = (core c)\<lparr>co_last_decrease := t\<rparr>"
  by (simp add: core_def)

lemma core_set_pacing_window [core_simps]: "core (set_pacing_window w c) = core c"
  by (simp add: set_pacing_window_def core_simps)

lemma core_set_radio_aware [core_simps]: "core (set_radio_aware w c) = core c"
  by (simp add: set_radio_aware_def core_simps)

lemma core_close_frame [core_simps]: "core (close_frame i now c) = core c"
  by (simp add: close_frame_def core_simps Let_def)

lemma core_on_slot [core_simps]: "core (on_slot i f c) = core c"
  by (simp add: on_slot_def core_simps)

lemma core_ring_slot_case: "pred_option (\<lambda>(i, c'). core c' = core c) (ring_slot idx now c)"
  by (simp add: ring_slot_def core_simps Let_def)

lemma core_ring_slot: "ring_slot idx now c = Some (i, c') \<Longrightarrow> core c' = core c"
  using core_ring_slot_case [of c idx now] by simp

lemma core_on_frame_bytes [core_simps]: "core (on_frame_bytes idx str n now c) = core c"
  by (auto simp: on_frame_bytes_def core_simps core_ring_slot split: option.splits)

lemma core_analyse [core_simps]: "core (snd (analyse now c)) = core c"
  by (simp add: analyse_def core_simps Let_def)

lemma core_analyse_radio [core_simps]: "core (snd (analyse_radio now c)) = core c"
  by (simp add: analyse_radio_def core_simps Let_def)

lemma core_radio_admit [core_simps]: "core (radio_admit rssi link now c) = core c"
  by (simp add: radio_admit_def core_simps Let_def)

lemma core_radio_release [core_simps]: "core (radio_release t now c) = core c"
  by (simp add: radio_release_def core_simps Let_def)

lemma core_bbr_expire [core_simps]: "core (bbr_expire now c) = core c"
  by (simp add: bbr_expire_def core_simps)

lemma core_bbr_seed [core_simps]: "core (bbr_seed now c) = core c"
  by (simp add: bbr_seed_def core_simps)

lemma core_bbr_radio_steady [core_simps]: "core (bbr_radio_steady now c) = core c"
  by (simp add: bbr_radio_steady_def core_simps)

lemma core_bbr_advance [core_simps]: "core (snd (bbr_advance now bw c)) = core c"
  by (simp add: bbr_advance_def core_simps Let_def split: bbr_state.splits)

lemma core_changed [core_simps]: "core (snd (changed p c)) = core c"
  by (simp add: changed_def)

text \<open>The members, read off the core.\<close>

lemma core_eqD:
  assumes "core c' = core c"
  shows "bc_conf c' = bc_conf c" "bc_client_enabled c' = bc_client_enabled c" "bc_client_mode c' = bc_client_mode c"
    "bc_ceiling c' = bc_ceiling c" "bc_bitrate c' = bc_bitrate c" "bc_min_bitrate c' = bc_min_bitrate c"
    "bc_st c' = bc_st c" "bc_recovery_target c' = bc_recovery_target c"
    "wn_last_decrease (bc_wn c') = wn_last_decrease (bc_wn c)" "mode_locked c' = mode_locked c"
  using assms by (simp_all add: core_def mode_locked_def split: option.splits)

section \<open>Scaling and clamping\<close>

lemma uint_word_of_int_le: "0 \<le> v \<Longrightarrow> v \<le> uint (b :: u32) \<Longrightarrow> uint (word_of_int v :: u32) = v"
  using uint_lt2p [of b] by (simp add: uint_word_of_int)

lemma uint_ge_pos: "uint (b :: u32) \<le> v \<Longrightarrow> 0 \<le> v"
  by (rule order_trans [OF uint_ge_0])

lemma bc_clamp_range:
  assumes "bc_min_bitrate c \<le> bc_ceiling c"
  shows "bc_min_bitrate c \<le> bc_clamp c v \<and> bc_clamp c v \<le> bc_ceiling c"
  using assms uint_word_of_int_le [of v "bc_ceiling c"] uint_ge_pos [of "bc_min_bitrate c" v]
  by (auto simp: bc_clamp_def word_le_def not_less)

lemma bc_clamp_le:
  assumes "v \<le> uint b" and "bc_min_bitrate c \<le> b"
  shows "bc_clamp c v \<le> b"
  using assms uint_word_of_int_le [of v b] uint_ge_pos [of "bc_min_bitrate c" v]
  by (auto simp: bc_clamp_def word_le_def not_less)

lemma bc_clamp_ge:
  assumes "uint b \<le> v" and "b \<le> bc_ceiling c"
  shows "b \<le> bc_clamp c v"
  using assms uint_word_of_int_le [of v "bc_ceiling c"] uint_ge_pos [of b v]
  by (auto simp: bc_clamp_def word_le_def not_less)

lemma lit_unit: "0 \<le> q \<Longrightarrow> q \<le> 1 \<Longrightarrow> \<exists>y. lit q = Num y \<and> 0 \<le> y \<and> y \<le> 1"
  using round_fp_bounded [of 0 q 1 F64] by (metis abs_one abs_zero lit_def of_int_0 of_int_1 one_less_power
      one_less_numeral_iff prec_pos semiring_norm(76) zero_less_numeral zero_less_power)

lemma uint_u32_small: "\<bar>uint (b :: u32)\<bar> < 2 ^ prec F64"
  using uint_lt2p [of b] by simp

lemma scale_num:
  assumes "0 \<le> y" and "y \<le> 2"
  obtains z where "scale b (Num y) = trunc z" and "0 \<le> z" and "z = rn F64 (of_int (uint b) * y)"
proof -
  define n where "n = uint b"
  have n: "0 \<le> n" "n < 2 ^ 32" using uint_lt2p [of b] by (simp_all add: n_def)
  let ?x = "of_int n * y"
  have x: "of_int 0 \<le> ?x" "?x \<le> of_int (2 * n)"
    using assms mult_left_mono [of y 2 "of_int n"] n(1) by (simp_all add: mult.commute)
  have small: "\<bar>0 :: int\<bar> < 2 ^ prec F64" "\<bar>2 * n\<bar> < 2 ^ prec F64" using n by simp_all
  obtain z where z: "round_fp F64 ?x = Num z" "of_int 0 \<le> z" "z \<le> of_int (2 * n)"
    using round_fp_bounded [OF x small] by blast
  have "trunc z \<le> 2 * n" "0 \<le> trunc z" using trunc_bounds [OF z(2,3)] by simp_all
  then have t: "0 \<le> trunc z" "trunc z < 2 ^ 64" using n by simp_all
  have "z = rn F64 ?x" using z(1) by (simp add: round_fp_def Let_def split: if_splits)
  moreover have "scale b (Num y) = trunc z"
    using z(1) t fp_of_int_exact [OF uint_u32_small, of b] by (simp add: scale_def n_def [symmetric])
  ultimately show ?thesis using z(2) that by (simp add: n_def)
qed

lemma trunc_int [simp]: "trunc (of_int n) = n"
  by (simp add: trunc_def)

lemma scale_le:
  assumes "0 \<le> y" and "y \<le> 1"
  shows "scale b (Num y) \<le> uint b"
proof -
  obtain z where z: "scale b (Num y) = trunc z" "0 \<le> z" "z = rn F64 (of_int (uint b) * y)"
    using scale_num [of y b] assms by auto
  have "(0 :: rat) \<le> of_int (uint b)" by (simp only: of_int_0_le_iff uint_ge_0)
  then have "of_int (uint b) * y \<le> of_int (uint b)" using assms by (simp only: mult_left_le)
  then have "z \<le> rn F64 (of_int (uint b))" unfolding z(3) by (rule rn_mono)
  then have "z \<le> of_int (uint b)" by (simp only: rn_int [OF uint_u32_small])
  then have "trunc z \<le> uint b" using trunc_bounds [of 0 z "uint b"] z(2) by simp
  then show ?thesis by (simp only: z(1))
qed

lemma scale_double: "scale b recovery_factor = uint b * 2"
proof -
  have two: "recovery_factor = Num 2"
    using fp_of_int_exact [of 2 F64] by (simp add: recovery_factor_def lit_def fp_of_int_def)
  obtain z where z: "scale b (Num 2) = trunc z" "z = rn F64 (of_int (uint b) * 2)"
    using scale_num [of 2 b] by auto
  have "\<bar>uint b * 2\<bar> < 2 ^ prec F64" using uint_lt2p [of b] by simp
  then have "rn F64 (of_int (uint b * 2)) = of_int (uint b * 2)" by (rule rn_int)
  then have "z = of_int (uint b * 2)" using z(2) by simp
  then have "trunc z = uint b * 2" by (simp only: trunc_int)
  then show ?thesis using z(1) by (simp only: two)
qed

lemma scale_factors:
  "scale b decrease_factor \<le> uint b" "scale b deep_decrease_factor \<le> uint b"
  "scale b recovery_target_backoff \<le> uint b"
proof -
  have "scale b (lit q) \<le> uint b" if "0 \<le> q" "q \<le> 1" for q
    using lit_unit [OF that] scale_le by auto
  then show "scale b decrease_factor \<le> uint b" "scale b deep_decrease_factor \<le> uint b"
    "scale b recovery_target_backoff \<le> uint b"
    by (simp_all add: decrease_factor_def deep_decrease_factor_def recovery_target_backoff_def)
qed

section \<open>The invariant\<close>

definition core_mode :: "bc_core \<Rightarrow> bitrate_mode" where
  "core_mode k = (case co_client_mode k of Some m \<Rightarrow> m | None \<Rightarrow> cf_control (co_conf k))"

definition core_inv :: "bc_core \<Rightarrow> bool" where
  "core_inv k \<longleftrightarrow>
     (co_ceiling k = 0 \<longrightarrow> co_bitrate k = 0 \<and> co_st k = Steady)
   \<and> (co_ceiling k \<noteq> 0 \<longrightarrow> co_min k = min (cf_min_bitrate_bps (co_conf k)) (co_ceiling k)
         \<and> co_min k \<le> co_bitrate k \<and> co_bitrate k \<le> co_ceiling k
         \<and> co_min k \<le> co_target k \<and> co_target k \<le> co_ceiling k)
   \<and> (co_st k = Recovering \<longrightarrow> co_bitrate k < co_target k \<and> core_mode k = Aimd)
   \<and> (\<not> (cf_enabled (co_conf k) \<and> co_client_enabled k) \<longrightarrow> co_bitrate k = co_ceiling k)"

definition bc_inv :: "bitrate_controller \<Rightarrow> bool" where
  "bc_inv c \<longleftrightarrow> core_inv (core c)"

lemma mode_core: "mode_locked c = core_mode (core c)"
  by (simp add: mode_locked_def core_mode_def core_def split: option.splits)

lemma core_mode_fields [simp]:
  "core_mode (k\<lparr>co_bitrate := b\<rparr>) = core_mode k" "core_mode (k\<lparr>co_target := b\<rparr>) = core_mode k"
  "core_mode (k\<lparr>co_st := st\<rparr>) = core_mode k" "core_mode (k\<lparr>co_last_decrease := t\<rparr>) = core_mode k"
  by (simp_all add: core_mode_def split: option.splits)

lemma core_reads [simp]:
  "co_conf (core c) = bc_conf c" "co_client_enabled (core c) = bc_client_enabled c"
  "co_client_mode (core c) = bc_client_mode c" "co_ceiling (core c) = bc_ceiling c"
  "co_bitrate (core c) = bc_bitrate c" "co_min (core c) = bc_min_bitrate c" "co_st (core c) = bc_st c"
  "co_target (core c) = bc_recovery_target c" "co_last_decrease (core c) = wn_last_decrease (bc_wn c)"
  by (simp_all add: core_def)

lemma bc_inv_core: "core c' = core c \<Longrightarrow> bc_inv c' = bc_inv c"
  by (simp add: bc_inv_def)

lemma bc_invD:
  assumes "bc_inv c" and "bc_ceiling c \<noteq> 0"
  shows "bc_min_bitrate c \<le> bc_ceiling c" "bc_min_bitrate c \<le> bc_bitrate c" "bc_bitrate c \<le> bc_ceiling c"
    "bc_min_bitrate c \<le> bc_recovery_target c" "bc_recovery_target c \<le> bc_ceiling c"
    "bc_st c = Recovering \<Longrightarrow> bc_bitrate c < bc_recovery_target c"
    "bc_min_bitrate c = min (cf_min_bitrate_bps (bc_conf c)) (bc_ceiling c)"
  using assms by (auto simp: bc_inv_def core_inv_def)

lemma bc_clamp_fields [simp]:
  "bc_clamp (c\<lparr>bc_bitrate := b\<rparr>) = bc_clamp c" "bc_clamp (c\<lparr>bc_recovery_target := b\<rparr>) = bc_clamp c"
  "bc_clamp (c\<lparr>bc_est := es\<rparr>) = bc_clamp c" "bc_clamp (c\<lparr>bc_wn := w\<rparr>) = bc_clamp c"
  "bc_clamp (c\<lparr>bc_st := s\<rparr>) = bc_clamp c"
  by (simp_all add: bc_clamp_def fun_eq_iff)

lemma bc_clamp_core: "core c' = core c \<Longrightarrow> bc_clamp c' = bc_clamp c"
  by (simp add: bc_clamp_def core_def fun_eq_iff)

text \<open>A bitrate in range and a steady state keep the invariant while the control is on.\<close>

lemma bc_inv_new_bitrate:
  assumes "bc_inv c" and "bc_ceiling c \<noteq> 0" and "bc_enabled c" and "mode_locked c = Bbr \<or> bc_st c = Steady"
    and "bc_min_bitrate c \<le> b" and "b \<le> bc_ceiling c"
    and "core c' = (core c)\<lparr>co_bitrate := b, co_last_decrease := t\<rparr>"
  shows "bc_inv c'"
  using assms by (auto simp: bc_inv_def core_inv_def bc_enabled_def mode_core)

section \<open>Resets and switches keep it\<close>

lemma core_reset:
  "core (snd (reset_locked c)) = (if bc_ceiling c = 0 then core c
     else (core c)\<lparr>co_bitrate := bc_ceiling c, co_target := bc_ceiling c, co_st := Steady\<rparr>)"
  by (simp add: reset_locked_def back_to_ceiling_def core_simps Let_def)

lemma reset_inv:
  assumes "bc_ceiling c = 0 \<Longrightarrow> bc_bitrate c = 0 \<and> bc_st c = Steady"
    and "bc_ceiling c \<noteq> 0 \<Longrightarrow> bc_min_bitrate c = min (cf_min_bitrate_bps (bc_conf c)) (bc_ceiling c)"
  shows "bc_inv (snd (reset_locked c))"
  using assms unfolding bc_inv_def core_reset by (auto simp: core_inv_def core_def)

lemma bc_inv_zero: "bc_inv c \<Longrightarrow> bc_ceiling c = 0 \<Longrightarrow> bc_bitrate c = 0 \<and> bc_st c = Steady"
  by (simp add: bc_inv_def core_inv_def core_def)

lemma configure_inv: "bc_inv (bc_configure conf ceil en radio m c)"
  by (simp add: bc_configure_def back_to_ceiling_def core_simps bc_inv_def)
    (auto simp: core_def core_inv_def)

lemma set_client_mode_inv: "bc_inv c \<Longrightarrow> bc_inv (snd (set_client_mode m c))"
proof -
  assume inv: "bc_inv c"
  let ?c = "c\<lparr>bc_client_mode := m\<rparr>"
  have "bc_inv ?c" if "mode_locked c = mode_locked ?c"
    using inv that by (auto simp: bc_inv_def core_inv_def mode_core [symmetric])
  moreover have "bc_inv (snd (reset_locked ?c))"
    using bc_inv_zero [OF inv] bc_invD(7) [OF inv] by (intro reset_inv) auto
  ultimately show ?thesis using inv by (simp add: set_client_mode_def Let_def)
qed

lemma set_client_enabled_inv: "bc_inv c \<Longrightarrow> bc_inv (snd (set_client_enabled b c))"
  using bc_inv_zero [of c] bc_invD(7) [of c] reset_inv [of "c\<lparr>bc_client_enabled := b\<rparr>"]
  by (auto simp: set_client_enabled_def)

lemma set_ceiling_inv: "bc_inv c \<Longrightarrow> bc_inv (snd (set_ceiling b c))"
  by (auto simp: set_ceiling_def intro!: reset_inv)

lemma reset_locked_inv: "bc_inv c \<Longrightarrow> bc_inv (snd (reset_locked c))"
  using bc_inv_zero [of c] bc_invD(7) [of c] reset_inv [of c] by blast

section \<open>The AIMD law keeps it\<close>

lemma aimd_decrease_core:
  assumes "bc_inv c" and "bc_ceiling c \<noteq> 0"
  shows "core (aimd_decrease severe c) = (core c)\<lparr>
      co_bitrate := bc_bitrate (aimd_decrease severe c), co_target := bc_recovery_target (aimd_decrease severe c),
      co_st := bc_st (aimd_decrease severe c)\<rparr>"
    and "bc_bitrate (aimd_decrease severe c) \<le> bc_bitrate c"
    and "bc_min_bitrate c \<le> bc_bitrate (aimd_decrease severe c)"
    and "bc_recovery_target (aimd_decrease severe c) \<le> bc_ceiling c"
    and "bc_min_bitrate c \<le> bc_recovery_target (aimd_decrease severe c)"
    and "bc_st (aimd_decrease severe c) = Recovering \<Longrightarrow>
      bc_bitrate (aimd_decrease severe c) < bc_recovery_target (aimd_decrease severe c)"
proof -
  note d = bc_invD [OF assms]
  have b: "bc_clamp c (scale (bc_bitrate c) deep_decrease_factor) \<le> bc_bitrate c"
    "bc_clamp c (scale (bc_bitrate c) decrease_factor) \<le> bc_bitrate c"
    using bc_clamp_le scale_factors d(2) by blast+
  note r = bc_clamp_range [OF d(1)]
  note defs = aimd_decrease_def Let_def flush_def
  show "core (aimd_decrease severe c) = (core c)\<lparr>
      co_bitrate := bc_bitrate (aimd_decrease severe c), co_target := bc_recovery_target (aimd_decrease severe c),
      co_st := bc_st (aimd_decrease severe c)\<rparr>"
    by (simp add: defs core_def)
  show "bc_bitrate (aimd_decrease severe c) \<le> bc_bitrate c" using b by (simp add: defs)
  show "bc_min_bitrate c \<le> bc_bitrate (aimd_decrease severe c)" using r by (simp add: defs)
  show "bc_recovery_target (aimd_decrease severe c) \<le> bc_ceiling c" using r d by (simp add: defs)
  show "bc_min_bitrate c \<le> bc_recovery_target (aimd_decrease severe c)" using r d by (simp add: defs)
  show "bc_bitrate (aimd_decrease severe c) < bc_recovery_target (aimd_decrease severe c)"
    if "bc_st (aimd_decrease severe c) = Recovering"
    using that by (simp add: defs not_le split: if_splits)
qed

lemma aimd_rebound_core:
  assumes "bc_inv c" and "bc_ceiling c \<noteq> 0" and "bc_st c = Recovering"
  shows "core (aimd_rebound c) = (core c)\<lparr>co_bitrate := bc_bitrate (aimd_rebound c), co_st := bc_st (aimd_rebound c)\<rparr>"
    and "bc_bitrate c \<le> bc_bitrate (aimd_rebound c)"
    and "bc_bitrate (aimd_rebound c) \<le> bc_recovery_target c"
    and "bc_st (aimd_rebound c) = Recovering \<Longrightarrow> bc_bitrate (aimd_rebound c) < bc_recovery_target c"
proof -
  note d = bc_invD [OF assms(1,2)]
  have "bc_bitrate c \<le> bc_clamp c (scale (bc_bitrate c) recovery_factor)"
    using d(3) by (intro bc_clamp_ge) (simp_all add: scale_double)
  with d(6) [OF assms(3)] show "bc_bitrate c \<le> bc_bitrate (aimd_rebound c)"
    by (simp add: aimd_rebound_def Let_def flush_def less_imp_le)
  show "core (aimd_rebound c) = (core c)\<lparr>co_bitrate := bc_bitrate (aimd_rebound c), co_st := bc_st (aimd_rebound c)\<rparr>"
    by (simp add: aimd_rebound_def Let_def flush_def core_def)
  show "bc_bitrate (aimd_rebound c) \<le> bc_recovery_target c"
    by (auto simp: aimd_rebound_def Let_def flush_def)
  show "bc_bitrate (aimd_rebound c) < bc_recovery_target c" if "bc_st (aimd_rebound c) = Recovering"
    using that by (simp add: aimd_rebound_def Let_def flush_def not_le split: if_splits)
qed

lemma aimd_increase_core:
  assumes "bc_inv c" and "bc_ceiling c \<noteq> 0"
  shows "core (aimd_increase c) = (core c)\<lparr>co_bitrate := bc_bitrate (aimd_increase c),
      co_target := bc_bitrate (aimd_increase c)\<rparr>"
    and "bc_bitrate c \<le> bc_bitrate (aimd_increase c)"
    and "bc_bitrate (aimd_increase c) \<le> bc_ceiling c"
proof -
  note d = bc_invD [OF assms]
  show "core (aimd_increase c) = (core c)\<lparr>co_bitrate := bc_bitrate (aimd_increase c),
      co_target := bc_bitrate (aimd_increase c)\<rparr>"
    by (simp add: aimd_increase_def Let_def flush_def core_def)
  show "bc_bitrate c \<le> bc_bitrate (aimd_increase c)"
    using bc_clamp_ge [OF _ d(3)] by (simp add: aimd_increase_def Let_def flush_def)
  show "bc_bitrate (aimd_increase c) \<le> bc_ceiling c"
    using bc_clamp_range [OF d(1)] by (simp add: aimd_increase_def Let_def flush_def)
qed

section \<open>One decision\<close>

text \<open>
  What a call that measures something may do to the members the policy decides
  about: it keeps the invariant, it returns the bitrate exactly when it
  changed it, and under AIMD it lowers it only after the cooldown, which it
  then starts again.
\<close>

definition decision :: "time_ns \<Rightarrow> bitrate_controller \<Rightarrow> u32 option \<times> bitrate_controller \<Rightarrow> bool" where
  "decision now c rc \<longleftrightarrow> bc_inv (snd rc)
     \<and> fst rc = (if bc_bitrate (snd rc) = bc_bitrate c then None else Some (bc_bitrate (snd rc)))
     \<and> wn_last_decrease (bc_wn (snd rc)) \<in> {wn_last_decrease (bc_wn c), now}
     \<and> (mode_locked c = Aimd \<and> bc_bitrate (snd rc) < bc_bitrate c \<longrightarrow>
          decrease_cooldown \<le> now - wn_last_decrease (bc_wn c) \<and> wn_last_decrease (bc_wn (snd rc)) = now)"

lemma decision_none: "bc_inv c \<Longrightarrow> core c' = core c \<Longrightarrow> decision now c (None, c')"
proof -
  assume "bc_inv c" and e: "core c' = core c"
  then have "bc_inv c'" by (simp add: bc_inv_core [OF e])
  then show ?thesis by (simp add: decision_def core_eqD [OF e])
qed

lemma decision_core: "core c' = core c \<Longrightarrow> decision now c' rc = decision now c rc"
proof -
  assume e: "core c' = core c"
  show ?thesis by (simp add: decision_def core_eqD [OF e])
qed

lemma changed_simps [simp]:
  "fst (changed p c) = (if bc_bitrate c = p then None else Some (bc_bitrate c))" "snd (changed p c) = c"
  by (simp_all add: changed_def)

lemma decision_aimd:
  assumes "bc_inv c" and "bc_ceiling c \<noteq> 0" and "bc_enabled c" and "mode_locked c = Aimd"
  shows "decision now c (evaluate_aimd now s c)"
proof -
  have on: "cf_enabled (bc_conf c)" "bc_client_enabled c" using assms(3) by (simp_all add: bc_enabled_def)
  have mode: "core_mode (core c) = Aimd" using assms(4) by (simp add: mode_core)
  have inv: "bc_inv c'" "bc_ceiling c' \<noteq> 0" if "core c' = core c \<or> core c' = (core c)\<lparr>co_last_decrease := t\<rparr>" for c' t
  proof -
    have "core_inv ((core c)\<lparr>co_last_decrease := t\<rparr>)" using assms(1) by (auto simp: bc_inv_def core_inv_def)
    with that assms(1) show "bc_inv c'" by (auto simp: bc_inv_def)
    have "co_ceiling (core c') = bc_ceiling c" using that by (elim disjE) simp_all
    with assms(2) show "bc_ceiling c' \<noteq> 0" by simp
  qed
  have inv_now: "bc_inv c'" if "core c' = (core c)\<lparr>co_bitrate := b, co_target := r, co_st := st, co_last_decrease := t\<rparr>"
    "bc_min_bitrate c \<le> b" "b \<le> bc_ceiling c" "bc_min_bitrate c \<le> r" "r \<le> bc_ceiling c"
    "st = Recovering \<Longrightarrow> b < r" for c' b r st t
    using that assms(1,2) on mode by (auto simp: bc_inv_def core_inv_def)
  note d = bc_invD [OF assms(1,2)]
  let ?since = "case wn_healthy_since (bc_wn c) of Some t \<Rightarrow> t | None \<Rightarrow> now"
  let ?h = "set_healthy_since (Some ?since) c" and ?l = "set_last_decrease now (set_healthy_since None c)"
  have core: "core ?h = core c" "core (set_healthy_since None c) = core c"
    "core ?l = (core c)\<lparr>co_last_decrease := now\<rparr>" by (simp_all add: core_simps)
  have bits: "bc_bitrate ?h = bc_bitrate c" "bc_bitrate ?l = bc_bitrate c" by simp_all
  have dec: "decision now c (changed (bc_bitrate c) (aimd_decrease severe ?l))"
    if "\<not> now - wn_last_decrease (bc_wn c) < decrease_cooldown" for severe
  proof -
    note a = aimd_decrease_core [OF inv(1) [of ?l now] inv(2) [of ?l now], of severe]
    have k: "core (aimd_decrease severe ?l) = (core c)\<lparr>co_bitrate := bc_bitrate (aimd_decrease severe ?l),
        co_target := bc_recovery_target (aimd_decrease severe ?l), co_st := bc_st (aimd_decrease severe ?l),
        co_last_decrease := now\<rparr>"
      using a(1) core(3) by simp
    have "wn_last_decrease (bc_wn (aimd_decrease severe ?l)) = now"
      using arg_cong [OF k, of co_last_decrease] by simp
    moreover have "bc_inv (aimd_decrease severe ?l)"
      using a(2-6) core(3) d(3) by (intro inv_now [OF k]) (auto intro: order_trans)
    ultimately show ?thesis using that by (simp add: decision_def)
  qed
  have reb: "decision now c (changed (bc_bitrate c) (aimd_rebound ?h))" if "bc_st c = Recovering"
  proof -
    have st: "bc_st ?h = Recovering" using that by simp
    note a = aimd_rebound_core [OF inv(1) [of ?h now] inv(2) [of ?h now] st]
    have k: "core (aimd_rebound ?h) = (core c)\<lparr>co_bitrate := bc_bitrate (aimd_rebound ?h),
        co_target := bc_recovery_target c, co_st := bc_st (aimd_rebound ?h),
        co_last_decrease := wn_last_decrease (bc_wn c)\<rparr>"
      using a(1) core(1) by (simp add: core_def)
    have l: "wn_last_decrease (bc_wn (aimd_rebound ?h)) = wn_last_decrease (bc_wn c)"
      using arg_cong [OF k, of co_last_decrease] by simp
    have "bc_inv (aimd_rebound ?h)"
      using a(2-4) core(1) d(2,4,5) by (intro inv_now [OF k]) (auto intro: order_trans)
    with a(2) core(1) l show ?thesis by (auto simp: decision_def)
  qed
  have inc: "decision now c (changed (bc_bitrate c) (aimd_increase ?h))" if "bc_st c \<noteq> Recovering"
  proof -
    note a = aimd_increase_core [OF inv(1) [of ?h now] inv(2) [of ?h now]]
    have k: "core (aimd_increase ?h) = (core c)\<lparr>co_bitrate := bc_bitrate (aimd_increase ?h),
        co_target := bc_bitrate (aimd_increase ?h), co_st := bc_st c,
        co_last_decrease := wn_last_decrease (bc_wn c)\<rparr>"
      using a(1) core(1) by (simp add: core_def)
    have l: "wn_last_decrease (bc_wn (aimd_increase ?h)) = wn_last_decrease (bc_wn c)"
      using arg_cong [OF k, of co_last_decrease] by simp
    have "bc_inv (aimd_increase ?h)"
      using a(2,3) core(1) d(2) that by (intro inv_now [OF k]) (auto intro: order_trans)
    with a(2) core(1) l show ?thesis by (auto simp: decision_def)
  qed
  show ?thesis
    using dec reb inc decision_none [OF assms(1)] core
    by (simp add: evaluate_aimd_def Let_def)
qed

lemma decision_changed:
  assumes "bc_inv c" and "bc_ceiling c \<noteq> 0" and "bc_enabled c" and "mode_locked c = Bbr"
    and k: "core c' = (core c)\<lparr>co_bitrate := b, co_last_decrease := t\<rparr>"
    and "bc_min_bitrate c \<le> b" and "b \<le> bc_ceiling c" and "t \<in> {wn_last_decrease (bc_wn c), now}"
  shows "decision now c (changed (bc_bitrate c) c')"
proof -
  have "bc_inv c'" using bc_inv_new_bitrate [OF assms(1-3) _ assms(6,7) k] assms(4) by blast
  moreover have "wn_last_decrease (bc_wn c') = t" using arg_cong [OF k, of co_last_decrease] by simp
  ultimately show ?thesis using assms(4,8) by (auto simp: decision_def)
qed

lemma decision_bbr_blind:
  assumes "bc_inv c" and "bc_ceiling c \<noteq> 0" and "bc_enabled c" and "mode_locked c = Bbr"
  shows "decision now c (bbr_blind now s c)"
proof -
  let ?since = "case wn_healthy_since (bc_wn c) of Some t \<Rightarrow> t | None \<Rightarrow> now"
  let ?h = "set_healthy_since (Some ?since) c"
  note range = bc_clamp_range [OF bc_invD(1) [OF assms(1,2)]]
  have k: "core (flush (?h\<lparr>bc_bitrate := b\<rparr>)) = (core c)\<lparr>co_bitrate := b, co_last_decrease := wn_last_decrease (bc_wn c)\<rparr>"
    for b by (simp add: core_simps)
  have "decision now c (changed (bc_bitrate c)
      (flush (?h\<lparr>bc_bitrate := bc_clamp c (uint (bc_bitrate c) + uint (increase_step ?h))\<rparr>)))"
    using range by (intro decision_changed [OF assms k]) simp_all
  moreover have "core ?h = core c" "core (set_healthy_since None c) = core c" by (simp_all add: core_simps)
  ultimately show ?thesis
    using decision_none [OF assms(1)] by (simp add: bbr_blind_def Let_def)
qed

lemma decision_bbr_backoff:
  assumes "bc_inv c" and "bc_ceiling c \<noteq> 0" and "bc_enabled c" and "mode_locked c = Bbr"
  shows "decision now c (changed (bc_bitrate c) (bbr_backoff now s bw c))"
proof -
  note range = bc_clamp_range [OF bc_invD(1) [OF assms(1,2)]]
  have k: "core (bbr_backoff now s bw c) =
      (core c)\<lparr>co_bitrate := bc_bitrate (bbr_backoff now s bw c), co_last_decrease := now\<rparr>"
    by (simp add: bbr_backoff_def Let_def flush_def core_def)
  have "bc_min_bitrate c \<le> bc_bitrate (bbr_backoff now s bw c)"
    "bc_bitrate (bbr_backoff now s bw c) \<le> bc_ceiling c"
    using range by (simp_all add: bbr_backoff_def Let_def flush_def)
  then show ?thesis by (intro decision_changed [OF assms k]) simp_all
qed

lemma decision_bbr_track:
  assumes "bc_inv c" and "bc_ceiling c \<noteq> 0" and "bc_enabled c" and "mode_locked c = Bbr"
  shows "decision now c (bbr_track now bw c)"
proof -
  obtain forced c1 where adv: "bbr_advance now bw (bbr_radio_steady now c) = (forced, c1)" by fastforce
  have k1: "core c1 = core c"
    using core_bbr_advance [of now bw "bbr_radio_steady now c"] adv by (simp add: core_bbr_radio_steady)
  note e = core_eqD [OF k1]
  note range = bc_clamp_range [OF bc_invD(1) [OF assms(1,2)]]
  define target where "target = bc_clamp c1 (fp_to_u64 (fp_mul F64 (bbr_gain c1) bw))"
  have t: "bc_min_bitrate c \<le> target" "target \<le> bc_ceiling c"
    using range by (simp_all add: target_def bc_clamp_core [OF k1])
  let ?c2 = "c1\<lparr>bc_bitrate := target, bc_est := (bc_est c1)\<lparr>es_last_bbr_change := now\<rparr>\<rparr>"
  have "core ?c2 = (core c)\<lparr>co_bitrate := target, co_last_decrease := wn_last_decrease (bc_wn c)\<rparr>"
    using k1 by (simp add: core_simps)
  then have "core (if bc_bitrate ?c2 \<noteq> bc_bitrate c then flush ?c2 else ?c2) =
      (core c)\<lparr>co_bitrate := target, co_last_decrease := wn_last_decrease (bc_wn c)\<rparr>"
    by (simp only: core_flush if_cancel if_distrib)
  from decision_changed [OF assms this t] decision_none [OF assms(1) k1] show ?thesis
    unfolding bbr_track_def adv Let_def prod.case target_def [symmetric] by (simp del: changed_simps)
qed

lemma decision_bbr:
  assumes "bc_inv c" and "bc_ceiling c \<noteq> 0" and "bc_enabled c" and "mode_locked c = Bbr"
  shows "decision now c (evaluate_bbr now s c)"
proof -
  have pre: "bc_inv c'" "bc_ceiling c' \<noteq> 0" "bc_enabled c'" "mode_locked c' = Bbr" if "core c' = core c" for c'
    using assms core_eqD [OF that] bc_inv_core [OF that] by (simp_all add: bc_enabled_def)
  let ?c1 = "bbr_expire now c" and ?c2 = "bbr_seed now (bbr_expire now c)"
  have k: "core ?c1 = core c" "core ?c2 = core c" by (simp_all add: core_simps)
  have "decision now c (bbr_blind now s ?c1)"
    using decision_bbr_blind [OF pre [OF k(1)]] by (simp add: decision_core [OF k(1)])
  moreover have "decision now c (changed (bc_bitrate c') (bbr_backoff now s bw c'))"
    "decision now c (bbr_track now bw c')" if "core c' = core c" for c' bw
    using decision_bbr_backoff [OF pre [OF that]] decision_bbr_track [OF pre [OF that]]
    by (simp_all add: decision_core [OF that])
  ultimately show ?thesis
    using decision_none [OF assms(1)] k by (simp add: evaluate_bbr_def Let_def del: changed_simps)
qed

section \<open>Feedback and radio reports\<close>

lemma decision_evaluate:
  assumes "bc_inv c" and "bc_ceiling c \<noteq> 0" and "bc_enabled c"
  shows "decision now c (evaluate now c)"
proof -
  let ?c1 = "c\<lparr>bc_wn := (bc_wn c)\<lparr>wn_last_evaluation := now\<rparr>\<rparr>"
  define c2 where "c2 = (if rd_hold (bc_radio ?c1) \<and> radio_max_age < now - rd_last_sample (bc_radio ?c1)
    then set_hold False ?c1 else ?c1)"
  obtain s c3 where a: "analyse now c2 = (s, c3)" by fastforce
  have "core c2 = core c" by (simp add: c2_def core_simps)
  then have k: "core c3 = core c" using core_analyse [of now c2] a by simp
  have pre: "bc_inv c3" "bc_ceiling c3 \<noteq> 0" "bc_enabled c3"
    using assms core_eqD [OF k] bc_inv_core [OF k] by (simp_all add: bc_enabled_def)
  have "decision now c (evaluate_bbr now s c3)" if "mode_locked c3 = Bbr"
    using decision_bbr [OF pre that] by (simp add: decision_core [OF k])
  moreover have "decision now c (evaluate_aimd now s c3)" if "mode_locked c3 \<noteq> Bbr"
    using decision_aimd [OF pre, of now s] that bitrate_mode.exhaust [of "mode_locked c3"]
    by (auto simp: decision_core [OF k])
  ultimately show ?thesis
    using decision_none [OF assms(1) refl] decision_none [OF assms(1) k] a
    unfolding evaluate_def Let_def c2_def [symmetric] by simp
qed

lemma decision_feedback:
  assumes "bc_inv c"
  shows "decision now c (on_feedback fb period streaming now c)"
proof (cases "cf_enabled (bc_conf c) \<and> bc_client_enabled c \<and> streaming \<and> bc_ceiling c \<noteq> 0 \<and> 0 < period
    \<and> \<not> video_stream_count \<le> stream_index fb")
  case False
  then show ?thesis
    using decision_none [OF assms refl, of now] by (auto simp: on_feedback_def not_le)
next
  case True
  let ?c1 = "c\<lparr>bc_fr := (bc_fr c)\<lparr>fr_frame_period := period\<rparr>\<rparr>"
  have k1: "core ?c1 = core c" by (simp add: core_simps)
  show ?thesis
  proof (cases "ring_slot (frame_index fb) now ?c1")
    case None
    with True show ?thesis
      using decision_none [OF assms k1, of now] by (auto simp: on_feedback_def Let_def)
  next
    case (Some p)
    obtain i c2 where p: "p = (i, c2)" by (cases p)
    let ?c3 = "on_slot i (join_feedback fb) c2"
    have k: "core ?c3 = core c"
      using core_ring_slot [of _ now ?c1 i c2] Some p k1 by (simp add: core_on_slot)
    have "bc_inv ?c3" "bc_ceiling ?c3 \<noteq> 0" "bc_enabled ?c3"
      using assms True core_eqD [OF k] bc_inv_core [OF k] by (simp_all add: bc_enabled_def)
    from decision_evaluate [OF this] have "decision now c (evaluate now ?c3)"
      by (simp add: decision_core [OF k])
    with True Some p show ?thesis by (auto simp: on_feedback_def Let_def)
  qed
qed

lemma radio_step_core:
  assumes "bc_inv c" and "bc_ceiling c \<noteq> 0"
    and c'_def: "c' = snd (radio_step now c)"
  shows "core c' = (core c)\<lparr>co_bitrate := bc_bitrate c', co_last_decrease := now\<rparr>"
    and "bc_bitrate c' \<le> bc_bitrate c" and "bc_min_bitrate c \<le> bc_bitrate c'"
    and "fst (radio_step now c) = (if bc_bitrate c' = bc_bitrate c then None else Some (bc_bitrate c'))"
proof -
  note d = bc_invD [OF assms(1,2)]
  have b: "bc_clamp c (scale (bc_bitrate c) decrease_factor) \<le> bc_bitrate c"
    using bc_clamp_le scale_factors d(2) by blast
  note r = bc_clamp_range [OF d(1)]
  note defs = c'_def radio_step_def Let_def flush_def
  show "core c' = (core c)\<lparr>co_bitrate := bc_bitrate c', co_last_decrease := now\<rparr>"
    by (simp add: defs core_def)
  show "bc_bitrate c' \<le> bc_bitrate c" using b by (auto simp: defs less_imp_le)
  show "bc_min_bitrate c \<le> bc_bitrate c'" using r d(2) by (simp add: defs)
  show "fst (radio_step now c) = (if bc_bitrate c' = bc_bitrate c then None else Some (bc_bitrate c'))"
    by (simp add: defs)
qed

lemma wifi_cases:
  obtains (quiet) c' where "on_wifi_state rssi link now c = (None, c')" and "core c' = core c"
  | (step) c' where "on_wifi_state rssi link now c = radio_step now c'" and "core c' = core c"
      and "bc_enabled c" and "bc_ceiling c \<noteq> 0" and "\<not> (mode_locked c = Aimd \<and> bc_st c = Recovering)"
      and "decrease_cooldown \<le> now - wn_last_decrease (bc_wn c)"
proof -
  obtain t c1 where a: "analyse_radio now (radio_admit rssi link now c) = (t, c1)" by fastforce
  have k1: "core c1 = core c"
    using core_analyse_radio [of now "radio_admit rssi link now c"] a by (simp add: core_radio_admit)
  have k2: "core (radio_release t now c1) = core c" using k1 by (simp add: core_radio_release)
  note e1 = core_eqD [OF k1] and e2 = core_eqD [OF k2]
  define c2 where "c2 = radio_release t now c1"
  define go where "go \<longleftrightarrow> bc_enabled c \<and> bc_ceiling c \<noteq> 0 \<and> bc_radio_aware c \<and> \<not> (0 \<le> rssi \<or> rssi \<le> - 110) \<and> rt_usable t
    \<and> \<not> (mode_locked c1 = Aimd \<and> bc_st c1 = Recovering)
    \<and> (radio_falling t \<or> radio_starved t (bc_bitrate c1))
    \<and> \<not> (now - wn_last_decrease (bc_wn c2) < decrease_cooldown \<or> now - rd_last_step (bc_radio c2) < radio_step_interval)"
  have w: "on_wifi_state rssi link now c =
     (if \<not> cf_enabled (bc_conf c) \<or> \<not> bc_client_enabled c \<or> \<not> bc_radio_aware c \<or> bc_ceiling c = 0 then (None, c)
      else if 0 \<le> rssi \<or> rssi \<le> - 110 then (None, c) else if \<not> rt_usable t then (None, c1)
      else if mode_locked c1 = Aimd \<and> bc_st c1 = Recovering then (None, c1)
      else if \<not> radio_falling t \<and> \<not> radio_starved t (bc_bitrate c1) then (None, c2)
      else if now - wn_last_decrease (bc_wn c2) < decrease_cooldown
        \<or> now - rd_last_step (bc_radio c2) < radio_step_interval then (None, c2)
      else radio_step now c2)"
    unfolding on_wifi_state_def a Let_def prod.case c2_def ..
  show ?thesis
  proof (cases go)
    case True
    then have "on_wifi_state rssi link now c = radio_step now c2" by (auto simp: w go_def bc_enabled_def)
    with True show ?thesis using step [of c2] k2 e1 e2 by (auto simp: go_def c2_def)
  next
    case False
    then have "on_wifi_state rssi link now c \<in> {(None, c), (None, c1), (None, c2)}"
      by (auto simp: w go_def bc_enabled_def)
    then show ?thesis using quiet k1 k2 by (auto simp: c2_def)
  qed
qed

lemma decision_wifi:
  assumes "bc_inv c"
  shows "decision now c (on_wifi_state rssi link now c)"
    and "bc_bitrate (snd (on_wifi_state rssi link now c)) \<le> bc_bitrate c"
proof -
  have "decision now c (on_wifi_state rssi link now c)
    \<and> bc_bitrate (snd (on_wifi_state rssi link now c)) \<le> bc_bitrate c"
  proof (cases rule: wifi_cases [of rssi link now c])
    case (quiet c')
    then show ?thesis using decision_none [OF assms quiet(2)] core_eqD(5) [OF quiet(2)] by simp
  next
    case (step c')
    note e = core_eqD [OF step(2)]
    have inv: "bc_inv c'" "bc_ceiling c' \<noteq> 0" using assms step bc_inv_core [OF step(2)] e by simp_all
    note r = radio_step_core [OF inv refl, of now]
    have k: "core (snd (radio_step now c')) = (core c)\<lparr>co_bitrate := bc_bitrate (snd (radio_step now c')),
        co_last_decrease := now\<rparr>" using r(1) step(2) by simp
    have "bc_inv (snd (radio_step now c'))"
    proof (rule bc_inv_new_bitrate [OF assms step(4,3) _ _ _ k])
      show "mode_locked c = Bbr \<or> bc_st c = Steady"
        using step(5) by (cases "mode_locked c"; cases "bc_st c") auto
      show "bc_min_bitrate c \<le> bc_bitrate (snd (radio_step now c'))" using r(3) e by simp
      show "bc_bitrate (snd (radio_step now c')) \<le> bc_ceiling c"
        using r(2) e bc_invD(3) [OF assms step(4)] by (simp add: order_trans)
    qed
    moreover have "wn_last_decrease (bc_wn (snd (radio_step now c'))) = now"
      using arg_cong [OF k, of co_last_decrease] by simp
    ultimately show ?thesis using r(2,4) e step(1,6) by (simp add: decision_def)
  qed
  then show "decision now c (on_wifi_state rssi link now c)"
    "bc_bitrate (snd (on_wifi_state rssi link now c)) \<le> bc_bitrate c" by simp_all
qed

section \<open>Every call\<close>

lemma new_inv: "bc_inv bitrate_controller_new"
  by (simp add: bc_inv_def core_inv_def core_def bitrate_controller_new_def)

lemma bc_step_inv: "bc_inv c \<Longrightarrow> bc_inv (bc_step c e)"
  using decision_feedback [of c] decision_wifi(1) [of c]
    bc_inv_core [OF core_set_pacing_window] bc_inv_core [OF core_set_radio_aware] bc_inv_core [OF core_on_frame_bytes]
  by (cases e) (simp_all add: bc_step_def configure_inv set_client_mode_inv set_client_enabled_inv set_ceiling_inv
    reset_locked_inv decision_def)

interpretation bitrate: machine_invariant bc_step bc_inv
  by unfold_locales (rule bc_step_inv)

lemma bc_run_inv: "bc_inv c \<Longrightarrow> bc_inv (bc_run c es)"
  unfolding bc_run_def by (rule bitrate.inv_run)

lemma bc_run_append: "bc_run c (es @ es') = bc_run (bc_run c es) es'"
  by (simp add: bc_run_def)

text \<open>
  C31. Whatever the headset reports, whenever and in whatever order, and
  however the operator and the headset flip the switches: as long as a ceiling
  is set the bitrate is at most the ceiling and at least the configured
  minimum, or the ceiling where that is lower.
\<close>

theorem bitrate_in_range:
  assumes "bc_ceiling (bc_run bitrate_controller_new es) \<noteq> 0"
  shows "min (cf_min_bitrate_bps (bc_conf (bc_run bitrate_controller_new es)))
        (bc_ceiling (bc_run bitrate_controller_new es)) \<le> bc_bitrate (bc_run bitrate_controller_new es)
    \<and> bc_bitrate (bc_run bitrate_controller_new es) \<le> bc_ceiling (bc_run bitrate_controller_new es)"
  using bc_invD [OF bc_run_inv [OF new_inv] assms] by simp

text \<open>
  With the control off, by the operator or by the headset, the bitrate is
  the ceiling: nothing that was measured outlives the switch.
\<close>

theorem switched_off_is_ceiling:
  assumes "\<not> bc_enabled (bc_run bitrate_controller_new es)"
  shows "bc_bitrate (bc_run bitrate_controller_new es) = bc_ceiling (bc_run bitrate_controller_new es)"
  using bc_run_inv [OF new_inv, of es] assms by (auto simp: bc_inv_def core_inv_def bc_enabled_def)

text \<open>
  A radio report never raises the bitrate, and what it returns is a
  lower bitrate than before: in every state the controller can be in.
\<close>

theorem radio_never_raises:
  assumes "on_wifi_state rssi link now (bc_run bitrate_controller_new es) = (r, c')"
  shows "bc_bitrate c' \<le> bc_bitrate (bc_run bitrate_controller_new es)
    \<and> (\<forall>b. r = Some b \<longrightarrow> b = bc_bitrate c' \<and> b < bc_bitrate (bc_run bitrate_controller_new es))"
proof -
  let ?c = "bc_run bitrate_controller_new es"
  have "r = (if bc_bitrate c' = bc_bitrate ?c then None else Some (bc_bitrate c'))" "bc_bitrate c' \<le> bc_bitrate ?c"
    using decision_wifi [OF bc_run_inv [OF new_inv, of es], where now = now and rssi = rssi and link = link] assms
    unfolding decision_def by (simp_all only: fst_conv snd_conv)
  then show ?thesis by (auto split: if_splits)
qed

section \<open>The caller stays in step\<close>

text \<open>
  The session applies every bitrate a call returns to its encoders; nothing
  else tells them. What the encoders run at, after a sequence of calls:
\<close>

definition applied :: "u32 \<Rightarrow> u32 option \<Rightarrow> u32" where
  "applied b r = (case r of Some b' \<Rightarrow> b' | None \<Rightarrow> b)"

fun encoder_rate :: "u32 \<Rightarrow> bitrate_controller \<Rightarrow> bc_call list \<Rightarrow> u32" where
  "encoder_rate b c [] = b"
| "encoder_rate b c (e # es) = encoder_rate (applied b (fst (bc_perform e c))) (bc_step c e) es"

fun is_configure :: "bc_call \<Rightarrow> bool" where
  "is_configure (Configure _ _ _ _ _) = True"
| "is_configure _ = False"

lemma reset_applied: "applied (bc_bitrate c) (fst (reset_locked c)) = bc_bitrate (snd (reset_locked c))"
  by (simp add: reset_locked_def applied_def Let_def)

lemma decision_applied: "decision now c rc \<Longrightarrow> applied (bc_bitrate c) (fst rc) = bc_bitrate (snd rc)"
  by (simp add: decision_def applied_def)

lemma call_applied:
  assumes "bc_inv c" and "\<not> is_configure e"
  shows "applied (bc_bitrate c) (fst (bc_perform e c)) = bc_bitrate (bc_step c e)"
proof (cases e)
  case (SetClientMode m)
  then show ?thesis using reset_applied [of "c\<lparr>bc_client_mode := m\<rparr>"]
    by (simp add: bc_step_def set_client_mode_def Let_def) (simp add: applied_def)
next
  case (SetClientEnabled b)
  then show ?thesis using reset_applied [of "c\<lparr>bc_client_enabled := b\<rparr>"]
    by (cases b; cases "bc_client_enabled c") (simp_all add: bc_step_def set_client_enabled_def applied_def)
next
  case (SetCeiling b)
  then show ?thesis
    by (simp add: bc_step_def set_ceiling_def reset_locked_def Let_def applied_def)
next
  case (Feedback fb period streaming now)
  then show ?thesis using decision_applied [OF decision_feedback [OF assms(1)]] by (simp add: bc_step_def)
next
  case (WifiState rssi link now)
  then show ?thesis using decision_applied [OF decision_wifi(1) [OF assms(1)]] by (simp add: bc_step_def)
qed (use assms(2) reset_applied [of c] core_eqD(5) [OF core_set_pacing_window]
    core_eqD(5) [OF core_set_radio_aware] core_eqD(5) [OF core_on_frame_bytes] in
    \<open>simp_all add: bc_step_def applied_def\<close>)

text \<open>
  The encoders never run at another bitrate than the controller thinks:
  started at the controller's bitrate and told every value a call returns,
  they are at the controller's bitrate after any sequence of calls. So an
  early return never hides a change, and \<open>None\<close> always means "unchanged".
\<close>

theorem encoders_in_step:
  assumes "\<not> (\<exists>e\<in>set es'. is_configure e)"
  shows "encoder_rate (bc_bitrate (bc_run bitrate_controller_new es)) (bc_run bitrate_controller_new es) es' =
    bc_bitrate (bc_run bitrate_controller_new (es @ es'))"
proof -
  have "encoder_rate (bc_bitrate c) c es' = bc_bitrate (bc_run c es')" if "bc_inv c" for c
    using that assms
  proof (induction es' arbitrary: c)
    case Nil
    then show ?case by (simp add: bc_run_def)
  next
    case (Cons e es')
    then show ?case using call_applied [of c e] bc_step_inv [of c e] by (simp add: bc_run_def)
  qed
  from this [OF bc_run_inv [OF new_inv, of es]] show ?thesis by (simp add: bc_run_append)
qed

section \<open>Decreases are spaced\<close>

fun measured_at :: "bc_call \<Rightarrow> time_ns option" where
  "measured_at (Feedback _ _ _ t) = Some t"
| "measured_at (WifiState _ _ t) = Some t"
| "measured_at _ = None"

definition lowers :: "bitrate_controller \<Rightarrow> bc_call \<Rightarrow> time_ns \<Rightarrow> bool" where
  "lowers c e t \<longleftrightarrow> measured_at e = Some t \<and> mode_locked c = Aimd \<and> bc_bitrate (bc_step c e) < bc_bitrate c"

lemma measured_decision: "bc_inv c \<Longrightarrow> measured_at e = Some t \<Longrightarrow> decision t c (bc_perform e c)"
  by (cases e) (auto simp: decision_feedback decision_wifi(1))

lemma last_decrease_step:
  assumes "bc_inv c"
  shows "wn_last_decrease (bc_wn (bc_step c e)) =  wn_last_decrease (bc_wn c)
    \<or> measured_at e = Some (wn_last_decrease (bc_wn (bc_step c e)))"
proof (cases "measured_at e")
  case (Some t)
  then show ?thesis using measured_decision [OF assms Some] by (auto simp: decision_def bc_step_def)
next
  case None
  have r: "wn_last_decrease (bc_wn (snd (reset_locked c'))) = wn_last_decrease (bc_wn c')" for c'
    using arg_cong [OF core_reset [of c'], of co_last_decrease] by (simp split: if_splits)
  from None show ?thesis
    using core_eqD(9) [OF core_set_pacing_window] core_eqD(9) [OF core_set_radio_aware]
      core_eqD(9) [OF core_on_frame_bytes]
    by (cases e) (simp_all add: bc_step_def set_client_mode_def set_client_enabled_def set_ceiling_def r Let_def
      bc_configure_def back_to_ceiling_def flush_def flush_radio_def flush_estimator_def)
qed

lemma last_decrease_run:
  assumes "bc_inv c" and "timed measured_at t es" and "t \<le> wn_last_decrease (bc_wn c)"
  shows "t \<le> wn_last_decrease (bc_wn (bc_run c es))"
  using assms
proof (induction es arbitrary: c t)
  case Nil
  then show ?case by (simp add: bc_run_def)
next
  case (Cons e es)
  have run: "bc_run c (e # es) = bc_run (bc_step c e) es" by (simp add: bc_run_def)
  show ?case
  proof (cases "measured_at e")
    case None
    with Cons last_decrease_step [OF Cons.prems(1), of e] show ?thesis
      by (simp add: run bc_step_inv)
  next
    case (Some t')
    with Cons.prems have t': "t \<le> t'" "timed measured_at t' es" by simp_all
    have "timed measured_at t es" using t' by (induction es) (auto split: option.splits)
    with Cons.IH [OF bc_step_inv [OF Cons.prems(1)]] last_decrease_step [OF Cons.prems(1), of e] Some t'(1) Cons.prems(3)
    show ?thesis by (auto simp: run)
  qed
qed

text \<open>
  C32. Under AIMD one bad patch cannot collapse the bitrate: two measurements
  that lower it, whether frame feedback or radio reports, are at least two
  seconds apart, from every state with the invariant (so from every reachable
  one) and whatever else is called in between, as long as the calls are made in
  the order of their time stamps.
\<close>

theorem decreases_spaced:
  assumes "bc_inv c" and "lowers c e t" and "lowers (bc_run c (e # es)) e' t'" and "timed measured_at t es"
  shows "decrease_cooldown \<le> t' - t"
proof -
  from measured_decision [OF assms(1)] assms(2) have "wn_last_decrease (bc_wn (bc_step c e)) = t"
    by (auto simp: lowers_def decision_def bc_step_def)
  then have "t \<le> wn_last_decrease (bc_wn (bc_run (bc_step c e) es))"
    by (intro last_decrease_run [OF bc_step_inv [OF assms(1)] assms(4)]) simp
  moreover have "bc_run c (e # es) = bc_run (bc_step c e) es" by (simp add: bc_run_def)
  moreover have "decrease_cooldown \<le> t' - wn_last_decrease (bc_wn (bc_run c (e # es)))"
    using measured_decision [OF bc_run_inv [OF assms(1)], of e' t' "e # es"] assms(3)
    by (auto simp: lowers_def decision_def bc_step_def)
  ultimately show ?thesis by simp
qed

section \<open>Witnesses\<close>

definition demo_calls :: "bc_call list" where
  "demo_calls = [Configure \<lparr>cf_enabled = True, cf_min_bitrate_bps = 10000000, cf_control = Aimd\<rparr> 50000000 True True None]"

lemma demo_run:
  "bc_bitrate (bc_run bitrate_controller_new demo_calls) = 50000000"
  "bc_ceiling (bc_run bitrate_controller_new demo_calls) = 50000000"
  "bc_enabled (bc_run bitrate_controller_new demo_calls)"
  by (simp_all add: bc_run_def demo_calls_def bc_step_def bc_configure_def back_to_ceiling_def flush_def
      flush_radio_def flush_estimator_def bc_enabled_def)

theorem bitrate_in_range_witness: "bc_bitrate (bc_run bitrate_controller_new demo_calls) \<le> 50000000"
  using bitrate_in_range [of demo_calls] demo_run by simp

theorem switched_off_is_ceiling_witness:
  "bc_bitrate (bc_run bitrate_controller_new (demo_calls @ [SetClientEnabled False])) =
   bc_ceiling (bc_run bitrate_controller_new (demo_calls @ [SetClientEnabled False]))"
  by (rule switched_off_is_ceiling)
    (simp add: bc_run_append [of _ demo_calls], simp add: bc_run_def bc_step_def set_client_enabled_def demo_calls_def
      bc_configure_def back_to_ceiling_def flush_def flush_radio_def flush_estimator_def bc_enabled_def reset_locked_def
      bitrate_controller_new_def Let_def)

theorem radio_never_raises_witness:
  "bc_bitrate (snd (on_wifi_state (- 70) 100 0 (bc_run bitrate_controller_new demo_calls))) \<le> 50000000"
  using radio_never_raises [of "- 70" 100 0 demo_calls, OF prod.collapse [symmetric]] demo_run by simp

theorem encoders_in_step_witness:
  "encoder_rate 50000000 (bc_run bitrate_controller_new demo_calls) [SetCeiling 30000000, WifiState (- 70) 100 0] =
    bc_bitrate (bc_run bitrate_controller_new (demo_calls @ [SetCeiling 30000000, WifiState (- 70) 100 0]))"
  using encoders_in_step [of "[SetCeiling 30000000, WifiState (- 70) 100 0]" demo_calls] demo_run by simp

text \<open>
  Twenty frames that never arrived: the next feedback lowers the bitrate, and
  so does the feedback for the twentieth frame that is lost after it.
\<close>

definition lost_controller :: bitrate_controller where
  "lost_controller = (let c = bc_run bitrate_controller_new demo_calls in c\<lparr>
     bc_wn := (bc_wn c)\<lparr>wn_window := replicate 20 \<lparr>sm_when = ms 10000, sm_utilisation = Num 0, sm_lost = True,
         sm_late = False, sm_rate = Num 0\<rparr>\<rparr>\<rparr>)"

definition lost_feedback :: "u64 \<Rightarrow> time_ns \<Rightarrow> bc_call" where
  "lost_feedback idx t = Feedback \<lparr>frame_index = idx, stream_index = 0, sent_to_decoder = 0, received_first_packet = 0,
     received_last_packet = 0, received_from_decoder = 0, blitted = 0, times_displayed = 0\<rparr> (ms 10) True (ms t)"

definition lost_burst :: "bc_call list" where
  "lost_burst = map (\<lambda>i. lost_feedback (of_nat i) 12400) [1..<36]"

lemma lost_controller_inv: "bc_inv lost_controller"
proof -
  have "core lost_controller = core (bc_run bitrate_controller_new demo_calls)"
    by (simp add: lost_controller_def Let_def core_simps)
  then show ?thesis using bc_run_inv [OF new_inv] by (simp add: bc_inv_def)
qed

lemma first_decrease: "lowers lost_controller (lost_feedback 0 10500) (ms 10500)"
  by code_simp

lemma second_decrease: "lowers (bc_run lost_controller (lost_feedback 0 10500 # lost_burst)) (lost_feedback 36 12700) (ms 12700)"
  by code_simp

theorem decreases_spaced_witness: "decrease_cooldown \<le> ms 12700 - ms 10500"
  by (rule decreases_spaced [OF lost_controller_inv first_decrease second_decrease])
    (simp add: lost_burst_def lost_feedback_def upt_rec)

end
