(* ===== verification/Bitrate_Laws.thy ===== *)
theory Bitrate_Laws
  imports Bitrate_Safety
begin

text \<open>
  How the two control laws react: the percentile they read, the rebound after
  a deep drop, and the backoff of the delivered-bandwidth law.
\<close>

section \<open>The percentile\<close>

lemma fp_insort_num: "fp_insort (Num x) (map Num ys) = map Num (insort x ys)"
  by (induction ys) auto

lemma fp_sort_num: "fp_sort (map Num xs) = map Num (sort xs)"
  by (induction xs) (simp_all add: fp_insort_num)

text \<open>
  The statistic the thresholds are compared with is the order statistic
  the code asks \<^verbatim>\<open>std::nth_element\<close> for: the element at the percentile's index of
  the sorted samples, and the index is always one of the list.
\<close>

lemma percentile_is_order_statistic:
  assumes "qs \<noteq> []"
  shows "percentile (map Num qs) = Num (sort qs ! percentile_index (length qs)) \<and> percentile_index (length qs) < length qs"
proof -
  have "percentile_index (length qs) < length qs" using assms by (auto simp: percentile_index_def min_def)
  then show ?thesis using assms by (simp add: percentile_def fp_sort_num)
qed

section \<open>The rebound\<close>

definition healthy_run :: "bc_stats \<Rightarrow> (nat \<Rightarrow> time_ns) \<Rightarrow> nat \<Rightarrow> bitrate_controller \<Rightarrow> bitrate_controller" where
  "healthy_run s t n c = foldl (\<lambda>c i. snd (evaluate_aimd (t i) s c)) c [0..<n]"

lemma healthy_run_Suc: "healthy_run s t (Suc n) c = snd (evaluate_aimd (t n) s (healthy_run s t n c))"
  by (simp add: healthy_run_def)

lemma healthy_not_degraded: "is_healthy s \<Longrightarrow> \<not> is_degraded s"
proof -
  assume h: "is_healthy s"
  have c: "fp_lt utilisation_increase utilisation_decrease" "fp_lt utilisation_increase utilisation_severe"
    by code_simp+
  have "fp_lt a b \<Longrightarrow> fp_lt b x \<Longrightarrow> \<not> fp_lt x a" for a b x
    by (cases a; cases b; cases x) auto
  with c h show ?thesis
    unfolding is_degraded_def is_severe_def is_healthy_def lost_frames_severe_def late_frames_severe_def
      lost_frames_decrease_def late_frames_decrease_def
    by (metis not_one_le_zero numeral_eq_iff not_numeral_le_zero)
qed

text \<open>Two evaluations far enough apart make one rebound.\<close>

lemma rebound_pair:
  assumes "bc_inv c" and "bc_ceiling c \<noteq> 0" and "bc_st c = Recovering" and "wn_healthy_since (bc_wn c) = None"
    and "is_healthy s" and "recovery_confirm \<le> t2 - t1"
  defines "c' \<equiv> snd (evaluate_aimd t2 s (snd (evaluate_aimd t1 s c)))"
  shows "c' = aimd_rebound (set_healthy_since (Some t1) c)"
proof -
  have nd: "\<not> is_degraded s" using assms(5) by (rule healthy_not_degraded)
  have one: "snd (evaluate_aimd t1 s c) = set_healthy_since (Some t1) c"
    using assms(3-5) nd by (simp add: evaluate_aimd_def Let_def recovery_confirm_def recovery_step_interval_def)
  have "\<not> t2 - t1 < (if b then recovery_confirm else recovery_step_interval)" for b
    using assms(6) by (simp add: recovery_confirm_def recovery_step_interval_def)
  then show ?thesis
    using assms(3,5) nd unfolding c'_def one by (simp add: evaluate_aimd_def Let_def)
qed

lemma rebound_doubles:
  assumes "bc_inv c" and "bc_ceiling c \<noteq> 0" and "bc_st c = Recovering"
  defines "c' \<equiv> aimd_rebound c"
  shows "uint (bc_bitrate c') = min (uint (bc_recovery_target c)) (2 * uint (bc_bitrate c))"
    and "bc_st c' = (if bc_bitrate c' = bc_recovery_target c then Steady else Recovering)"
    and "wn_healthy_since (bc_wn c') = None"
proof -
  note d = bc_invD [OF assms(1,2)]
  let ?b = "bc_bitrate c" and ?r = "bc_recovery_target c"
  have b: "bc_bitrate c' = min ?r (bc_clamp c (uint ?b * 2))"
    by (simp add: c'_def aimd_rebound_def Let_def flush_def scale_double)
  have "uint (bc_min_bitrate c) \<le> uint ?b * 2" using d(2) uint_ge_0 [of ?b] unfolding word_le_def by linarith
  then have "uint (bc_clamp c (uint ?b * 2)) = min (uint (bc_ceiling c)) (uint ?b * 2)"
    using uint_word_of_int_le [of "uint ?b * 2" "bc_ceiling c"]
    by (auto simp: bc_clamp_def word_le_def min_def not_less)
  moreover have "uint (min x y) = min (uint x) (uint y)" for x y :: u32
    by (simp add: min_def word_le_def)
  ultimately have "uint (bc_bitrate c') = min (uint ?r) (min (uint (bc_ceiling c)) (uint ?b * 2))" using b by simp
  also have "\<dots> = min (uint ?r) (uint ?b * 2)" using d(5) by (simp add: word_le_def min_def)
  finally show "uint (bc_bitrate c') = min (uint ?r) (2 * uint ?b)" by (simp add: mult.commute)
  have "bc_bitrate c' \<le> ?r" using b by simp
  then show "bc_st c' = (if bc_bitrate c' = ?r then Steady else Recovering)"
    using assms(3) by (auto simp: c'_def aimd_rebound_def Let_def flush_def)
  show "wn_healthy_since (bc_wn c') = None" by (simp add: c'_def aimd_rebound_def Let_def flush_def)
qed

definition rebounding :: "bitrate_controller \<Rightarrow> bitrate_controller \<Rightarrow> bool" where
  "rebounding c0 c \<longleftrightarrow> bc_inv c \<and> bc_ceiling c \<noteq> 0 \<and> bc_enabled c \<and> bc_st c = Recovering
     \<and> wn_healthy_since (bc_wn c) = None \<and> bc_recovery_target c = bc_recovery_target c0"

lemma rebounding_pair:
  assumes r: "rebounding c0 c" and "is_healthy s" and "recovery_confirm \<le> t2 - t1"
  defines "c' \<equiv> snd (evaluate_aimd t2 s (snd (evaluate_aimd t1 s c)))"
  shows "bc_st c' = Steady \<and> bc_bitrate c' = bc_recovery_target c0
    \<or> rebounding c0 c' \<and> uint (bc_bitrate c') = 2 * uint (bc_bitrate c)"
proof -
  note r' = r [unfolded rebounding_def]
  let ?h = "set_healthy_since (Some t1) c"
  have c': "c' = aimd_rebound ?h"
    unfolding c'_def by (rule rebound_pair) (use r' assms(2,3) in auto)
  have kh: "core ?h = core c" by (simp add: core_simps)
  have h: "bc_inv ?h" "bc_ceiling ?h \<noteq> 0" "bc_st ?h = Recovering" using r' bc_inv_core [OF kh] by simp_all
  note b = rebound_doubles [OF h] and k = aimd_rebound_core [OF h]
  show ?thesis
  proof (cases "bc_bitrate c' = bc_recovery_target c")
    case True
    with b(2) r' show ?thesis unfolding c' by simp
  next
    case False
    have core: "core c' = (core c)\<lparr>co_bitrate := bc_bitrate c'\<rparr>"
      using k(1) kh b(2) False r' unfolding c' by (simp add: core_def)
    note e = arg_cong [OF core, of co_ceiling] arg_cong [OF core, of co_conf] arg_cong [OF core, of co_client_enabled]
      arg_cong [OF core, of co_target] arg_cong [OF core, of co_st]
    have le: "bc_bitrate c' \<le> bc_recovery_target c" "bc_bitrate c \<le> bc_bitrate c'" using k(2,3) unfolding c' by simp_all
    have inv: "bc_inv c" "bc_ceiling c \<noteq> 0" using r' by blast+
    note d = bc_invD [OF inv]
    have "bc_min_bitrate c \<le> bc_bitrate c'" "bc_bitrate c' \<le> bc_ceiling c" "bc_bitrate c' < bc_recovery_target c"
      using le False d(2,5) by (blast intro: order_trans, blast intro: order_trans, simp)
    moreover have "core_mode (core c) = Aimd" using r' by (simp add: bc_inv_def core_inv_def)
    ultimately have "core_inv ((core c)\<lparr>co_bitrate := bc_bitrate c'\<rparr>)"
      using r' d(4,5,7) inv(2) unfolding core_inv_def by (simp add: bc_enabled_def del: min_less_iff_disj min_le_iff_disj)
    then have "bc_inv c'" by (simp only: bc_inv_def core)
    moreover have "uint (bc_bitrate c') \<noteq> uint (bc_recovery_target c)" using False by (simp add: word_uint_eq_iff)
    then have "uint (bc_bitrate c') = 2 * uint (bc_bitrate c)"
      using b(1) unfolding c' [symmetric] by (simp add: min_def split: if_splits)
    ultimately show ?thesis using r' e b(3) unfolding rebounding_def c' by (simp add: bc_enabled_def)
  qed
qed

lemma rebounding_run:
  assumes "rebounding c c" and "is_healthy s" and "\<And>i. recovery_confirm \<le> t (Suc i) - t i"
  shows "(\<exists>m \<le> 2 * n. bc_st (healthy_run s t m c) = Steady \<and> bc_bitrate (healthy_run s t m c) = bc_recovery_target c)
    \<or> rebounding c (healthy_run s t (2 * n) c) \<and> uint (bc_bitrate (healthy_run s t (2 * n) c)) = 2 ^ n * uint (bc_bitrate c)"
proof (induction n)
  case 0
  then show ?case using assms(1) by (simp add: healthy_run_def)
next
  case (Suc n)
  then show ?case
  proof
    assume "\<exists>m \<le> 2 * n. bc_st (healthy_run s t m c) = Steady \<and> bc_bitrate (healthy_run s t m c) = bc_recovery_target c"
    then show ?thesis by (meson le_trans mult_le_mono2 order_refl le_SucI)
  next
    let ?c = "healthy_run s t (2 * n) c"
    assume r: "rebounding c ?c \<and> uint (bc_bitrate ?c) = 2 ^ n * uint (bc_bitrate c)"
    have run: "healthy_run s t (2 * Suc n) c =
        snd (evaluate_aimd (t (Suc (2 * n))) s (snd (evaluate_aimd (t (2 * n)) s ?c)))"
      by (simp add: healthy_run_Suc)
    from rebounding_pair [OF conjunct1 [OF r] assms(2) assms(3) [of "2 * n"]] r show ?thesis
      unfolding run [symmetric] by auto
  qed
qed

text \<open>
  C33. A deep drop is undone: from the state a drop leaves behind, with any
  bitrate but 0, at most 64 evaluations that find the link healthy, each at
  least the confirmation time after the one before, bring the bitrate exactly
  to the remembered target and leave the recovery.
\<close>

theorem rebound_completes:
  assumes "bc_inv c" and "bc_ceiling c \<noteq> 0" and "bc_enabled c" and "bc_st c = Recovering"
    and "wn_healthy_since (bc_wn c) = None" and "bc_bitrate c \<noteq> 0" and "is_healthy s"
    and "\<And>i. recovery_confirm \<le> t (Suc i) - t i"
  shows "\<exists>n \<le> 64. bc_st (healthy_run s t n c) = Steady \<and> bc_bitrate (healthy_run s t n c) = bc_recovery_target c"
proof (rule ccontr)
  assume no: "\<not> ?thesis"
  have "rebounding c c" using assms by (simp add: rebounding_def)
  from rebounding_run [where n = 32, OF this assms(7), of t] assms(8) no
  have "uint (bc_bitrate (healthy_run s t 64 c)) = 2 ^ 32 * uint (bc_bitrate c)" by auto
  moreover have "1 \<le> uint (bc_bitrate c)"
    using assms(6) uint_ge_0 [of "bc_bitrate c"] unfolding uint_0_iff [symmetric] by linarith
  ultimately show False using uint_lt2p [of "bc_bitrate (healthy_run s t 64 c)"] by simp
qed

definition dropped_controller :: bitrate_controller where
  "dropped_controller = (bc_run bitrate_controller_new demo_calls)\<lparr>bc_bitrate := 20000000, bc_st := Recovering\<rparr>"

definition idle_stats :: bc_stats where
  "idle_stats = \<lparr>st_utilisation = Num 0, st_lost = 0, st_late = 0, st_count = 20, st_rate = Num 0, st_rate_count = 0\<rparr>"

theorem rebound_completes_witness:
  "\<exists>n \<le> 64. bc_st (healthy_run idle_stats (\<lambda>i. int i * ms 2500) n dropped_controller) = Steady
     \<and> bc_bitrate (healthy_run idle_stats (\<lambda>i. int i * ms 2500) n dropped_controller) = bc_recovery_target dropped_controller"
proof (rule rebound_completes)
  have target: "bc_recovery_target (bc_run bitrate_controller_new demo_calls) = 50000000"
    "wn_healthy_since (bc_wn (bc_run bitrate_controller_new demo_calls)) = None"
    "mode_locked (bc_run bitrate_controller_new demo_calls) = Aimd"
    by (simp_all add: bc_run_def demo_calls_def bc_step_def bc_configure_def back_to_ceiling_def flush_def
      flush_radio_def flush_estimator_def mode_locked_def)
  show "bc_inv dropped_controller"
    using bc_run_inv [OF new_inv, of demo_calls] target demo_run bc_invD(7) [OF bc_run_inv [OF new_inv, of demo_calls]]
    by (simp add: dropped_controller_def bc_inv_def core_inv_def core_simps bc_enabled_def mode_core)
      (simp add: demo_calls_def bc_run_def bc_step_def bc_configure_def back_to_ceiling_def flush_def
      flush_radio_def flush_estimator_def)
  show "bc_ceiling dropped_controller \<noteq> 0" "bc_enabled dropped_controller" "bc_st dropped_controller = Recovering"
    "wn_healthy_since (bc_wn dropped_controller) = None" "bc_bitrate dropped_controller \<noteq> 0"
    using target demo_run by (simp_all add: dropped_controller_def bc_enabled_def)
  show "is_healthy idle_stats" by code_simp
  show "recovery_confirm \<le> int (Suc i) * ms 2500 - int i * ms 2500" for i
    by (simp add: recovery_confirm_def algebra_simps)
qed

section \<open>The backoff of the bandwidth law\<close>

text \<open>
  A link that is measured to deliver 50 Mbit/s, a bitrate of 20 Mbit/s, and
  one frame lost in the window.
\<close>

definition measured_controller :: bitrate_controller where
  "measured_controller = (let c = bc_run bitrate_controller_new
       [Configure \<lparr>cf_enabled = True, cf_min_bitrate_bps = 10000000, cf_control = Bbr\<rparr> 50000000 True True None]
     in c\<lparr>bc_bitrate := 20000000, bc_est := (bc_est c)\<lparr>es_bbr_st := BbrSteady,
            es_bandwidth := mf_update (Num 50000000) (ms 19000) estimator_window (es_bandwidth (bc_est c)),
            es_bandwidth_samples := 12, es_last_bandwidth_sample := ms 19000\<rparr>\<rparr>)"

definition one_lost :: bc_stats where
  "one_lost = \<lparr>st_utilisation = Num 1, st_lost = 1, st_late = 0, st_count = 20, st_rate = Num 50000000, st_rate_count = 12\<rparr>"

text \<open>
  The backoff is a fixed share of the measured delivery rate and does not
  look at the bitrate in force, so a lost frame can raise it: at 20 Mbit/s, with
  50 Mbit/s measured (what a paced sender measures at that bitrate), the
  reaction to a lost frame is 35 Mbit/s.
\<close>

theorem backoff_can_raise:
  "bbr_acute one_lost measured_controller \<and> bc_bitrate measured_controller = 20000000
    \<and> fst (evaluate_bbr (ms 20000) one_lost measured_controller) = Some 35000000"
  by code_simp

end
