(* ===== verification/Clock_Offset.thy ===== *)
theory Clock_Offset
  imports Ieee
begin

text \<open>
  Clock synchronisation with the headset, \<^verbatim>\<open>helper/src/wivrn/clock_offset.{h,cpp}\<close>:
  the conversions between performance counter ticks and nanoseconds, and the
  estimator of the offset. The performance counter and its frequency come from
  the operating system and are arguments. The 128-bit products are exact; the
  casts back to 64 bits are written out. Sums and differences of time stamps
  are integers (64-bit signed in the code, where nanoseconds of uptime stay far
  inside the range); the regression runs in binary64.
\<close>

section \<open>Ticks and nanoseconds\<close>

text \<open>\<^verbatim>\<open>QueryPerformanceFrequency\<close>, with the fallback for an answer of 0.\<close>

definition qpc_frequency :: "int \<Rightarrow> int" where
  "qpc_frequency f = (if f \<noteq> 0 then f else 10000000)"

definition to_i64 :: "int \<Rightarrow> int" where
  "to_i64 n = sint (word_of_int n :: 64 word)"

definition monotonic_ns :: "int \<Rightarrow> int \<Rightarrow> int" where
  "monotonic_ns f now = to_i64 (cdiv (now * 1000000000) (qpc_frequency f))"

definition ns_to_qpc :: "int \<Rightarrow> int \<Rightarrow> u64" where
  "ns_to_qpc f ns = (if ns < 0 then 0 else word_of_int (cdiv (ns * qpc_frequency f) 1000000000))"

definition qpc_to_ns :: "int \<Rightarrow> u64 \<Rightarrow> int" where
  "qpc_to_ns f qpc = to_i64 (cdiv (uint qpc * 1000000000) (qpc_frequency f))"

lemma to_i64_id: "0 \<le> n \<Longrightarrow> n < 2 ^ 63 \<Longrightarrow> to_i64 n = n"
  by (simp add: to_i64_def sint_uint uint_word_of_int signed_take_bit_int_eq_self)

lemma floor_round_trip:
  fixes q f :: int
  assumes "0 < f" and "0 \<le> q" and "f \<le> m"
  shows "q - 1 \<le> q * m div f * f div m" and "q * m div f * f div m \<le> q"
proof -
  have m: "0 < m" using assms by simp
  have r: "q * m div f * f = q * m - q * m mod f" by (rule minus_mod_eq_div_mult [symmetric])
  have "0 \<le> q * m mod f" "q * m mod f < f" using assms(1) by simp_all
  with r have a: "q * m div f * f \<le> q * m" and b: "q * m < q * m div f * f + f" by linarith+
  have "q * m div f * f div m \<le> q * m div m" using a m by (intro zdiv_mono1) simp_all
  then show "q * m div f * f div m \<le> q" using m by simp
  have "(q - 1) * m \<le> q * m div f * f" using b assms(3) by (simp add: algebra_simps)
  then have "(q - 1) * m div m \<le> q * m div f * f div m" using m by (intro zdiv_mono1) simp_all
  then show "q - 1 \<le> q * m div f * f div m" using m by simp
qed

text \<open>
  A performance counter value turned into nanoseconds and back, for a
  counter no faster than 1 GHz and an uptime that fits 63 bits of nanoseconds:
  the result is the value itself or one tick less, and it is the value itself
  when the frequency divides a thousand million (10 MHz does).
\<close>

theorem qpc_round_trip:
  assumes "0 < f" and "f \<le> 1000000000" and "uint q * 1000000000 div f < 2 ^ 63"
  shows "ns_to_qpc f (qpc_to_ns f q) \<in> {q, q - 1}
    \<and> (f dvd 1000000000 \<longrightarrow> ns_to_qpc f (qpc_to_ns f q) = q)"
proof -
  define n where "n = uint q * 1000000000 div f"
  have n: "0 \<le> n" "n < 2 ^ 63" using assms(1,3) by (simp_all add: n_def pos_imp_zdiv_nonneg_iff)
  have ns: "qpc_to_ns f q = n"
    using assms(1) n by (simp add: qpc_to_ns_def qpc_frequency_def cdiv_pos to_i64_id n_def)
  then have rt: "ns_to_qpc f (qpc_to_ns f q) = word_of_int (n * f div 1000000000)"
    using n assms(1) by (simp add: ns_to_qpc_def qpc_frequency_def cdiv_pos)
  have "n * f div 1000000000 = uint q - 1 \<or> n * f div 1000000000 = uint q"
    using floor_round_trip [of f "uint q" 1000000000] assms(1,2) unfolding n_def by force
  then have one: "ns_to_qpc f (qpc_to_ns f q) \<in> {q, q - 1}"
    unfolding rt by (auto simp flip: wi_hom_sub)
  have "n * f div 1000000000 = uint q" if dvd: "f dvd 1000000000"
  proof -
    have "f dvd uint q * 1000000000" using dvd by (rule dvd_mult)
    then have "n * f = uint q * 1000000000" by (simp add: n_def)
    then show ?thesis by simp
  qed
  with one show ?thesis unfolding rt by simp
qed

theorem qpc_round_trip_witness: "ns_to_qpc 10000000 (qpc_to_ns 10000000 123456789) = 123456789"
  using qpc_round_trip [of 10000000 123456789] by simp

text \<open>
  The tick is really lost at a frequency that does not divide: the 3579545 Hz
  of the ACPI timer.
\<close>

lemma acpi_tick_lost: "ns_to_qpc 3579545 (qpc_to_ns 3579545 2) = 1"
  by code_simp

section \<open>The offset\<close>

record clock_offset =
  co_b :: int
  co_stable :: bool

definition from_headset :: "clock_offset \<Rightarrow> int \<Rightarrow> int" where
  "from_headset o' headset_ns = headset_ns - co_b o'"

definition to_headset :: "clock_offset \<Rightarrow> int \<Rightarrow> int" where
  "to_headset o' server_ns = server_ns + co_b o'"

text \<open>\<^verbatim>\<open>from_headset::timesync_response\<close>, with the time it was received.\<close>

record sync_sample =
  sy_query :: int
  sy_response :: int
  sy_received :: int

definition kNumSamples :: nat where "kNumSamples = 100"

record estimator =
  ce_samples :: "sync_sample list"
  ce_sample_index :: nat
  ce_b :: int
  ce_next_sample :: time_ns
  ce_sample_interval :: time_ns

definition clock_estimator_new :: estimator where
  "clock_estimator_new = \<lparr>ce_samples = [], ce_sample_index = 0, ce_b = 0, ce_next_sample = 0, ce_sample_interval = ms 10\<rparr>"

definition should_sample :: "time_ns \<Rightarrow> estimator \<Rightarrow> bool \<times> estimator" where
  "should_sample now e = (if now < ce_next_sample e then (False, e)
     else (True, e\<lparr>ce_next_sample := now + ce_sample_interval e\<rparr>))"

definition clock_reset :: "estimator \<Rightarrow> estimator" where
  "clock_reset e = e\<lparr>ce_samples := [], ce_sample_index := 0, ce_b := 0, ce_next_sample := 0,
     ce_sample_interval := ms 10\<rparr>"

definition average_latency :: "sync_sample list \<Rightarrow> int" where
  "average_latency ss = cdiv (sum_list (map (\<lambda>s. sy_received s - sy_query s) ss)) (int (length ss))"

text \<open>
  Taking the sample in: \<open>None\<close> when the round trip is an outlier and the
  function returns.
\<close>

definition admit_sample :: "sync_sample \<Rightarrow> estimator \<Rightarrow> estimator option \<times> estimator" where
  "admit_sample s e =
     (if length (ce_samples e) < kNumSamples
      then let e' = e\<lparr>ce_samples := ce_samples e @ [s]\<rparr> in (Some e', e')
      else let e1 = e\<lparr>ce_sample_interval := ms 100\<rparr>
           in if 3 * average_latency (ce_samples e1) < sy_received s - sy_query s then (None, e1)
              else let e2 = e1\<lparr>ce_samples := (ce_samples e1)[ce_sample_index e1 := s],
                               ce_sample_index := (ce_sample_index e1 + 1) mod kNumSamples\<rparr>
                   in (Some e2, e2))"

definition midpoint :: "sync_sample \<Rightarrow> fp" where
  "midpoint s = fp_mul F64 (fp_of_int F64 (sy_query s + sy_received s)) (Num (1 / 2))"

definition sample_means :: "sync_sample list \<Rightarrow> fp \<times> fp" where
  "sample_means ss =
     (let inv_n = fp_div F64 (Num 1) (fp_of_int F64 (int (length ss)));
          (x0, y0) = foldl (\<lambda>(x, y) s. (fp_add F64 x (midpoint s), fp_add F64 y (fp_of_int F64 (sy_response s))))
                       (Num 0, Num 0) ss
      in (fp_mul F64 x0 inv_n, fp_mul F64 y0 inv_n))"

definition fitted_offset :: "sync_sample list \<Rightarrow> fp" where
  "fitted_offset ss =
     (let inv_n = fp_div F64 (Num 1) (fp_of_int F64 (int (length ss)));
          (x0, y0) = sample_means ss;
          (sum_x, sum_y) = foldl (\<lambda>(x, y) s. (fp_add F64 x (fp_sub F64 (midpoint s) x0),
                                    fp_add F64 y (fp_sub F64 (fp_of_int F64 (sy_response s)) y0))) (Num 0, Num 0) ss
      in fp_sub F64 (fp_add F64 y0 (fp_sub F64 (fp_mul F64 sum_y inv_n) (fp_mul F64 sum_x inv_n))) x0)"

text \<open>\<^verbatim>\<open>b |= 1\<close> and \<^verbatim>\<open>b &= ~1\<close> on a signed integer.\<close>

definition set_lsb :: "int \<Rightarrow> int" where "set_lsb b = set_bit 0 b"

definition clear_lsb :: "int \<Rightarrow> int" where "clear_lsb b = unset_bit 0 b"

definition add_sample :: "sync_sample \<Rightarrow> estimator \<Rightarrow> estimator" where
  "add_sample s e0 =
     (case admit_sample s e0 of
        (None, e) \<Rightarrow> e
      | (Some _, e) \<Rightarrow>
          if length (ce_samples e) < kNumSamples
          then let (x0, y0) = sample_means (ce_samples e)
               in e\<lparr>ce_b := clear_lsb (fp_to_i64 (fp_sub F64 y0 x0))\<rparr>
          else let b = fitted_offset (ce_samples e);
                   stable = fp_lt (fp_abs (fp_sub F64 b (fp_of_int F64 (ce_b e)))) (Num 20000000)
               in e\<lparr>ce_b := (if stable then set_lsb (fp_to_i64 b) else clear_lsb (fp_to_i64 b))\<rparr>)"

definition get_offset :: "estimator \<Rightarrow> clock_offset" where
  "get_offset e = \<lparr>co_b = ce_b e, co_stable = odd (ce_b e)\<rparr>"

section \<open>What the estimator promises\<close>

datatype clock_call = ShouldSample time_ns | AddSample sync_sample | ClockReset

fun clock_step :: "estimator \<Rightarrow> clock_call \<Rightarrow> estimator" where
  "clock_step e (ShouldSample now) = snd (should_sample now e)"
| "clock_step e (AddSample s) = add_sample s e"
| "clock_step e ClockReset = clock_reset e"

definition clock_inv :: "estimator \<Rightarrow> bool" where
  "clock_inv e \<longleftrightarrow> length (ce_samples e) \<le> kNumSamples \<and> ce_sample_index e < kNumSamples
     \<and> (odd (ce_b e) \<longrightarrow> length (ce_samples e) = kNumSamples)
     \<and> ce_sample_interval e \<in> {ms 10, ms 100}"

lemma admit_sample_inv:
  assumes "clock_inv e" and "admit_sample s e = (r, e')"
  shows "length (ce_samples e') \<le> kNumSamples" "ce_sample_index e' < kNumSamples" "ce_b e' = ce_b e"
    "ce_sample_interval e' \<in> {ms 10, ms 100}" "length (ce_samples e) \<le> length (ce_samples e')"
    "r = None \<Longrightarrow> ce_samples e' = ce_samples e"
  using assms by (auto simp: admit_sample_def clock_inv_def Let_def kNumSamples_def split: if_splits)

lemma lsb_parity [simp]: "odd (set_lsb b)" "even (clear_lsb b)"
  by (simp_all add: set_lsb_def clear_lsb_def set_bit_0 unset_bit_0)

lemma clock_step_inv: "clock_inv e \<Longrightarrow> clock_inv (clock_step e c)"
proof (cases c)
  case (AddSample s)
  assume inv: "clock_inv e"
  obtain r e' where a: "admit_sample s e = (r, e')" by fastforce
  note i = admit_sample_inv [OF inv a]
  show ?thesis
  proof (cases r)
    case None
    with a i inv AddSample show ?thesis by (auto simp: add_sample_def clock_inv_def)
  next
    case (Some x)
    with a i AddSample show ?thesis
      by (auto simp: add_sample_def clock_inv_def Let_def split: prod.splits)
  qed
qed (simp_all add: clock_inv_def should_sample_def clock_reset_def kNumSamples_def)

interpretation clock: machine_invariant clock_step clock_inv
  by unfold_locales (rule clock_step_inv)

text \<open>
  The estimator calls its offset stable only when the window of a hundred
  samples is full: an offset read after fewer samples, or after a reset, is
  never taken for a good one. The window never grows beyond a hundred.
\<close>

theorem stable_needs_full_window:
  "length (ce_samples (foldl clock_step clock_estimator_new cs)) \<le> 100
    \<and> (co_stable (get_offset (foldl clock_step clock_estimator_new cs))
        \<longrightarrow> length (ce_samples (foldl clock_step clock_estimator_new cs)) = 100)"
proof -
  have "clock_inv clock_estimator_new" by (simp add: clock_inv_def clock_estimator_new_def kNumSamples_def)
  from clock.inv_run [OF this, of cs] show ?thesis
    by (simp add: clock_inv_def get_offset_def kNumSamples_def)
qed

theorem stable_needs_full_window_witness:
  "length (ce_samples (foldl clock_step clock_estimator_new [ShouldSample 5, ClockReset])) \<le> 100"
  using stable_needs_full_window [of "[ShouldSample 5, ClockReset]"] by simp

text \<open>A round trip more than three times the average changes nothing once the window is full.\<close>

lemma outlier_ignored:
  assumes "length (ce_samples e) = kNumSamples"
    and "3 * average_latency (ce_samples e) < sy_received s - sy_query s"
  shows "ce_samples (add_sample s e) = ce_samples e \<and> ce_b (add_sample s e) = ce_b e"
  using assms by (simp add: add_sample_def admit_sample_def Let_def)

lemma headset_round_trip: "from_headset o' (to_headset o' t) = t" "to_headset o' (from_headset o' t) = t"
  by (simp_all add: from_headset_def to_headset_def)

end
