(* ===== verification/Pose_Sanitize.thy ===== *)
theory Pose_Sanitize
  imports Ieee
begin

text \<open>
  The filter between the headset's tracking packets and the shim,
  \<^verbatim>\<open>helper/src/wivrn/pose_sanitize.h\<close>: the rejection of non-finite samples and the
  standby freeze. Components are binary32 values. The pose packet and the
  predicate \<^verbatim>\<open>is_finite\<close> are declared in the Linux repository: of the packet the
  record keeps the members the code reads, with one truth value for each flag
  bit it tests, and the predicate is an argument; what is used of it is that
  it only accepts finite values.
\<close>

section \<open>The square root\<close>

function isqrt :: "int \<Rightarrow> int" where
  "isqrt n = (if n \<le> 0 then 0
     else let r = 2 * isqrt (n div 4) in if (r + 1) * (r + 1) \<le> n then r + 1 else r)"
  by pat_completeness auto
termination
  by (relation "measure nat") auto

declare isqrt.simps [simp del]

lemma isqrt_bounds: "0 \<le> n \<Longrightarrow> 0 \<le> isqrt n \<and> isqrt n * isqrt n \<le> n \<and> n < (isqrt n + 1) * (isqrt n + 1)"
proof (induction n rule: isqrt.induct)
  case (1 n)
  show ?case
  proof (cases "n \<le> 0")
    case True
    with "1.prems" show ?thesis by (simp add: isqrt.simps)
  next
    case False
    define r where "r = isqrt (n div 4)"
    have IH: "0 \<le> r" "r * r \<le> n div 4" "n div 4 < (r + 1) * (r + 1)" using "1.IH" False by (simp_all add: r_def)
    have n: "n = 4 * (n div 4) + n mod 4" "0 \<le> n mod 4" "n mod 4 < 4" by simp_all
    have lo: "2 * r * (2 * r) \<le> n" using IH(2) n by simp
    have "n div 4 + 1 \<le> (r + 1) * (r + 1)" using IH(3) by simp
    then have "n < 4 * ((r + 1) * (r + 1))" using n by linarith
    then have hi: "n < (2 * r + 1 + 1) * (2 * r + 1 + 1)" by (simp add: algebra_simps)
    have "isqrt n = (if (2 * r + 1) * (2 * r + 1) \<le> n then 2 * r + 1 else 2 * r)"
      using False by (subst isqrt.simps) (simp add: Let_def r_def)
    with lo hi IH(1) show ?thesis by auto
  qed
qed

text \<open>
  Correctly rounded: the significand of the root in units of its last place,
  rounded up when the root is beyond the midpoint (it is never on it).
\<close>

fun fp_sqrt :: "format \<Rightarrow> fp \<Rightarrow> fp" where
  "fp_sqrt f (Num a) =
     (if a < 0 then NaN else if a = 0 then Num 0
      else let e = ilog2 a div 2 - (int (prec f) - 1); s = a / two (2 * e); m = isqrt \<lfloor>s\<rfloor>
           in Num (of_int (if (of_int m + 1 / 2) * (of_int m + 1 / 2) < s then m + 1 else m) * two e))"
| "fp_sqrt f (Inf s) = (if s then NaN else Inf False)"
| "fp_sqrt f NaN = NaN"

lemma two_pos: "0 < two e"
  by simp

lemma fp_sqrt_range:
  assumes "1 / 16 \<le> a" and "a \<le> 16"
  obtains y where "fp_sqrt f (Num a) = Num y" and "1 / 4 \<le> y" and "y \<le> 4"
proof -
  define e where "e = ilog2 a div 2 - (int (prec f) - 1)"
  define s where "s = a / two (2 * e)"
  define m where "m = isqrt \<lfloor>s\<rfloor>"
  define y where "y = of_int (if (of_int m + 1 / 2) * (of_int m + 1 / 2) < s then m + 1 else m) * two e"
  have pos: "0 < a" using assms(1) by simp
  have "a < two (4 + 1)" using assms(2) by (simp add: power_int_def)
  then have "ilog2 a \<le> 4" using pos by (intro ilog2_le)
  then have e: "e \<le> - 2" by (cases f) (simp_all add: e_def)
  define k where "k = nat (- 2 - e)"
  have two_e: "two e * 2 ^ k = 1 / 4"
  proof -
    have "two e * two (int k) = two (e + int k)" by (simp only: two_add)
    also have "e + int k = - 2" using e by (simp add: k_def)
    also have "two (- 2) = 1 / 4" by (simp add: power_int_def power2_eq_square)
    finally show ?thesis by simp
  qed
  have sq: "s * (two e * two e) = a" by (simp add: s_def power_int_add flip: two_add mult_2)
  have q: "2 ^ k * two e = 1 / 4" "16 * 2 ^ k * two e = 4" using two_e by (simp_all add: mult.commute)
  have lo: "(2 ^ k * two e) * (2 ^ k * two e) \<le> s * (two e * two e)"
    and hi: "s * (two e * two e) \<le> (16 * 2 ^ k * two e) * (16 * 2 ^ k * two e)"
    unfolding q sq using assms by simp_all
  have s: "of_int (2 ^ k * 2 ^ k) \<le> s" "s \<le> of_int ((16 * 2 ^ k) * (16 * 2 ^ k))"
    using lo hi by (simp_all add: field_simps)
  have s0: "0 \<le> \<lfloor>s\<rfloor>" using s(1) order_trans [of 0 "of_int (2 ^ k * 2 ^ k)" s] by simp
  note b = isqrt_bounds [OF s0, folded m_def]
  have flo: "2 ^ k * 2 ^ k \<le> \<lfloor>s\<rfloor>" using s(1) by (simp only: le_floor_iff)
  have fhi: "\<lfloor>s\<rfloor> \<le> (16 * 2 ^ k) * (16 * 2 ^ k)" using s(2) by (simp add: floor_le_iff)
  have mlo: "2 ^ k \<le> m"
  proof (rule ccontr)
    assume "\<not> 2 ^ k \<le> m"
    then have "(m + 1) * (m + 1) \<le> 2 ^ k * 2 ^ k" using b by (intro mult_mono) auto
    with flo b show False by simp
  qed
  have mhi: "m \<le> 16 * 2 ^ k"
  proof (rule ccontr)
    assume "\<not> m \<le> 16 * 2 ^ k"
    then have "(16 * 2 ^ k + 1) * (16 * 2 ^ k + 1) \<le> m * m" using b by (intro mult_mono) auto
    moreover have "(0 :: int) \<le> 2 ^ k" by simp
    ultimately show False using fhi b by (simp add: algebra_simps)
  qed
  define n where "n = (if (of_int m + 1 / 2) * (of_int m + 1 / 2) < s then m + 1 else m)"
  have nhi: "n \<le> 16 * 2 ^ k"
  proof (cases "m = 16 * 2 ^ k")
    case True
    then have "s \<le> of_int m * of_int m" using s(2) by (simp only: of_int_mult)
    also have "\<dots> \<le> (of_int m + 1 / 2) * (of_int m + 1 / 2)" using b by (intro mult_mono) simp_all
    finally show ?thesis using True by (simp add: n_def)
  qed (use mhi in \<open>simp add: n_def\<close>)
  have nlo: "2 ^ k \<le> n" using mlo by (simp add: n_def)
  have "of_int (2 ^ k) * two e \<le> of_int n * two e"
    by (intro mult_right_mono) (use nlo in \<open>simp_all only: of_int_le_iff less_imp_le [OF two_pos]\<close>)
  moreover have "of_int n * two e \<le> of_int (16 * 2 ^ k) * two e"
    by (intro mult_right_mono) (use nhi in \<open>simp_all only: of_int_le_iff less_imp_le [OF two_pos]\<close>)
  moreover have "of_int (2 ^ k) * two e = 1 / 4" "of_int (16 * 2 ^ k) * two e = 4"
    using q by (simp_all add: mult.commute)
  ultimately have "1 / 4 \<le> of_int n * two e" "of_int n * two e \<le> 4" by linarith+
  moreover have "fp_sqrt f (Num a) = Num (of_int n * two e)"
    using pos by (simp add: Let_def n_def m_def s_def e_def)
  ultimately show ?thesis using that by blast
qed

section \<open>Checks on a sample\<close>

record vec3 =
  v_x :: fp
  v_y :: fp
  v_z :: fp

record quat =
  q_x :: fp
  q_y :: fp
  q_z :: fp
  q_w :: fp

record tracking_pose =
  tp_orientation :: quat
  tp_position :: vec3
  tp_linear_velocity :: vec3
  tp_angular_velocity :: vec3
  tp_orientation_valid :: bool
  tp_position_valid :: bool
  tp_linear_velocity_valid :: bool
  tp_angular_velocity_valid :: bool
  tp_orientation_tracked :: bool
  tp_position_tracked :: bool

definition is_finite_vec :: "(fp \<Rightarrow> bool) \<Rightarrow> vec3 \<Rightarrow> bool" where
  "is_finite_vec is_finite v \<longleftrightarrow> is_finite (v_x v) \<and> is_finite (v_y v) \<and> is_finite (v_z v)"

definition norm2 :: "quat \<Rightarrow> fp" where
  "norm2 q = fp_add F32 (fp_add F32 (fp_add F32 (fp_mul F32 (q_x q) (q_x q)) (fp_mul F32 (q_y q) (q_y q)))
     (fp_mul F32 (q_z q) (q_z q))) (fp_mul F32 (q_w q) (q_w q))"

definition is_valid_orientation :: "(fp \<Rightarrow> bool) \<Rightarrow> quat \<Rightarrow> bool" where
  "is_valid_orientation is_finite q \<longleftrightarrow>
     (is_finite (q_x q) \<and> is_finite (q_y q) \<and> is_finite (q_z q) \<and> is_finite (q_w q))
     \<and> is_finite (norm2 q) \<and> fp_lt (round_fp F32 (1 / 10)) (norm2 q) \<and> fp_lt (norm2 q) (Num 10)"

definition normalize_orientation :: "quat \<Rightarrow> quat" where
  "normalize_orientation q =
     (let inv = fp_div F32 (Num 1) (fp_sqrt F32 (norm2 q))
      in q\<lparr>q_x := fp_mul F32 (q_x q) inv, q_y := fp_mul F32 (q_y q) inv, q_z := fp_mul F32 (q_z q) inv,
           q_w := fp_mul F32 (q_w q) inv\<rparr>)"

definition is_sane :: "(fp \<Rightarrow> bool) \<Rightarrow> tracking_pose \<Rightarrow> bool" where
  "is_sane is_finite p \<longleftrightarrow>
     \<not> (tp_orientation_valid p \<and> \<not> is_valid_orientation is_finite (tp_orientation p))
     \<and> \<not> (tp_position_valid p \<and> \<not> is_finite_vec is_finite (tp_position p))
     \<and> \<not> (tp_linear_velocity_valid p \<and> \<not> is_finite_vec is_finite (tp_linear_velocity p))
     \<and> \<not> (tp_angular_velocity_valid p \<and> \<not> is_finite_vec is_finite (tp_angular_velocity p))"

section \<open>The sanitizer\<close>

record tracked_state =
  ts_ever_tracked :: bool
  ts_currently_tracked :: bool
  ts_production_timestamp :: int

record pose_sanitizer =
  sz_position_state :: tracked_state
  sz_orientation_state :: tracked_state
  sz_last_orientation :: quat
  sz_last_position :: vec3
  sz_have_orientation :: bool
  sz_have_position :: bool
  sz_rejected :: u64
  sz_frozen :: u64

record pose_result =
  pr_orientation :: quat
  pr_position :: vec3
  pr_linear_velocity :: vec3
  pr_angular_velocity :: vec3
  pr_usable :: bool
  pr_clean :: bool

definition quat_identity :: quat where
  "quat_identity = \<lparr>q_x = Num 0, q_y = Num 0, q_z = Num 0, q_w = Num 1\<rparr>"

definition vec3_zero :: vec3 where
  "vec3_zero = \<lparr>v_x = Num 0, v_y = Num 0, v_z = Num 0\<rparr>"

definition tracked_state_new :: tracked_state where
  "tracked_state_new = \<lparr>ts_ever_tracked = False, ts_currently_tracked = False, ts_production_timestamp = - (2 ^ 63)\<rparr>"

definition pose_sanitizer_new :: pose_sanitizer where
  "pose_sanitizer_new = \<lparr>sz_position_state = tracked_state_new, sz_orientation_state = tracked_state_new,
     sz_last_orientation = quat_identity, sz_last_position = vec3_zero, sz_have_orientation = False,
     sz_have_position = False, sz_rejected = 0, sz_frozen = 0\<rparr>"

definition pose_result_new :: pose_result where
  "pose_result_new = \<lparr>pr_orientation = quat_identity, pr_position = vec3_zero, pr_linear_velocity = vec3_zero,
     pr_angular_velocity = vec3_zero, pr_usable = False, pr_clean = False\<rparr>"

definition sanitizer_reset :: "pose_sanitizer \<Rightarrow> pose_sanitizer" where
  "sanitizer_reset s = pose_sanitizer_new"

definition update_tracked_state :: "tracked_state \<Rightarrow> int \<Rightarrow> bool \<Rightarrow> bool \<Rightarrow> bool \<Rightarrow> bool \<times> tracked_state" where
  "update_tracked_state st production_timestamp valid tracked freeze =
     (if \<not> valid then (True, st)
      else let up_to_date = (ts_production_timestamp st \<le> production_timestamp) in
        if tracked
        then let st1 = st\<lparr>ts_ever_tracked := True\<rparr>;
                 st2 = (if up_to_date then st1\<lparr>ts_currently_tracked := True,
                          ts_production_timestamp := production_timestamp\<rparr> else st1)
             in (True, st2)
        else let st1 = (if up_to_date then st\<lparr>ts_currently_tracked := False,
                          ts_production_timestamp := production_timestamp\<rparr> else st)
             in (\<not> freeze \<or> \<not> ts_ever_tracked st1, st1))"

definition sanitize :: "(fp \<Rightarrow> bool) \<Rightarrow> tracking_pose \<Rightarrow> int \<Rightarrow> bool \<Rightarrow> pose_sanitizer \<Rightarrow> pose_result \<times> pose_sanitizer" where
  "sanitize is_finite p production_timestamp freeze s =
     (if \<not> is_sane is_finite p
      then let s1 = s\<lparr>sz_rejected := sz_rejected s + 1\<rparr>
           in (pose_result_new\<lparr>pr_orientation := sz_last_orientation s1, pr_position := sz_last_position s1,
                 pr_usable := sz_have_orientation s1 \<and> sz_have_position s1, pr_clean := False\<rparr>, s1)
      else
        let (take_orientation, ost) = update_tracked_state (sz_orientation_state s) production_timestamp
              (tp_orientation_valid p) (tp_orientation_tracked p) freeze;
            (take_position, pst) = update_tracked_state (sz_position_state s) production_timestamp
              (tp_position_valid p) (tp_position_tracked p) freeze;
            s1 = s\<lparr>sz_orientation_state := ost, sz_position_state := pst\<rparr>;
            s2 = (if tp_orientation_valid p \<and> take_orientation
                  then s1\<lparr>sz_last_orientation := normalize_orientation (tp_orientation p), sz_have_orientation := True\<rparr>
                  else s1);
            s3 = (if tp_position_valid p \<and> take_position
                  then s2\<lparr>sz_last_position := tp_position p, sz_have_position := True\<rparr> else s2);
            frozen_any = ((tp_orientation_valid p \<and> \<not> take_orientation) \<or> (tp_position_valid p \<and> \<not> take_position));
            moving = (\<not> frozen_any \<and> take_orientation \<and> take_position);
            s4 = (if frozen_any then s3\<lparr>sz_frozen := sz_frozen s3 + 1\<rparr> else s3)
        in (pose_result_new\<lparr>pr_orientation := sz_last_orientation s3, pr_position := sz_last_position s3,
              pr_usable := sz_have_orientation s3 \<and> sz_have_position s3,
              pr_linear_velocity := (if moving \<and> tp_linear_velocity_valid p then tp_linear_velocity p else vec3_zero),
              pr_angular_velocity := (if moving \<and> tp_angular_velocity_valid p then tp_angular_velocity p else vec3_zero),
              pr_clean := \<not> frozen_any \<and> tp_orientation_valid p \<and> tp_position_valid p\<rparr>, s4))"

section \<open>Nothing but finite values comes out\<close>

definition finite_vec :: "vec3 \<Rightarrow> bool" where
  "finite_vec v \<longleftrightarrow> is_num (v_x v) \<and> is_num (v_y v) \<and> is_num (v_z v)"

definition finite_quat :: "quat \<Rightarrow> bool" where
  "finite_quat q \<longleftrightarrow> is_num (q_x q) \<and> is_num (q_y q) \<and> is_num (q_z q) \<and> is_num (q_w q)"

definition finite_result :: "pose_result \<Rightarrow> bool" where
  "finite_result r \<longleftrightarrow> finite_quat (pr_orientation r) \<and> finite_vec (pr_position r)
     \<and> finite_vec (pr_linear_velocity r) \<and> finite_vec (pr_angular_velocity r)"

text \<open>The values a square, and a sum of squares, can be; and the large ones.\<close>

fun fp_at_least :: "nat \<Rightarrow> fp \<Rightarrow> bool" where
  "fp_at_least n (Num a) = (of_nat n \<le> a)"
| "fp_at_least n (Inf s) = (\<not> s)"
| "fp_at_least n NaN = False"

lemma round_at_least: "n \<le> 16 \<Longrightarrow> of_nat n \<le> x \<Longrightarrow> fp_at_least n (round_fp F32 x)"
proof -
  assume "n \<le> 16" and x: "of_nat n \<le> x"
  then have "rn F32 (of_int (int n)) = of_int (int n)" by (intro rn_int) simp
  with rn_mono [of "of_int (int n)" x F32] x have r: "of_nat n \<le> rn F32 x" by simp
  moreover have "(0 :: rat) \<le> of_nat n" by simp
  ultimately have "\<not> rn F32 x < 0" by linarith
  with r show ?thesis by (simp add: round_fp_def Let_def)
qed

lemma square_at_least:
  assumes "is_num x"
  shows "fp_at_least 0 (fp_mul F32 x x)" and "x = Num a \<Longrightarrow> \<bar>a\<bar> > 4 \<Longrightarrow> fp_at_least 16 (fp_mul F32 x x)"
proof -
  obtain b where b: "x = Num b" using assms by (cases x) auto
  show "fp_at_least 0 (fp_mul F32 x x)" using b by (simp add: round_at_least)
  show "fp_at_least 16 (fp_mul F32 x x)" if "x = Num a" "\<bar>a\<bar> > 4"
  proof -
    have "4 * 4 \<le> \<bar>a\<bar> * \<bar>a\<bar>" using that(2) by (intro mult_mono) simp_all
    then have "16 \<le> a * a" by (simp add: abs_mult_self_eq)
    then show ?thesis using that(1) by (simp add: round_at_least)
  qed
qed

lemma add_at_least:
  assumes "n \<le> 16" and "fp_at_least n x" and "fp_at_least 0 y"
  shows "fp_at_least n (fp_add F32 x y)" and "fp_at_least n (fp_add F32 y x)"
proof -
  have "of_nat n \<le> a + b" "of_nat n \<le> b + a" if "of_nat n \<le> a" "0 \<le> (b :: rat)" for a b using that by simp_all
  then show "fp_at_least n (fp_add F32 x y)" "fp_at_least n (fp_add F32 y x)"
    using assms by (cases x; cases y; auto simp: round_at_least)+
qed

lemma fp_at_least_0: "fp_at_least n x \<Longrightarrow> fp_at_least 0 x"
  by (cases x) (auto intro: order_trans [of 0 "of_nat n"])

text \<open>A valid orientation has components between \<open>-4\<close> and \<open>4\<close>.\<close>

definition small :: "fp \<Rightarrow> bool" where
  "small x \<longleftrightarrow> (\<exists>a. x = Num a \<and> \<bar>a\<bar> \<le> 4)"

lemma valid_components_small:
  assumes "is_num (q_x q)" "is_num (q_y q)" "is_num (q_z q)" "is_num (q_w q)" and "fp_lt (norm2 q) (Num 10)"
  shows "small (q_x q)" "small (q_y q)" "small (q_z q)" "small (q_w q)"
proof -
  have no: "\<not> fp_at_least 16 (norm2 q)" using assms(5) by (cases "norm2 q") auto
  note nonneg = assms(1-4) [THEN square_at_least(1)]
  have big: "fp_at_least 16 (fp_mul F32 x x)" if "is_num x" "\<not> small x" for x
    using that square_at_least(2) [OF that(1)] by (cases x) (auto simp: small_def not_le)
  have 16: "(16 :: nat) \<le> 16" and 0: "(0 :: nat) \<le> 16" by simp_all
  note add0 = add_at_least(1) [OF 0] and addl = add_at_least(1) [OF 16] and addr = add_at_least(2) [OF 16]
  show "small (q_x q)"
    using no big [OF assms(1)] addl [OF addl [OF addl [OF _ nonneg(2)] nonneg(3)] nonneg(4)]
    by (auto simp: norm2_def)
  show "small (q_y q)"
    using no big [OF assms(2)] addl [OF addl [OF addr [OF _ nonneg(1)] nonneg(3)] nonneg(4)]
    by (auto simp: norm2_def)
  show "small (q_z q)"
    using no big [OF assms(3)] addl [OF addr [OF _ add0 [OF nonneg(1,2)]] nonneg(4)]
    by (auto simp: norm2_def)
  show "small (q_w q)"
    using no big [OF assms(4)] addr [OF _ add0 [OF add0 [OF nonneg(1,2)] nonneg(3)]]
    by (auto simp: norm2_def)
qed

lemma mul_small_finite: "small x \<Longrightarrow> small y \<Longrightarrow> is_num (fp_mul F32 x y)"
proof -
  assume "small x" and "small y"
  then obtain a b where ab: "x = Num a" "y = Num b" "\<bar>a\<bar> \<le> 4" "\<bar>b\<bar> \<le> 4" by (auto simp: small_def)
  have "\<bar>a * b\<bar> \<le> 4 * 4" unfolding abs_mult using ab by (intro mult_mono) simp_all
  then have "of_int (- 16) \<le> a * b" "a * b \<le> of_int 16" by (simp_all add: abs_le_iff)
  moreover have "\<bar>- 16 :: int\<bar> < 2 ^ prec F32" "\<bar>16 :: int\<bar> < 2 ^ prec F32" by simp_all
  ultimately obtain z where "round_fp F32 (a * b) = Num z" by (rule round_fp_bounded)
  then show ?thesis using ab by simp
qed

lemma normalize_finite:
  assumes fin: "\<And>x. is_finite x \<Longrightarrow> is_num x" and "is_valid_orientation is_finite q"
  shows "finite_quat (normalize_orientation q)"
proof -
  have num: "is_num (q_x q)" "is_num (q_y q)" "is_num (q_z q)" "is_num (q_w q)" "is_num (norm2 q)"
    and lt: "fp_lt (round_fp F32 (1 / 10)) (norm2 q)" "fp_lt (norm2 q) (Num 10)"
    using assms by (auto simp: is_valid_orientation_def)
  obtain a where a: "norm2 q = Num a" using num(5) by (cases "norm2 q") auto
  have "fp_lt (Num (1 / 16)) (round_fp F32 (1 / 10))" by code_simp
  then have "1 / 16 \<le> a" "a \<le> 16" using lt a by (cases "round_fp F32 (1 / 10)"; simp)+
  then obtain y where y: "fp_sqrt F32 (norm2 q) = Num y" "1 / 4 \<le> y" "y \<le> 4"
    unfolding a by (rule fp_sqrt_range)
  have "of_int 0 \<le> 1 / y" "1 / y \<le> of_int 4" using y(2) by (simp_all add: field_simps)
  moreover have "\<bar>0 :: int\<bar> < 2 ^ prec F32" "\<bar>4 :: int\<bar> < 2 ^ prec F32" by simp_all
  ultimately obtain z where "round_fp F32 (1 / y) = Num z" "of_int 0 \<le> z" "z \<le> of_int 4"
    by (rule round_fp_bounded)
  then have inv: "small (fp_div F32 (Num 1) (fp_sqrt F32 (norm2 q)))" using y by (simp add: small_def)
  show ?thesis
    using valid_components_small [OF num(1-4) lt(2)] inv
    by (simp add: finite_quat_def normalize_orientation_def Let_def mul_small_finite)
qed

definition sz_inv :: "pose_sanitizer \<Rightarrow> bool" where
  "sz_inv s \<longleftrightarrow> finite_quat (sz_last_orientation s) \<and> finite_vec (sz_last_position s)"

lemma finite_defaults [simp]: "finite_quat quat_identity" "finite_vec vec3_zero"
  by (simp_all add: finite_quat_def finite_vec_def quat_identity_def vec3_zero_def)

lemma sanitize_finite:
  assumes fin: "\<And>x. is_finite x \<Longrightarrow> is_num x" and "sz_inv s" and "sanitize is_finite p t freeze s = (r, s')"
  shows "finite_result r \<and> sz_inv s'"
proof (cases "is_sane is_finite p")
  case False
  with assms show ?thesis by (auto simp: sanitize_def sz_inv_def finite_result_def pose_result_new_def Let_def)
next
  case True
  have vec: "is_finite_vec is_finite v \<Longrightarrow> finite_vec v" for v using fin by (simp add: is_finite_vec_def finite_vec_def)
  have "finite_quat (normalize_orientation (tp_orientation p))" if "tp_orientation_valid p"
    using that True normalize_finite [OF fin] by (simp add: is_sane_def)
  moreover have "tp_position_valid p \<Longrightarrow> finite_vec (tp_position p)"
    "tp_linear_velocity_valid p \<Longrightarrow> finite_vec (tp_linear_velocity p)"
    "tp_angular_velocity_valid p \<Longrightarrow> finite_vec (tp_angular_velocity p)"
    using True vec by (auto simp: is_sane_def)
  ultimately show ?thesis
    using assms(2,3) True
    by (auto simp: sanitize_def sz_inv_def finite_result_def pose_result_new_def Let_def split: prod.splits)
qed

section \<open>Sequences of samples\<close>

text \<open>One call: the sample, its production time, and the freeze setting in force.\<close>

type_synonym pose_call = "tracking_pose \<times> int \<times> bool"

fun sanitize_all :: "(fp \<Rightarrow> bool) \<Rightarrow> pose_sanitizer \<Rightarrow> pose_call list \<Rightarrow> pose_result list \<times> pose_sanitizer" where
  "sanitize_all is_finite s [] = ([], s)"
| "sanitize_all is_finite s ((p, t, freeze) # cs) =
     (let (r, s1) = sanitize is_finite p t freeze s; (rs, s2) = sanitize_all is_finite s1 cs in (r # rs, s2))"

lemma sanitize_all_finite:
  assumes fin: "\<And>x. is_finite x \<Longrightarrow> is_num x"
  shows "sz_inv s \<Longrightarrow> list_all finite_result (fst (sanitize_all is_finite s cs)) \<and> sz_inv (snd (sanitize_all is_finite s cs))"
proof (induction cs arbitrary: s)
  case (Cons c cs)
  obtain p t freeze where c: "c = (p, t, freeze)" by (cases c)
  obtain r s1 where one: "sanitize is_finite p t freeze s = (r, s1)" by fastforce
  from sanitize_finite [OF fin Cons.prems one] have "finite_result r" "sz_inv s1" by simp_all
  with Cons.IH [of s1] one c show ?case by (auto simp: Let_def split: prod.splits)
qed simp

text \<open>
  No NaN and no infinity gets past the filter: whatever bit patterns the
  headset sends, in whatever order, every orientation, position and velocity
  of every result is finite. The normalisation of an accepted orientation
  included, which divides by a computed square root.
\<close>

theorem poses_finite:
  assumes "\<And>x. is_finite x \<Longrightarrow> is_num x"
  shows "list_all finite_result (fst (sanitize_all is_finite pose_sanitizer_new cs))"
  using sanitize_all_finite [OF assms, where s = pose_sanitizer_new and cs = cs]
  by (simp add: sz_inv_def pose_sanitizer_new_def)

section \<open>The freeze\<close>

lemma untracked_holds:
  assumes "ts_ever_tracked (sz_position_state s)" and "is_sane is_finite p" and "tp_position_valid p"
    and "\<not> tp_position_tracked p" and "sanitize is_finite p t True s = (r, s')"
  shows "pr_position r = sz_last_position s" "pr_linear_velocity r = vec3_zero" "pr_angular_velocity r = vec3_zero"
    "\<not> pr_clean r" "sz_last_position s' = sz_last_position s" "ts_ever_tracked (sz_position_state s')"
    "sz_frozen s' = sz_frozen s + 1" "sz_have_position s' = sz_have_position s"
proof -
  obtain go ost where o: "update_tracked_state (sz_orientation_state s) t (tp_orientation_valid p)
      (tp_orientation_tracked p) True = (go, ost)" by fastforce
  obtain pst where pst: "update_tracked_state (sz_position_state s) t (tp_position_valid p)
      (tp_position_tracked p) True = (False, pst)" "ts_ever_tracked pst"
    using assms(1,3,4) by (simp add: update_tracked_state_def Let_def)
  note r = assms(5) [unfolded sanitize_def o pst(1) Let_def prod.case]
  show "pr_position r = sz_last_position s" "pr_linear_velocity r = vec3_zero" "pr_angular_velocity r = vec3_zero"
    "\<not> pr_clean r" "sz_last_position s' = sz_last_position s" "ts_ever_tracked (sz_position_state s')"
    "sz_frozen s' = sz_frozen s + 1" "sz_have_position s' = sz_have_position s"
    using r assms(2,3) pst(2) by (auto split: if_splits)
qed

definition standby :: "(fp \<Rightarrow> bool) \<Rightarrow> pose_call \<Rightarrow> bool" where
  "standby is_finite c \<longleftrightarrow> (case c of (p, t, freeze) \<Rightarrow>
     freeze \<and> is_sane is_finite p \<and> tp_position_valid p \<and> \<not> tp_position_tracked p)"

definition held :: "vec3 \<Rightarrow> pose_result \<Rightarrow> bool" where
  "held v r \<longleftrightarrow> pr_position r = v \<and> pr_linear_velocity r = vec3_zero \<and> pr_angular_velocity r = vec3_zero \<and> \<not> pr_clean r"

lemma standby_held:
  assumes "ts_ever_tracked (sz_position_state s)" and "list_all (standby is_finite) cs"
  shows "list_all (held (sz_last_position s)) (fst (sanitize_all is_finite s cs))
    \<and> sz_frozen (snd (sanitize_all is_finite s cs)) = sz_frozen s + of_nat (length cs)"
  using assms
proof (induction cs arbitrary: s)
  case (Cons c cs)
  obtain p t where c: "c = (p, t, True)" "is_sane is_finite p" "tp_position_valid p" "\<not> tp_position_tracked p"
    using Cons.prems(2) by (cases c) (auto simp: standby_def)
  obtain r s1 where one: "sanitize is_finite p t True s = (r, s1)" by fastforce
  note h = untracked_holds [OF Cons.prems(1) c(2-4) one]
  from Cons.IH [OF h(6)] Cons.prems(2) h c(1) one show ?case
    by (auto simp: Let_def held_def add.assoc split: prod.splits)
qed simp


section \<open>Witnesses\<close>

definition tracked_pose :: tracking_pose where
  "tracked_pose = \<lparr>tp_orientation = quat_identity, tp_position = \<lparr>v_x = Num 1, v_y = Num 2, v_z = Num 3\<rparr>,
     tp_linear_velocity = \<lparr>v_x = Num 1, v_y = NaN, v_z = Num 0\<rparr>, tp_angular_velocity = vec3_zero,
     tp_orientation_valid = True, tp_position_valid = True, tp_linear_velocity_valid = False,
     tp_angular_velocity_valid = True, tp_orientation_tracked = True, tp_position_tracked = True\<rparr>"

definition drifting_pose :: tracking_pose where
  "drifting_pose = tracked_pose\<lparr>tp_position := \<lparr>v_x = Num 9, v_y = Num 9, v_z = Num 9\<rparr>, tp_position_tracked := False\<rparr>"

definition broken_pose :: tracking_pose where
  "broken_pose = tracked_pose\<lparr>tp_position := \<lparr>v_x = NaN, v_y = Inf True, v_z = Num 0\<rparr>\<rparr>"

theorem poses_finite_witness:
  "list_all finite_result (fst (sanitize_all is_num pose_sanitizer_new
     [(tracked_pose, 1, True), (broken_pose, 2, True), (drifting_pose, 3, True)]))"
  by (rule poses_finite)

lemma demo_poses:
  "is_sane is_num tracked_pose \<and> tp_position_valid tracked_pose \<and> tp_position_tracked tracked_pose"
  "standby is_num (drifting_pose, 3, True)"
  by code_simp+


end
