(* ===== verification/Float_Bits.thy ===== *)
theory Float_Bits
  imports Ieee
begin

text \<open>
  The bit patterns of \<^verbatim>\<open>float\<close> and \<^verbatim>\<open>double\<close>: the structs of the pipe protocol
  carry floating point members as bytes, the session computes with them as
  numbers. Both zeros are the pattern of positive zero, and every NaN is the
  quiet one.
\<close>

definition mant :: "format \<Rightarrow> nat" where
  "mant f = prec f - 1"

fun ebits :: "format \<Rightarrow> nat" where
  "ebits F32 = 8"
| "ebits F64 = 11"

text \<open>Exponent of the value's leading bit, or of the least normal number for a subnormal one.\<close>

definition bexp :: "format \<Rightarrow> rat \<Rightarrow> int" where
  "bexp f a = max (ilog2 a) (emin f + int (mant f))"

definition mag_bits :: "format \<Rightarrow> rat \<Rightarrow> int" where
  "mag_bits f a =
     (if a = 0 then 0
      else (bexp f a - (emin f + int (mant f))) * 2 ^ mant f + \<lfloor>a / two (bexp f a - int (mant f))\<rfloor>)"

definition sign_bit :: "format \<Rightarrow> int" where
  "sign_bit f = 2 ^ (mant f + ebits f)"

fun fp_bits :: "format \<Rightarrow> fp \<Rightarrow> int" where
  "fp_bits f (Num a) = (if a < 0 then sign_bit f else 0) + mag_bits f \<bar>a\<bar>"
| "fp_bits f (Inf s) = (if s then sign_bit f else 0) + (2 ^ ebits f - 1) * 2 ^ mant f"
| "fp_bits f NaN = (2 ^ ebits f - 1) * 2 ^ mant f + 2 ^ (mant f - 1)"

definition mag_val :: "format \<Rightarrow> int \<Rightarrow> rat" where
  "mag_val f n =
     (let e = n div 2 ^ mant f; m = n mod 2 ^ mant f
      in if e = 0 then of_int m * two (emin f) else of_int (2 ^ mant f + m) * two (emin f + e - 1))"

definition bits_fp :: "format \<Rightarrow> int \<Rightarrow> fp" where
  "bits_fp f n =
     (let s = (sign_bit f \<le> n); a = n mod sign_bit f
      in if a div 2 ^ mant f = 2 ^ ebits f - 1 then (if a mod 2 ^ mant f = 0 then Inf s else NaN)
         else Num (if s then - mag_val f a else mag_val f a))"

definition f32_bits :: "fp \<Rightarrow> u32" where "f32_bits x = word_of_int (fp_bits F32 x)"
definition f64_bits :: "fp \<Rightarrow> u64" where "f64_bits x = word_of_int (fp_bits F64 x)"
definition f32_of :: "u32 \<Rightarrow> fp" where "f32_of w = bits_fp F32 (uint w)"

section \<open>Decoding what was encoded\<close>

text \<open>The finite values of a format: an integer significand of the right size, scaled.\<close>

definition in_format :: "format \<Rightarrow> rat \<Rightarrow> bool" where
  "in_format f a \<longleftrightarrow> (\<exists>m e. \<bar>a\<bar> = of_int m * two e \<and> 0 \<le> m \<and> m < 2 ^ prec f \<and> emin f \<le> e) \<and> \<bar>a\<bar> \<le> fmax f"

lemma prec_mant: "prec f = Suc (mant f)"
  by (cases f) (simp_all add: mant_def)

lemma two_nat: "two (int n) = 2 ^ n"
  by simp

lemma int_div_less: "0 < d \<Longrightarrow> n div d < k \<longleftrightarrow> n < k * (d :: int)"
proof
  assume d: "0 < d"
  have n: "n = n div d * d + n mod d" "0 \<le> n mod d" "n mod d < d" using d by simp_all
  show "n < k * d" if "n div d < k"
  proof -
    have "(n div d + 1) * d \<le> k * d" using that d by (intro mult_right_mono) simp_all
    moreover have "n < n div d * d + d" using n by linarith
    ultimately show ?thesis by (simp add: distrib_right)
  qed
  show "n div d < k" if "n < k * d"
  proof (rule ccontr)
    assume "\<not> n div d < k"
    then have "k * d \<le> n div d * d" using d by (intro mult_right_mono) simp_all
    with n that show False by linarith
  qed
qed

text \<open>The significand is an integer, and where it lies.\<close>

lemma significand:
  assumes a: "0 < a" and fmt: "in_format f a"
  obtains q where "a = of_int q * two (bexp f a - int (mant f))" and "0 < q" and "q < 2 ^ Suc (mant f)"
    and "emin f + int (mant f) < bexp f a \<Longrightarrow> 2 ^ mant f \<le> q"
proof -
  obtain m e where m: "a = of_int m * two e" "0 \<le> m" "m < 2 ^ prec f" "emin f \<le> e"
    using fmt a unfolding in_format_def by auto
  define u where "u = bexp f a - int (mant f)"
  have "u \<le> e"
  proof (rule ccontr)
    assume n: "\<not> u \<le> e"
    then have "bexp f a \<noteq> emin f + int (mant f)" using m(4) by (simp add: u_def)
    then have b: "bexp f a = ilog2 a" by (simp add: bexp_def max_def split: if_splits)
    have "(of_int m :: rat) < 2 ^ Suc (mant f)" using m(3) unfolding prec_mant by (metis of_int_less_iff of_int_numeral of_int_power)
    then have "a < 2 ^ Suc (mant f) * two e" unfolding m(1) by (intro mult_strict_right_mono) simp_all
    also have "\<dots> = two (int (Suc (mant f)) + e)" unfolding two_nat [symmetric] by (simp only: two_add)
    also have "\<dots> \<le> two (ilog2 a)" using n b by (intro two_mono) (simp add: u_def)
    finally show False using ilog2_bounds [OF a] by simp
  qed
  define q where "q = m * 2 ^ nat (e - u)"
  have "two (e - u) * two u = two e" by (simp only: two_add [symmetric]) simp
  moreover have "two (e - u) = 2 ^ nat (e - u)" using \<open>u \<le> e\<close> by (simp add: power_int_def)
  ultimately have q: "a = of_int q * two u" using m(1) by (simp add: q_def mult.assoc)
  have "0 < two u" by simp
  then have pos: "0 < q" using a q by (metis of_int_0_less_iff zero_less_mult_pos2)
  have "ilog2 a \<le> bexp f a" by (simp add: bexp_def)
  then have "a < two (bexp f a + 1)" using ilog2_bounds [OF a] two_mono [of "ilog2 a + 1" "bexp f a + 1"] by simp
  also have "\<dots> = two (int (Suc (mant f)) + u)" by (rule arg_cong [of _ _ two]) (simp add: u_def)
  also have "\<dots> = 2 ^ Suc (mant f) * two u" by (simp only: two_add two_nat)
  finally have "of_int q < (2 ^ Suc (mant f) :: rat)" unfolding q by (simp add: mult_less_cancel_right)
  then have hi: "q < 2 ^ Suc (mant f)" by (metis of_int_less_iff of_int_numeral of_int_power)
  have lo: "2 ^ mant f \<le> q" if "emin f + int (mant f) < bexp f a"
  proof -
    have "bexp f a = ilog2 a" using that by (simp add: bexp_def max_def split: if_splits)
    then have "two (int (mant f) + u) \<le> a" using ilog2_bounds [OF a] by (simp add: u_def)
    then have "2 ^ mant f * two u \<le> of_int q * two u" unfolding two_add two_nat q [symmetric] .
    then have "(2 ^ mant f :: rat) \<le> of_int q" by (simp add: mult_le_cancel_right)
    then show ?thesis by (metis of_int_le_iff of_int_numeral of_int_power)
  qed
  show ?thesis using q pos hi lo unfolding u_def by (rule that)
qed

lemma mag_roundtrip:
  assumes a: "0 < a" and fmt: "in_format f a"
  shows "mag_val f (mag_bits f a) = a" "0 \<le> mag_bits f a"
    "mag_bits f a div 2 ^ mant f \<le> bexp f a - (emin f + int (mant f)) + 1"
proof -
  obtain q where q: "a = of_int q * two (bexp f a - int (mant f))" "0 < q" "q < 2 ^ Suc (mant f)"
    "emin f + int (mant f) < bexp f a \<Longrightarrow> 2 ^ mant f \<le> q" using significand [OF assms] by blast
  define d where "d = bexp f a - (emin f + int (mant f))"
  have d: "0 \<le> d" by (simp add: d_def bexp_def)
  define u where "u = bexp f a - int (mant f)"
  have "a / two u = of_int q" using q(1) unfolding u_def [symmetric] by simp
  then have fl: "\<lfloor>a / two (bexp f a - int (mant f))\<rfloor> = q" by (simp add: u_def)
  have n: "mag_bits f a = d * 2 ^ mant f + q" using a fl by (simp add: mag_bits_def d_def)
  show "0 \<le> mag_bits f a" using n d q(2) by simp
  show "mag_val f (mag_bits f a) = a"
  proof (cases "2 ^ mant f \<le> q")
    case True
    then have r: "d * 2 ^ mant f + q = (q - 2 ^ mant f) + (d + 1) * 2 ^ mant f" by (simp add: algebra_simps)
    have s: "0 \<le> q - 2 ^ mant f" "q - 2 ^ mant f < 2 ^ mant f" using True q(3) by simp_all
    have "mag_bits f a div 2 ^ mant f = d + 1" "mag_bits f a mod 2 ^ mant f = q - 2 ^ mant f"
      unfolding n r using div_pos_pos_trivial [OF s] mod_pos_pos_trivial [OF s]
      by (simp_all only: div_mult_self1 mod_mult_self1 power_eq_0_iff) simp_all
    then show ?thesis using d q(1) by (simp add: mag_val_def Let_def d_def)
  next
    case False
    then have "\<not> emin f + int (mant f) < bexp f a" using q(4) by blast
    then have d0: "d = 0" using d by (simp add: d_def)
    then have "mag_bits f a = q" using n by simp
    with False q(1,2) d0 show ?thesis by (simp add: mag_val_def Let_def d_def div_pos_pos_trivial mod_pos_pos_trivial)
  qed
  have "mag_bits f a < (d + 2) * 2 ^ mant f" using n q(3) by (simp add: algebra_simps)
  then have "mag_bits f a div 2 ^ mant f < d + 2" by (simp add: int_div_less)
  then show "mag_bits f a div 2 ^ mant f \<le> bexp f a - (emin f + int (mant f)) + 1" by (simp add: d_def)
qed

lemma bexp_max: "0 < a \<Longrightarrow> a \<le> fmax f \<Longrightarrow> bexp f a - (emin f + int (mant f)) + 1 < 2 ^ ebits f - 1"
proof -
  assume a: "0 < a" "a \<le> fmax f"
  define k where "k = (2 :: int) ^ ebits f - 3 + (emin f + int (mant f))"
  have "fmax f < two (k + 1)" by (cases f) (simp_all add: k_def mant_def power_int_def)
  then have "ilog2 a \<le> k" using a by (intro ilog2_le) simp_all
  moreover have "emin f + int (mant f) \<le> k" by (cases f) (simp_all add: k_def)
  ultimately show ?thesis by (simp add: bexp_def k_def)
qed

lemma bits_roundtrip:
  assumes "in_format f a"
  shows "bits_fp f (fp_bits f (Num a)) = Num a"
proof (cases "a = 0")
  case True
  then show ?thesis
    by (cases f) (simp_all add: mag_bits_def bits_fp_def mag_val_def sign_bit_def mant_def Let_def)
next
  case False
  let ?n = "mag_bits f \<bar>a\<bar>"
  have p: "0 < \<bar>a\<bar>" "in_format f \<bar>a\<bar>" using False assms by (simp_all add: in_format_def)
  note r = mag_roundtrip [OF p]
  have e: "?n div 2 ^ mant f < 2 ^ ebits f - 1"
    using r(3) bexp_max [OF p(1), of f] p(2) unfolding in_format_def by linarith
  then have "?n div 2 ^ mant f < 2 ^ ebits f" by simp
  then have "?n < 2 ^ ebits f * 2 ^ mant f" by (simp add: int_div_less)
  then have lt: "?n < sign_bit f" by (simp add: sign_bit_def power_add mult.commute)
  have s: "0 < sign_bit f" by (simp add: sign_bit_def)
  have "(sign_bit f + ?n) mod sign_bit f = ?n" "?n mod sign_bit f = ?n" using lt r(2) by simp_all
  with e lt r(1,2) s False show ?thesis by (auto simp: bits_fp_def Let_def)
qed

text \<open>Whatever is encoded, a value in range is read back as a finite one.\<close>

lemma mag_bits_range:
  assumes "0 < a" and "a \<le> fmax f"
  shows "0 \<le> mag_bits f a" and "mag_bits f a div 2 ^ mant f < 2 ^ ebits f - 1"
proof -
  define d where "d = bexp f a - (emin f + int (mant f))"
  define q where "q = \<lfloor>a / two (bexp f a - int (mant f))\<rfloor>"
  have d: "0 \<le> d" by (simp add: d_def bexp_def)
  have "0 \<le> q" using assms(1) by (simp add: q_def)
  have "ilog2 a \<le> bexp f a" by (simp add: bexp_def)
  then have "a < two (bexp f a + 1)"
    using ilog2_bounds [OF assms(1)] two_mono [of "ilog2 a + 1" "bexp f a + 1"] by simp
  also have "\<dots> = two (int (Suc (mant f)) + (bexp f a - int (mant f)))" by (rule arg_cong [of _ _ two]) simp
  also have "\<dots> = 2 ^ Suc (mant f) * two (bexp f a - int (mant f))" by (simp only: two_add two_nat)
  finally have "a / two (bexp f a - int (mant f)) < of_int (2 ^ Suc (mant f))"
    by (simp add: pos_divide_less_eq)
  then have q: "q < 2 ^ Suc (mant f)" unfolding q_def by (simp only: floor_less_iff)
  have n: "mag_bits f a = d * 2 ^ mant f + q" using assms(1) by (simp add: mag_bits_def d_def q_def)
  show "0 \<le> mag_bits f a" using n d \<open>0 \<le> q\<close> by simp
  have "mag_bits f a < (d + 2) * 2 ^ mant f" using n q by (simp add: algebra_simps)
  then have "mag_bits f a div 2 ^ mant f < d + 2" by (simp add: int_div_less)
  then show "mag_bits f a div 2 ^ mant f < 2 ^ ebits f - 1" using bexp_max [OF assms] by (simp add: d_def)
qed

lemma encoding_finite_int:
  assumes "\<bar>a\<bar> \<le> fmax f"
  shows "is_num (bits_fp f (fp_bits f (Num a)))" and "0 \<le> fp_bits f (Num a)" and "fp_bits f (Num a) < 2 * sign_bit f"
proof -
  let ?n = "mag_bits f \<bar>a\<bar>"
  have r: "0 \<le> ?n" "?n div 2 ^ mant f < 2 ^ ebits f - 1"
    using mag_bits_range [of "\<bar>a\<bar>" f] assms by (cases "a = 0"; cases f; simp add: mag_bits_def)+
  then have "?n div 2 ^ mant f < 2 ^ ebits f" by simp
  then have "?n < 2 ^ ebits f * 2 ^ mant f" by (simp add: int_div_less)
  then have lt: "?n < sign_bit f" by (simp add: sign_bit_def power_add mult.commute)
  then have "(sign_bit f + ?n) mod sign_bit f = ?n" "?n mod sign_bit f = ?n" using r(1) by simp_all
  with r lt show "is_num (bits_fp f (fp_bits f (Num a)))" by (auto simp: bits_fp_def Let_def)
  show "0 \<le> fp_bits f (Num a)" "fp_bits f (Num a) < 2 * sign_bit f"
    using r(1) lt by (auto simp: sign_bit_def)
qed

lemma encoding_finite: "\<bar>a\<bar> \<le> fmax F64 \<Longrightarrow> is_num (bits_fp F64 (uint (word_of_int (fp_bits F64 (Num a)) :: u64)))"
proof -
  assume a: "\<bar>a\<bar> \<le> fmax F64"
  have "fp_bits F64 (Num a) < 2 ^ 64" using encoding_finite_int(3) [OF a] by (simp add: sign_bit_def mant_def)
  then have "uint (word_of_int (fp_bits F64 (Num a)) :: u64) = fp_bits F64 (Num a)"
    using encoding_finite_int(2) [OF a] by (simp add: uint_word_of_int_eq take_bit_int_eq_self del: fp_bits.simps)
  then show ?thesis using encoding_finite_int(1) [OF a] by (simp del: fp_bits.simps)
qed

end
