(* ===== verification/Session_State.thy ===== *)
theory Session_State
  imports Float_Bits Bridge Video_Bridge Bitrate_Controller Idr_Tracker Clock_Offset Pose_Sanitize Video_Out
begin

text \<open>
  The state of a headset session after the handshake, class \<^verbatim>\<open>Session\<close> of
  \<^verbatim>\<open>helper/src/wivrn/session.{h,cpp}\<close>, and the part of it that follows the
  headset's configuration: what is published to the shim and to the encoder
  thread, and the transport switches. The packet types are those members of the
  Linux repository's structs that the session reads. A send either succeeds, and
  is recorded with the socket it went to, or throws, which ends the session: a
  handler's result says whether it returned. The bridge, the video bridge, the
  bitrate controller and the other collaborators are the models of their own
  theories.
\<close>

section \<open>Packets\<close>

record fov =
  fv_left :: fp
  fv_right :: fp
  fv_up :: fp
  fv_down :: fp

record pose =
  ps_orientation :: quat
  ps_position :: vec3

record view =
  vw_pose :: pose
  vw_fov :: fov

datatype wire_codec = WcH264 | WcH265 | WcOther

record settings =
  se_refresh :: fp
  se_standby_freeze :: bool
  se_radio_aware :: bool
  se_bitrate_auto :: bool
  se_bitrate_control :: "bitrate_mode option"
  se_smooth_pacing :: bool
  se_fec :: bool

record headset_info =
  hi_eye_width :: u32
  hi_eye_height :: u32
  hi_refresh_rates :: "fp list"
  hi_fov :: "fov \<times> fov"
  hi_codecs :: "wire_codec list"
  hi_settings :: settings

text \<open>The four streams of a description always carry one codec.\<close>

record description =
  de_width :: u16
  de_height :: u16
  de_codec :: wire_codec
  de_frame_rate :: fp
  de_refresh_rate :: fp

record view_info =
  vi_display_time :: int
  vi_poses :: "pose \<times> pose"
  vi_fovs :: "fov \<times> fov"
  vi_foveation :: "u16 \<times> u16"

record timing_info =
  ti_encode_begin :: int
  ti_encode_end :: int
  ti_send_begin :: int
  ti_send_end :: int

text \<open>The identifiers of the headset protocol the session names; the rest is \<open>DiOther\<close>.\<close>

datatype device_id =
    DiHead | DiLeftGrip | DiRightGrip | DiLeftAim | DiRightAim
  | DiXClick | DiXTouch | DiYClick | DiYTouch | DiMenuClick
  | DiLeftTriggerClick | DiLeftTriggerTouch | DiLeftSqueezeClick | DiLeftStickClick | DiLeftStickTouch
  | DiAClick | DiATouch | DiBClick | DiBTouch | DiSystemClick
  | DiRightTriggerClick | DiRightTriggerTouch | DiRightSqueezeClick | DiRightStickClick | DiRightStickTouch
  | DiLeftTriggerValue | DiRightTriggerValue | DiLeftSqueezeValue | DiRightSqueezeValue
  | DiLeftStickX | DiLeftStickY | DiRightStickX | DiRightStickY
  | DiLeftHaptic | DiRightHaptic | DiOther nat

datatype 'p headset_msg =
    ThDescription description
  | ThTracking "device_id list"
  | ThTimesync int
  | ThHaptics device_id int fp fp
  | ThPong nat int
  | ThShard "(view_info, timing_info) shard"
  | ThParity 'p

datatype channel = Control | Stream

section \<open>The session\<close>

record counters =
  ct_frames_sent :: u64
  ct_shards_sent :: u64
  ct_parity_sent :: u64
  ct_bytes_sent :: u64
  ct_send_errors :: u64
  ct_frames_dropped :: u64
  ct_idr_requests :: u64
  ct_tracking :: u64
  ct_inputs :: u64
  ct_discarded :: u64

record ('g, 'p) headset_session =
  sn_bridge :: bridge
  sn_video :: video_bridge
  sn_bitrate :: bitrate_controller
  sn_info :: headset_info
  sn_have_info :: bool
  sn_views :: "view \<times> view"
  sn_have_views :: bool
  sn_refresh_hz :: fp
  sn_standby_freeze :: bool
  sn_clock :: estimator
  sn_sanitizers :: "pose_sanitizer list"
  sn_input_state :: "input_update list"
  sn_idr :: idr_tracker
  sn_description :: description
  sn_description_sent :: bool
  sn_stream_generation :: u64
  sn_pacing_slot :: pacing_slot
  sn_sender :: "(view_info, timing_info, 'g) paced_sender"
  sn_queue :: "encoded_frame list"
  sn_pacing_enabled :: bool
  sn_fec_enabled :: bool
  sn_next_video_due :: time_ns
  sn_stream :: bool
  sn_counters :: counters
  sn_out :: "(channel \<times> 'p headset_msg) list"

definition fov_zero :: fov where
  "fov_zero = \<lparr>fv_left = Num 0, fv_right = Num 0, fv_up = Num 0, fv_down = Num 0\<rparr>"

definition view_zero :: view where
  "view_zero = \<lparr>vw_pose = \<lparr>ps_orientation = \<lparr>q_x = Num 0, q_y = Num 0, q_z = Num 0, q_w = Num 0\<rparr>, ps_position = vec3_zero\<rparr>,
     vw_fov = fov_zero\<rparr>"

definition settings_zero :: settings where
  "settings_zero = \<lparr>se_refresh = Num 0, se_standby_freeze = False, se_radio_aware = False, se_bitrate_auto = False,
     se_bitrate_control = None, se_smooth_pacing = False, se_fec = False\<rparr>"

definition headset_info_zero :: headset_info where
  "headset_info_zero = \<lparr>hi_eye_width = 0, hi_eye_height = 0, hi_refresh_rates = [], hi_fov = (fov_zero, fov_zero),
     hi_codecs = [], hi_settings = settings_zero\<rparr>"

definition counters_zero :: counters where
  "counters_zero = \<lparr>ct_frames_sent = 0, ct_shards_sent = 0, ct_parity_sent = 0, ct_bytes_sent = 0, ct_send_errors = 0,
     ct_frames_dropped = 0, ct_idr_requests = 0, ct_tracking = 0, ct_inputs = 0, ct_discarded = 0\<rparr>"

text \<open>The members' initial values; the sender is idle, with an empty group builder \<open>g\<close>.\<close>

definition sender_new :: "'g \<Rightarrow> (view_info, timing_info, 'g) paced_sender" where
  "sender_new g =
     (let v = \<lparr>vi_display_time = 0, vi_poses = (vw_pose view_zero, vw_pose view_zero), vi_fovs = (fov_zero, fov_zero),
               vi_foveation = (0, 0)\<rparr>;
          t = \<lparr>ti_encode_begin = 0, ti_encode_end = 0, ti_send_begin = 0, ti_send_end = 0\<rparr>
      in \<lparr>ps_frame = \<lparr>of_stream_index = 0, of_frame_index = 0, of_idr = False, of_has_stream_socket = False,
            of_fragment_on_control = False, of_fec = False, of_view_info = v, of_timing_info = t\<rparr>,
          ps_data = [], ps_pacer = pacer_inactive, ps_group = g, ps_active = False, ps_fec_active = False, ps_offset = 0,
          ps_shard = \<lparr>sd_stream_item_idx = 0, sd_frame_idx = 0, sd_shard_idx = 0, sd_view_info = None, sd_timing_info = None,
            sd_payload = []\<rparr>,
          ps_shards = 0, ps_parity_shards = 0, ps_wire_bytes = 0\<rparr>)"

definition session_new :: "'g \<Rightarrow> bool \<Rightarrow> bridge \<Rightarrow> video_bridge \<Rightarrow> ('g, 'p) headset_session" where
  "session_new g stream b v =
     \<lparr>sn_bridge = b, sn_video = v, sn_bitrate = bitrate_controller_new, sn_info = headset_info_zero, sn_have_info = False,
      sn_views = (view_zero, view_zero), sn_have_views = False, sn_refresh_hz = Num 90, sn_standby_freeze = True,
      sn_clock = clock_estimator_new, sn_sanitizers = replicate kDeviceCount pose_sanitizer_new,
      sn_input_state = replicate kDeviceCount input_zero, sn_idr = idr_init,
      sn_description = \<lparr>de_width = 0, de_height = 0, de_codec = WcH264, de_frame_rate = Num 0, de_refresh_rate = Num 0\<rparr>,
      sn_description_sent = False, sn_stream_generation = 0, sn_pacing_slot = pacing_slot_new, sn_sender = sender_new g,
      sn_queue = [], sn_pacing_enabled = True, sn_fec_enabled = False, sn_next_video_due = 0, sn_stream = stream,
      sn_counters = counters_zero, sn_out = []\<rparr>"

text \<open>
  What the session gets from elsewhere: the finiteness test and the share of the
  link that is data from the Linux repository, the tangent of the C library, the
  outcome of the \<open>n\<close>-th send, and the frequency of the performance counter.
\<close>

record session_env =
  sv_is_finite :: "fp \<Rightarrow> bool"
  sv_data_share :: fp
  sv_tan :: "fp \<Rightarrow> fp"
  sv_send_ok :: "nat \<Rightarrow> bool"
  sv_frequency :: int

abbreviation on_counters :: "(counters \<Rightarrow> counters) \<Rightarrow> ('g, 'p) headset_session \<Rightarrow> ('g, 'p) headset_session" where
  "on_counters f s \<equiv> s\<lparr>sn_counters := f (sn_counters s)\<rparr>"

definition send_control :: "session_env \<Rightarrow> 'p headset_msg \<Rightarrow> ('g, 'p) headset_session \<Rightarrow> bool \<times> ('g, 'p) headset_session" where
  "send_control sv p s =
     (if sv_send_ok sv (length (sn_out s)) then (True, s\<lparr>sn_out := sn_out s @ [(Control, p)]\<rparr>) else (False, s))"

definition send_stream :: "session_env \<Rightarrow> 'p headset_msg \<Rightarrow> ('g, 'p) headset_session \<Rightarrow> bool \<times> ('g, 'p) headset_session" where
  "send_stream sv p s =
     (if sn_stream s
      then (if sv_send_ok sv (length (sn_out s)) then (True, s\<lparr>sn_out := sn_out s @ [(Stream, p)]\<rparr>) else (False, s))
      else send_control sv p s)"

definition frame_period_ns :: "('g, 'p) headset_session \<Rightarrow> int" where
  "frame_period_ns s =
     (if fp_lt (Num 1) (sn_refresh_hz s) then fp_to_i64 (fp_div F64 (Num 1000000000) (sn_refresh_hz s)) else 0)"

definition kPacingWindow :: fp where "kPacingWindow = round_fp F32 (4 / 10)"

section \<open>The HMD configuration\<close>

definition quat_words :: "quat \<Rightarrow> quat_bits" where
  "quat_words q = (f32_bits (q_w q), f32_bits (q_x q), f32_bits (q_y q), f32_bits (q_z q))"

definition vec_words :: "vec3 \<Rightarrow> vec_bits" where
  "vec_words v = (f32_bits (v_x v), f32_bits (v_y v), f32_bits (v_z v))"

text \<open>The four edges of one eye's frustum: left, right, top, bottom.\<close>

record frustum =
  fr_left :: fp
  fr_right :: fp
  fr_top :: fp
  fr_bottom :: fp

definition frustum_of :: "session_env \<Rightarrow> fov \<Rightarrow> frustum" where
  "frustum_of sv f = \<lparr>fr_left = sv_tan sv (fv_left f), fr_right = sv_tan sv (fv_right f),
     fr_top = sv_tan sv (fv_down f), fr_bottom = sv_tan sv (fv_up f)\<rparr>"

definition frustum_sane :: "session_env \<Rightarrow> frustum \<Rightarrow> bool" where
  "frustum_sane sv f \<longleftrightarrow> sv_is_finite sv (fr_left f) \<and> sv_is_finite sv (fr_right f) \<and> sv_is_finite sv (fr_top f)
     \<and> sv_is_finite sv (fr_bottom f) \<and> fp_lt (fr_left f) (fr_right f) \<and> fp_lt (fr_top f) (fr_bottom f)"

definition nominal_ipd :: fp where "nominal_ipd = round_fp F32 (63 / 1000)"

definition nominal_eye :: "bool \<Rightarrow> vec3" where
  "nominal_eye right = \<lparr>v_x = fp_mul F32 (Num (if right then 1 / 2 else - (1 / 2))) nominal_ipd, v_y = Num 0, v_z = Num 0\<rparr>"

definition current_fovs :: "('g, 'p) headset_session \<Rightarrow> fov \<times> fov" where
  "current_fovs s = (if sn_have_views s then (vw_fov (fst (sn_views s)), vw_fov (snd (sn_views s)))
     else hi_fov (sn_info s))"

definition config_of :: "session_env \<Rightarrow> ('g, 'p) headset_session \<Rightarrow> hmd_config" where
  "config_of sv s =
     (let l = frustum_of sv (fst (current_fovs s)); r = frustum_of sv (snd (current_fovs s));
          lp = vw_pose (fst (sn_views s)); rp = vw_pose (snd (sn_views s))
      in \<lparr>hc_eye_width = hi_eye_width (sn_info s), hc_eye_height = hi_eye_height (sn_info s),
          hc_refresh_hz = f32_bits (sn_refresh_hz s),
          hc_ipd_m = f32_bits (if sn_have_views s
            then fp_abs (fp_sub F32 (v_x (ps_position rp)) (v_x (ps_position lp))) else nominal_ipd),
          hc_proj_left = (f32_bits (fr_left l), f32_bits (fr_left r)),
          hc_proj_right = (f32_bits (fr_right l), f32_bits (fr_right r)),
          hc_proj_top = (f32_bits (fr_top l), f32_bits (fr_top r)),
          hc_proj_bottom = (f32_bits (fr_bottom l), f32_bits (fr_bottom r)),
          hc_eye_to_head_q = (if sn_have_views s then (quat_words (ps_orientation lp), quat_words (ps_orientation rp))
            else (quat_words quat_identity, quat_words quat_identity)),
          hc_eye_to_head_p = (if sn_have_views s then (vec_words (ps_position lp), vec_words (ps_position rp))
            else (vec_words (nominal_eye False), vec_words (nominal_eye True)))\<rparr>)"

definition config_sane :: "session_env \<Rightarrow> ('g, 'p) headset_session \<Rightarrow> bool" where
  "config_sane sv s \<longleftrightarrow> 0 < hi_eye_width (sn_info s) \<and> 0 < hi_eye_height (sn_info s) \<and> sv_is_finite sv (sn_refresh_hz s)
     \<and> frustum_sane sv (frustum_of sv (fst (current_fovs s))) \<and> frustum_sane sv (frustum_of sv (snd (current_fovs s)))"

definition publish_config :: "session_env \<Rightarrow> ('g, 'p) headset_session \<Rightarrow> ('g, 'p) headset_session" where
  "publish_config sv s =
     (if \<not> sn_have_info s then s
      else if \<not> config_sane sv s then s
      else s\<lparr>sn_bridge := set_config (config_of sv s) (sn_bridge s)\<rparr>)"

section \<open>The encoder's request\<close>

definition publish_video_request :: "('g, 'p) headset_session \<Rightarrow> ('g, 'p) headset_session" where
  "publish_video_request s =
     (let allow_h265 = (WcH265 \<in> set (hi_codecs (sn_info s)));
          allow_h264 = (WcH264 \<in> set (hi_codecs (sn_info s)) \<or> \<not> allow_h265)
      in s\<lparr>sn_video := set_client (sn_refresh_hz s) allow_h265 allow_h264 (sn_video s)\<rparr>)"

definition apply_bitrate :: "session_env \<Rightarrow> u32 option \<Rightarrow> ('g, 'p) headset_session \<Rightarrow> ('g, 'p) headset_session" where
  "apply_bitrate sv bitrate s =
     (case bitrate of None \<Rightarrow> s
      | Some b \<Rightarrow> if b = 0 then s
          else s\<lparr>sn_video := set_bitrate (word_of_int (fp_to_u32 (fp_mul F64 (fp_of_int F64 (uint b))
                   (if sn_fec_enabled s then sv_data_share sv else Num 1)))) (sn_video s)\<rparr>)"

definition paced_window :: "bool \<Rightarrow> fp" where
  "paced_window on = (if on then fp_min kPacingWindow max_window else Num 0)"

definition configure_transport :: "session_env \<Rightarrow> ('g, 'p) headset_session \<Rightarrow> ('g, 'p) headset_session" where
  "configure_transport sv s =
     (case vb_prefs (sn_video s) of (ceiling_bps, _, adaptive) \<Rightarrow>
       let st = hi_settings (sn_info s);
           pacing = (adaptive \<and> se_smooth_pacing st);
           bc = bc_configure \<lparr>cf_enabled = adaptive, cf_min_bitrate_bps = 10000000, cf_control = Aimd\<rparr> ceiling_bps
                  (se_bitrate_auto st) (se_radio_aware st) (se_bitrate_control st) (sn_bitrate s);
           s = s\<lparr>sn_pacing_enabled := pacing, sn_pacing_slot := pacing_slot_reset (sn_pacing_slot s),
                 sn_bitrate := set_pacing_window (paced_window pacing) bc,
                 sn_fec_enabled := adaptive \<and> se_fec st \<and> sn_stream s\<rparr>
       in apply_bitrate sv (Some (bc_bitrate (sn_bitrate s))) s)"

definition max_refresh :: "fp list \<Rightarrow> fp" where
  "max_refresh rates = (case rates of [] \<Rightarrow> Num 90 | r # rs \<Rightarrow> foldl (\<lambda>m x. if fp_lt m x then x else m) r rs)"

definition on_headset_info :: "session_env \<Rightarrow> headset_info \<Rightarrow> ('g, 'p) headset_session \<Rightarrow> ('g, 'p) headset_session" where
  "on_headset_info sv info s =
     configure_transport sv (publish_video_request (publish_config sv
       (s\<lparr>sn_info := info, sn_have_info := True,
          sn_refresh_hz := (if fp_lt (Num 1) (se_refresh (hi_settings info)) then se_refresh (hi_settings info)
            else max_refresh (hi_refresh_rates info)),
          sn_standby_freeze := se_standby_freeze (hi_settings info)\<rparr>)))"

definition set_refresh :: "session_env \<Rightarrow> fp \<Rightarrow> ('g, 'p) headset_session \<Rightarrow> ('g, 'p) headset_session" where
  "set_refresh sv hz s = publish_video_request (publish_config sv (s\<lparr>sn_refresh_hz := hz\<rparr>))"

text \<open>
  The settings handler, in the order of the source: the frame rate; the
  controller's switches, whose results are applied; pacing; error correction.
  The command-line preference \<^verbatim>\<open>adaptive\<close> does not change while a session runs.
\<close>

definition settings_rate :: "session_env \<Rightarrow> settings \<Rightarrow> ('g, 'p) headset_session \<Rightarrow> ('g, 'p) headset_session" where
  "settings_rate sv st s =
     (let s = s\<lparr>sn_standby_freeze := se_standby_freeze st\<rparr>
      in if fp_lt (Num 1) (se_refresh st) \<and> \<not> fp_eq (se_refresh st) (sn_refresh_hz s)
         then set_refresh sv (se_refresh st) s else s)"

definition settings_radio :: "settings \<Rightarrow> ('g, 'p) headset_session \<Rightarrow> ('g, 'p) headset_session" where
  "settings_radio st s =
     s\<lparr>sn_info := (sn_info s)\<lparr>hi_settings := st\<rparr>,
       sn_bitrate := set_radio_aware (vb_pref_adaptive (sn_video s) \<and> se_radio_aware st) (sn_bitrate s)\<rparr>"

definition settings_enabled :: "session_env \<Rightarrow> settings \<Rightarrow> ('g, 'p) headset_session \<Rightarrow> ('g, 'p) headset_session" where
  "settings_enabled sv st s =
     (case set_client_enabled (vb_pref_adaptive (sn_video s) \<and> se_bitrate_auto st) (sn_bitrate s) of
        (b, bc) \<Rightarrow> apply_bitrate sv b (s\<lparr>sn_bitrate := bc\<rparr>))"

definition settings_mode :: "session_env \<Rightarrow> settings \<Rightarrow> ('g, 'p) headset_session \<Rightarrow> ('g, 'p) headset_session" where
  "settings_mode sv st s =
     (case set_client_mode (se_bitrate_control st) (sn_bitrate s) of
        (b, bc) \<Rightarrow> apply_bitrate sv b (s\<lparr>sn_bitrate := bc\<rparr>))"

definition settings_pacing :: "settings \<Rightarrow> ('g, 'p) headset_session \<Rightarrow> ('g, 'p) headset_session" where
  "settings_pacing st s =
     (let pacing = (vb_pref_adaptive (sn_video s) \<and> se_smooth_pacing st)
      in if pacing \<noteq> sn_pacing_enabled s
         then s\<lparr>sn_pacing_enabled := pacing, sn_pacing_slot := pacing_slot_reset (sn_pacing_slot s),
                sn_bitrate := set_pacing_window (paced_window pacing) (sn_bitrate s)\<rparr> else s)"

definition settings_fec :: "session_env \<Rightarrow> settings \<Rightarrow> ('g, 'p) headset_session \<Rightarrow> ('g, 'p) headset_session" where
  "settings_fec sv st s =
     (let fec = (vb_pref_adaptive (sn_video s) \<and> se_fec st \<and> sn_stream s)
      in if fec \<noteq> sn_fec_enabled s
         then apply_bitrate sv (Some (bc_bitrate (sn_bitrate s))) (s\<lparr>sn_fec_enabled := fec\<rparr>) else s)"

definition on_settings :: "session_env \<Rightarrow> settings \<Rightarrow> ('g, 'p) headset_session \<Rightarrow> ('g, 'p) headset_session" where
  "on_settings sv st s =
     settings_fec sv st (settings_pacing st (settings_mode sv st (settings_enabled sv st (settings_radio st
       (settings_rate sv st s)))))"

definition on_refresh_rate_changed :: "session_env \<Rightarrow> fp \<Rightarrow> ('g, 'p) headset_session \<Rightarrow> ('g, 'p) headset_session" where
  "on_refresh_rate_changed sv to s = (if fp_lt (Num 1) to then set_refresh sv to s else s)"

definition on_wifi_packet :: "session_env \<Rightarrow> bool \<Rightarrow> int \<Rightarrow> int \<Rightarrow> time_ns \<Rightarrow> ('g, 'p) headset_session \<Rightarrow> ('g, 'p) headset_session" where
  "on_wifi_packet sv valid rssi speed now s =
     (if \<not> valid then on_counters (\<lambda>c. c\<lparr>ct_discarded := ct_discarded c + 1\<rparr>) s
      else case on_wifi_state rssi speed now (sn_bitrate s) of (b, bc) \<Rightarrow> apply_bitrate sv b (s\<lparr>sn_bitrate := bc\<rparr>))"

definition ask_idr :: "('g, 'p) headset_session \<Rightarrow> ('g, 'p) headset_session" where
  "ask_idr s = on_counters (\<lambda>c. c\<lparr>ct_idr_requests := ct_idr_requests c + 1\<rparr>) (s\<lparr>sn_video := request_idr (sn_video s)\<rparr>)"

definition session_feedback :: "session_env \<Rightarrow> feedback \<Rightarrow> time_ns \<Rightarrow> ('g, 'p) headset_session \<Rightarrow> ('g, 'p) headset_session" where
  "session_feedback sv f now s =
     (case idr_on_feedback f now (sn_idr s) of (lost, idr) \<Rightarrow>
       let s = s\<lparr>sn_idr := idr\<rparr>; s = (if lost then ask_idr s else s)
       in case on_feedback f (frame_period_ns s) True now (sn_bitrate s) of (b, bc) \<Rightarrow>
            apply_bitrate sv b (s\<lparr>sn_bitrate := bc\<rparr>))"

section \<open>The stream description\<close>

definition send_stream_setup :: "session_env \<Rightarrow> ('g, 'p) headset_session \<Rightarrow> bool \<times> ('g, 'p) headset_session" where
  "send_stream_setup sv s =
     (let d = \<lparr>de_width = ucast (hi_eye_width (sn_info s)), de_height = ucast (hi_eye_height (sn_info s)),
               de_codec = (case hi_codecs (sn_info s) of [] \<Rightarrow> WcH264 | c # _ \<Rightarrow> c),
               de_frame_rate = sn_refresh_hz s, de_refresh_rate = sn_refresh_hz s\<rparr>;
          (ok, s) = send_control sv (ThDescription d) (s\<lparr>sn_description := d\<rparr>)
      in (ok, if ok then s\<lparr>sn_description_sent := True\<rparr> else s))"

definition description_eq :: "description \<Rightarrow> description \<Rightarrow> bool" where
  "description_eq a b \<longleftrightarrow> de_width a = de_width b \<and> de_height a = de_height b \<and> de_codec a = de_codec b
     \<and> fp_eq (de_frame_rate a) (de_frame_rate b) \<and> fp_eq (de_refresh_rate a) (de_refresh_rate b)"

definition update_stream_description :: "session_env \<Rightarrow> ('g, 'p) headset_session \<Rightarrow> bool \<times> ('g, 'p) headset_session" where
  "update_stream_description sv s =
     (let st = vb_stream (sn_video s)
      in if ss_generation st = sn_stream_generation s then (True, s)
      else let s = s\<lparr>sn_stream_generation := ss_generation st\<rparr>
        in if \<not> ss_valid st then (True, s)
        else let d = (sn_description s)\<lparr>de_width := ucast (es_width (ss_info st)), de_height := ucast (es_height (ss_info st)),
                   de_codec := (if es_codec (ss_info st) = H265 then WcH265 else WcH264),
                   de_frame_rate := sn_refresh_hz s, de_refresh_rate := sn_refresh_hz s\<rparr>
          in if sn_description_sent s \<and> description_eq d (sn_description s) then (True, s)
          else case send_control sv (ThDescription d) (s\<lparr>sn_description := d\<rparr>) of
              (False, s) \<Rightarrow> (False, s)
            | (True, s) \<Rightarrow>
                (let s = ask_idr (s\<lparr>sn_description_sent := True\<rparr>) in (True, s\<lparr>sn_idr := idr_reset (sn_idr s)\<rparr>)))"

definition send_tracking_pattern :: "session_env \<Rightarrow> ('g, 'p) headset_session \<Rightarrow> bool \<times> ('g, 'p) headset_session" where
  "send_tracking_pattern sv s =
     send_control sv (ThTracking [DiHead, DiLeftGrip, DiLeftAim, DiRightGrip, DiRightAim]) s"

end
