(* ===== verification/Session_Video.thy ===== *)
theory Session_Video
  imports Session_State
begin

text \<open>
  The video half of the session loop: \<^verbatim>\<open>begin_video_frame\<close>, \<^verbatim>\<open>finish_video_frame\<close>
  and \<^verbatim>\<open>pump_video\<close> of \<^verbatim>\<open>session.cpp\<close>, with \<^verbatim>\<open>compose_pose\<close> of \<^verbatim>\<open>video_out.h\<close>. Frames
  come from the video bridge, wait in a bounded queue and leave through the
  paced sender. Which shard the socket refuses, and the two readings of the
  clock, are arguments.
\<close>

section \<open>Poses\<close>

definition fmul :: "fp \<Rightarrow> fp \<Rightarrow> fp" where "fmul = fp_mul F32"
definition fadd :: "fp \<Rightarrow> fp \<Rightarrow> fp" where "fadd = fp_add F32"
definition fsub :: "fp \<Rightarrow> fp \<Rightarrow> fp" where "fsub = fp_sub F32"

definition compose_orientation :: "quat \<Rightarrow> quat \<Rightarrow> quat" where
  "compose_orientation a b =
     \<lparr>q_x = fsub (fadd (fadd (fmul (q_w a) (q_x b)) (fmul (q_x a) (q_w b))) (fmul (q_y a) (q_z b))) (fmul (q_z a) (q_y b)),
      q_y = fadd (fadd (fsub (fmul (q_w a) (q_y b)) (fmul (q_x a) (q_z b))) (fmul (q_y a) (q_w b))) (fmul (q_z a) (q_x b)),
      q_z = fadd (fsub (fadd (fmul (q_w a) (q_z b)) (fmul (q_x a) (q_y b))) (fmul (q_y a) (q_x b))) (fmul (q_z a) (q_w b)),
      q_w = fsub (fsub (fsub (fmul (q_w a) (q_w b)) (fmul (q_x a) (q_x b))) (fmul (q_y a) (q_y b))) (fmul (q_z a) (q_z b))\<rparr>"

definition compose_pose :: "pose \<Rightarrow> pose \<Rightarrow> pose" where
  "compose_pose head eye_pose =
     (let a = ps_orientation head; v = ps_position eye_pose; h = ps_position head;
          tx = fmul (Num 2) (fsub (fmul (q_y a) (v_z v)) (fmul (q_z a) (v_y v)));
          ty = fmul (Num 2) (fsub (fmul (q_z a) (v_x v)) (fmul (q_x a) (v_z v)));
          tz = fmul (Num 2) (fsub (fmul (q_x a) (v_y v)) (fmul (q_y a) (v_x v)))
      in \<lparr>ps_orientation = compose_orientation a (ps_orientation eye_pose),
          ps_position =
            \<lparr>v_x = fadd (fadd (fadd (v_x h) (v_x v)) (fmul (q_w a) tx)) (fsub (fmul (q_y a) tz) (fmul (q_z a) ty)),
             v_y = fadd (fadd (fadd (v_y h) (v_y v)) (fmul (q_w a) ty)) (fsub (fmul (q_z a) tx) (fmul (q_x a) tz)),
             v_z = fadd (fadd (fadd (v_z h) (v_z v)) (fmul (q_w a) tz)) (fsub (fmul (q_x a) ty) (fmul (q_y a) tx))\<rparr>\<rparr>)"

definition identity_foveation :: "u16 \<Rightarrow> u16 \<Rightarrow> u16 \<times> u16" where
  "identity_foveation width height = (width, height)"

definition head_pose :: "encoded_frame \<Rightarrow> pose" where
  "head_pose f = (case ef_pose_q f of (w, x, y, z) \<Rightarrow> case ef_pose_p f of (px, py, pz) \<Rightarrow>
     \<lparr>ps_orientation = \<lparr>q_x = f32_of x, q_y = f32_of y, q_z = f32_of z, q_w = f32_of w\<rparr>,
      ps_position = \<lparr>v_x = f32_of px, v_y = f32_of py, v_z = f32_of pz\<rparr>\<rparr>)"

definition default_eye :: "bool \<Rightarrow> pose" where
  "default_eye right = \<lparr>ps_orientation = quat_identity,
     ps_position = \<lparr>v_x = round_fp F32 (if right then 315 / 10000 else - (315 / 10000)), v_y = Num 0, v_z = Num 0\<rparr>\<rparr>"

section \<open>Starting a frame\<close>

definition view_info_of :: "('g, 'p) headset_session \<Rightarrow> encoded_frame \<Rightarrow> int \<Rightarrow> view_info" where
  "view_info_of s f display_time =
     (let eyes = (if sn_have_views s then (vw_pose (fst (sn_views s)), vw_pose (snd (sn_views s)))
            else (default_eye False, default_eye True))
      in \<lparr>vi_display_time = display_time,
          vi_poses = (compose_pose (head_pose f) (fst eyes), compose_pose (head_pose f) (snd eyes)),
          vi_fovs = current_fovs s,
          vi_foveation = identity_foveation (de_width (sn_description s)) (de_height (sn_description s))\<rparr>)"

definition out_frame_of :: "session_env \<Rightarrow> time_ns \<Rightarrow> ('g, 'p) headset_session \<Rightarrow> encoded_frame \<Rightarrow> (view_info, timing_info) out_frame" where
  "out_frame_of sv now s f =
     (let offset = get_offset (sn_clock s);
          present = qpc_to_ns (sv_frequency sv) (ef_sample_time_qpc f);
          photon = present + fp_to_i64 (fp_mul F64 (f32_of (ef_predict_s f)) (Num 1000000000))
      in \<lparr>of_stream_index = ef_stream_index f, of_frame_index = ef_frame_id f, of_idr = ef_idr f,
          of_has_stream_socket = sn_stream s, of_fragment_on_control = (sn_pacing_enabled s \<and> \<not> sn_stream s),
          of_fec = sn_fec_enabled s, of_view_info = view_info_of s f (to_headset offset photon),
          of_timing_info = \<lparr>ti_encode_begin = to_headset offset present, ti_encode_end = to_headset offset now,
            ti_send_begin = to_headset offset now, ti_send_end = to_headset offset now\<rparr>\<rparr>)"

definition begin_video_frame ::
    "session_env \<Rightarrow> (view_info, timing_info, 'g, 'p) wire_env \<Rightarrow> time_ns \<Rightarrow> ('g, 'p) headset_session \<Rightarrow> ('g, 'p) headset_session" where
  "begin_video_frame sv we now s =
     (let f = hd (sn_queue s);
          (budget, slot) = (if sn_pacing_enabled s \<and> \<not> ef_idr f
            then begin_frame now (frame_period_ns s) kPacingWindow (of_nat (length (sn_queue s) - 1)) (sn_pacing_slot s)
            else (0, sn_pacing_slot s))
      in s\<lparr>sn_pacing_slot := slot,
           sn_sender := sender_begin we (out_frame_of sv now s f) (ef_data f)
             (shard_pacer_new now budget (of_nat (length (ef_data f)))) (sn_sender s)\<rparr>)"

section \<open>Finishing a frame\<close>

definition finish_video_frame :: "time_ns \<Rightarrow> ('g, 'p) headset_session \<Rightarrow> ('g, 'p) headset_session" where
  "finish_video_frame now s =
     (let f = hd (sn_queue s); sd = sn_sender s
      in (on_counters (\<lambda>c. c\<lparr>ct_frames_sent := ct_frames_sent c + 1,
            ct_shards_sent := ct_shards_sent c + ucast (ps_shards sd),
            ct_parity_sent := ct_parity_sent c + ucast (ps_parity_shards sd),
            ct_bytes_sent := ct_bytes_sent c + ucast (ps_wire_bytes sd)\<rparr>) s)
         \<lparr>sn_idr := idr_on_frame_sent (ef_frame_id f) (ef_idr f) (sn_idr s),
          sn_bitrate := on_frame_bytes (ef_frame_id f) (ef_stream_index f) (ps_wire_bytes sd) now (sn_bitrate s),
          sn_queue := tl (sn_queue s)\<rparr>)"

section \<open>The queue\<close>

definition kMaxVideoQueued :: nat where "kMaxVideoQueued = 6"

text \<open>The two nested loops that shorten the queue from position \<open>first\<close> on, with the number of entries dropped.\<close>

function trim_queue :: "nat \<Rightarrow> encoded_frame list \<Rightarrow> encoded_frame list \<times> nat" where
  "trim_queue first q =
     (if length q \<le> kMaxVideoQueued \<or> length q \<le> first then (q, 0)
      else let victim = ef_frame_id (q ! first);
               rest = dropWhile (\<lambda>f. ef_frame_id f = victim) (drop first q);
               n = length q - first - length rest
           in case trim_queue first (take first q @ rest) of (q', m) \<Rightarrow> (q', n + m))"
  by pat_completeness auto
termination
proof (relation "measure (\<lambda>(first, q). length q)", goal_cases)
  case (2 first q victim rest n)
  then have "drop first q \<noteq> []" and v: "victim = ef_frame_id (hd (drop first q))" by (simp_all add: hd_drop_conv_nth)
  then have "length rest < length (drop first q)" unfolding 2(3) by (intro dropWhile_hd_shorter) simp_all
  with 2(1) show ?case by simp
qed simp

declare trim_queue.simps [simp del]

definition take_video :: "('g, 'p) headset_session \<Rightarrow> ('g, 'p) headset_session" where
  "take_video s =
     (case take_frames (sn_video s) of (fs, v) \<Rightarrow>
       let s = s\<lparr>sn_video := v\<rparr>
       in if fs = [] then s
          else case trim_queue (if ps_active (sn_sender s) then 1 else 0) (sn_queue s @ fs) of (q, n) \<Rightarrow>
            on_counters (\<lambda>c. c\<lparr>ct_frames_dropped := ct_frames_dropped c + of_nat n\<rparr>) (s\<lparr>sn_queue := q\<rparr>))"

section \<open>The pump\<close>

fun emit_event :: "bool \<Rightarrow> (view_info, timing_info, 'p) wire_event \<Rightarrow> (channel \<times> 'p headset_msg) list" where
  "emit_event stream (DataShard sh prefer_control) = [(if prefer_control \<or> \<not> stream then Control else Stream, ThShard sh)]"
| "emit_event stream (ParityShard p) = (if stream then [(Stream, ThParity p)] else [])"

definition emit :: "(view_info, timing_info, 'p) wire_event list \<Rightarrow> ('g, 'p) headset_session \<Rightarrow> ('g, 'p) headset_session" where
  "emit evs s = s\<lparr>sn_out := sn_out s @ concat (map (emit_event (sn_stream s)) evs)\<rparr>"

definition sinks_of :: "((view_info, timing_info) shard \<Rightarrow> bool) \<Rightarrow> time_ns \<Rightarrow> ('g, 'p) headset_session \<Rightarrow> (view_info, timing_info) sinks" where
  "sinks_of throws stamp s = \<lparr>sk_data_throws = throws, sk_parity = True,
     sk_stamp = Some (\<lambda>t. t\<lparr>ti_send_end := to_headset (get_offset (sn_clock s)) stamp\<rparr>)\<rparr>"

definition start_if_idle ::
    "session_env \<Rightarrow> (view_info, timing_info, 'g, 'p) wire_env \<Rightarrow> time_ns \<Rightarrow> ('g, 'p) headset_session \<Rightarrow> ('g, 'p) headset_session" where
  "start_if_idle sv we now s = (if ps_active (sn_sender s) then s else begin_video_frame sv we now s)"

definition pump_sender ::
    "session_env \<Rightarrow> (view_info, timing_info, 'g, 'p) wire_env \<Rightarrow> ((view_info, timing_info) shard \<Rightarrow> bool) \<Rightarrow> time_ns
     \<Rightarrow> time_ns \<Rightarrow> ('g, 'p) headset_session \<Rightarrow> time_ns option \<times> ('g, 'p) headset_session" where
  "pump_sender sv we throws now stamp s =
     (case pump we now (sinks_of throws stamp s) (sn_sender s) of (evs, sd, r) \<Rightarrow> (r, emit evs (s\<lparr>sn_sender := sd\<rparr>)))"

definition drop_failed :: "('g, 'p) headset_session \<Rightarrow> ('g, 'p) headset_session" where
  "drop_failed s = on_counters (\<lambda>c. c\<lparr>ct_send_errors := ct_send_errors c + 1\<rparr>)
     (s\<lparr>sn_sender := sender_abort (sn_sender s), sn_queue := tl (sn_queue s)\<rparr>)"

lemma wait_until_later: "wait_until n now p = (Some t, p') \<Longrightarrow> now < t"
  by (auto simp: wait_until_def Let_def min_sleep_ns_def split: if_splits)

lemma pump_body_due: "pump_body we now sk s = (evs, s', Due t) \<Longrightarrow> now < t"
  by (auto simp: pump_body_def Let_def dest: wait_until_later split: if_splits prod.splits option.splits)

lemma pump_loop_due: "pump_loop we now sk s = (evs, s', Due t) \<Longrightarrow> now < t"
proof (induction we now sk s arbitrary: evs rule: pump_loop.induct)
  case (1 we now sk s)
  then show ?case
    by (subst (asm) (2) pump_loop.simps)
      (auto dest: pump_body_due split: if_splits prod.splits pump_end.splits)
qed

text \<open>A pump call that neither threw nor finished the frame names a time in the future.\<close>

lemma pump_due: "pump we now sk s = (evs, s', Some t) \<Longrightarrow> ps_active s' \<Longrightarrow> now < t"
  by (auto simp: pump_def Let_def dest: pump_loop_due split: if_splits prod.splits pump_end.splits)

lemma start_if_idle_queue [simp]: "sn_queue (start_if_idle sv we now s) = sn_queue s"
  by (simp add: start_if_idle_def begin_video_frame_def Let_def split: prod.split)

lemma pump_sender_queue: "pump_sender sv we throws now stamp s = (r, s') \<Longrightarrow> sn_queue s' = sn_queue s"
  by (auto simp: pump_sender_def emit_def split: prod.splits)

lemma pump_sender_due:
  "pump_sender sv we throws now stamp s = (Some due, s') \<Longrightarrow> ps_active (sn_sender s') \<Longrightarrow> now < due"
  by (auto simp: pump_sender_def emit_def dest: pump_due split: prod.splits)

lemma finish_video_frame_keeps [simp]:
  "sn_queue (finish_video_frame now s) = tl (sn_queue s)" "sn_sender (finish_video_frame now s) = sn_sender s"
  by (simp_all add: finish_video_frame_def Let_def)

lemma drop_failed_keeps [simp]:
  "sn_queue (drop_failed s) = tl (sn_queue s)" "\<not> ps_active (sn_sender (drop_failed s))"
  by (simp_all add: drop_failed_def sender_abort_def)

function pump_frames ::
    "session_env \<Rightarrow> (view_info, timing_info, 'g, 'p) wire_env \<Rightarrow> ((view_info, timing_info) shard \<Rightarrow> bool) \<Rightarrow> time_ns
     \<Rightarrow> time_ns \<Rightarrow> ('g, 'p) headset_session \<Rightarrow> ('g, 'p) headset_session" where
  "pump_frames sv we throws now stamp s =
     (if \<not> ps_active (sn_sender s) \<and> sn_queue s = [] then s
      else if \<not> ps_active (sn_sender s) \<and> ef_data (hd (sn_queue s)) = []
        then pump_frames sv we throws now stamp (s\<lparr>sn_queue := tl (sn_queue s)\<rparr>)
      else case pump_sender sv we throws now stamp (start_if_idle sv we now s) of
          (None, s') \<Rightarrow> pump_frames sv we throws now stamp (drop_failed s')
        | (Some due, s') \<Rightarrow>
            (if now < due then s'\<lparr>sn_next_video_due := due\<rparr>
             else if ps_active (sn_sender s') then pump_frames sv we throws now stamp s'
             else pump_frames sv we throws now stamp (finish_video_frame now s')))"
  by pat_completeness auto

termination
proof (relation "measure (\<lambda>(sv, we, throws, now, stamp, s). 2 * length (sn_queue s) + (if ps_active (sn_sender s) then 1 else 0))",
    goal_cases)
  case (2 sv we throws now stamp s)
  then show ?case by (cases "sn_queue s") auto
next
  case (3 sv we throws now stamp s x s')
  then have "sn_queue s' = sn_queue s" using pump_sender_queue [OF 3(3) [symmetric]] by simp
  with 3(1) show ?case by (cases "sn_queue s") auto
next
  case (4 sv we throws now stamp s x s' due)
  then show ?case using pump_sender_due [of sv we throws now stamp "start_if_idle sv we now s" due s'] by simp
next
  case (5 sv we throws now stamp s x s' due)
  then have "sn_queue s' = sn_queue s" using pump_sender_queue [OF 5(3) [symmetric]] by simp
  with 5(1,6) show ?case by (cases "sn_queue s") auto
qed simp

declare pump_frames.simps [simp del]

definition pump_video ::
    "session_env \<Rightarrow> (view_info, timing_info, 'g, 'p) wire_env \<Rightarrow> ((view_info, timing_info) shard \<Rightarrow> bool) \<Rightarrow> time_ns
     \<Rightarrow> time_ns \<Rightarrow> ('g, 'p) headset_session \<Rightarrow> ('g, 'p) headset_session" where
  "pump_video sv we throws now stamp s =
     pump_frames sv we throws now stamp ((take_video s)\<lparr>sn_next_video_due := 0\<rparr>)"

section \<open>Trimming drops whole frames\<close>

lemma trim_queue_spec:
  "trim_queue first q = (q', n) \<Longrightarrow> \<exists>pre. q = take first q @ pre @ drop first q' \<and> take first q' = take first q
     \<and> n = length pre \<and> (length q' \<le> kMaxVideoQueued \<or> length q' \<le> first)
     \<and> (pre \<noteq> [] \<and> drop first q' \<noteq> [] \<longrightarrow> ef_frame_id (last pre) \<noteq> ef_frame_id (hd (drop first q')))
     \<and> (length q \<le> kMaxVideoQueued \<longrightarrow> pre = [])"
proof (induction first q arbitrary: q' n rule: trim_queue.induct)
  case (1 first q)
  show ?case
  proof (cases "length q \<le> kMaxVideoQueued \<or> length q \<le> first")
    case True
    then show ?thesis using "1.prems" by (simp add: trim_queue.simps [of first q])
  next
    case False
    let ?P = "\<lambda>f. ef_frame_id f = ef_frame_id (q ! first)"
    let ?rest = "dropWhile ?P (drop first q)"
    obtain m where d: "trim_queue first (take first q @ ?rest) = (q', m)" "n = length q - first - length ?rest + m"
      using "1.prems" False by (auto simp: trim_queue.simps [of first q] Let_def split: prod.splits)
    have lf: "length (take first q) = first" using False by simp
    obtain pre where pre: "take first q @ ?rest = take first q @ pre @ drop first q'" "take first q' = take first q"
      "m = length pre" "length q' \<le> kMaxVideoQueued \<or> length q' \<le> first"
      "pre \<noteq> [] \<and> drop first q' \<noteq> [] \<longrightarrow> ef_frame_id (last pre) \<noteq> ef_frame_id (hd (drop first q'))"
      using "1.IH" [OF False refl refl refl d(1)] lf by (auto simp: take_append)
    let ?pre = "takeWhile ?P (drop first q) @ pre"
    have rest: "?rest = pre @ drop first q'" using pre(1) by simp
    have q: "q = take first q @ ?pre @ drop first q'"
      using rest by (metis append.assoc append_take_drop_id takeWhile_dropWhile_id)
    have "length (drop first q) = length (takeWhile ?P (drop first q)) + length ?rest"
      by (metis length_append takeWhile_dropWhile_id)
    then have n: "n = length ?pre" using d(2) pre(3) by simp
    have "ef_frame_id (last ?pre) \<noteq> ef_frame_id (hd (drop first q'))" if "?pre \<noteq> []" "drop first q' \<noteq> []"
    proof (cases "pre = []")
      case True
      then have "takeWhile ?P (drop first q) \<noteq> []" using that by simp
      then have "?P (last (takeWhile ?P (drop first q)))" using last_in_set set_takeWhileD by fast
      moreover have "\<not> ?P (hd (drop first q'))" using rest True that(2) hd_dropWhile [of ?P "drop first q"] by simp
      ultimately show ?thesis using True by simp
    qed (use pre(5) that in simp)
    with q n pre(2,4) False show ?thesis by blast
  qed
qed

section \<open>The frame being sent is the front of the queue\<close>

lemma pump_loop_keeps: "pump_loop we now sk s = (evs, s', r) \<Longrightarrow> ps_frame s' = ps_frame s \<and> ps_data s' = ps_data s \<and> ps_active s' = ps_active s"
proof (induction we now sk s arbitrary: evs rule: pump_loop.induct)
  case (1 we now sk s)
  show ?case
  proof (cases "ps_offset s < length (ps_data s)")
    case True
    obtain evs1 s1 r1 where b: "pump_body we now sk s = (evs1, s1, r1)" by (metis prod_cases3)
    have k: "ps_frame s1 = ps_frame s \<and> ps_data s1 = ps_data s \<and> ps_active s1 = ps_active s"
      using b by (cases rule: pump_body_cases) simp_all
    show ?thesis
    proof (cases r1)
      case Continue
      then obtain evs2 where "pump_loop we now sk s1 = (evs2, s', r)"
        using 1(2) True b by (auto simp: pump_loop.simps [of we now sk s] split: prod.splits)
      with 1(1) [OF True b [unfolded Continue, symmetric] refl refl] Continue k show ?thesis by auto
    qed (use 1(2) True b k in \<open>simp_all add: pump_loop.simps [of we now sk s]\<close>)
  qed (use 1(2) in \<open>simp add: pump_loop.simps [of we now sk s]\<close>)
qed

lemma send_parity_keeps':
  "send_parity we sk s = (par, s') \<Longrightarrow> ps_frame s' = ps_frame s \<and> ps_data s' = ps_data s"
  using send_parity_keeps [of we sk s par s'] by blast

lemma pump_keeps: "pump we now sk s = (evs, s', r) \<Longrightarrow> ps_frame s' = ps_frame s \<and> ps_data s' = ps_data s"
  by (auto simp: pump_def Let_def dest!: pump_loop_keeps send_parity_keeps' split: if_splits prod.splits pump_end.splits)

definition sender_front :: "('g, 'p) headset_session \<Rightarrow> bool" where
  "sender_front s \<longleftrightarrow> (ps_active (sn_sender s) \<longrightarrow> sn_queue s \<noteq> [] \<and> ps_data (sn_sender s) = ef_data (hd (sn_queue s))
     \<and> of_frame_index (ps_frame (sn_sender s)) = ef_frame_id (hd (sn_queue s))
     \<and> of_stream_index (ps_frame (sn_sender s)) = ef_stream_index (hd (sn_queue s)))"

lemma start_if_idle_front:
  assumes "sender_front s" and "sn_queue s \<noteq> []" and "ps_active (sn_sender s) \<or> ef_data (hd (sn_queue s)) \<noteq> []"
  shows "sender_front (start_if_idle sv we now s)" "ps_active (sn_sender (start_if_idle sv we now s))"
  using assms
  by (auto simp: start_if_idle_def begin_video_frame_def sender_begin_def out_frame_of_def sender_front_def Let_def
      split: prod.splits)

lemma pump_sender_front:
  assumes "pump_sender sv we throws now stamp s = (r, s')" and "sender_front s" and "ps_active (sn_sender s)"
  shows "sender_front s'"
  using assms by (auto simp: pump_sender_def emit_def sender_front_def dest: pump_keeps split: prod.splits)

definition accounted :: "('g, 'p) headset_session \<Rightarrow> u64" where
  "accounted s = ct_frames_sent (sn_counters s) + ct_frames_dropped (sn_counters s) + ct_send_errors (sn_counters s)
     + of_nat (length (sn_queue s))"

text \<open>What a run of the loop leaves: all done, or a frame in the sender whose next burst lies in the future.\<close>

definition pumped :: "time_ns \<Rightarrow> ('g, 'p) headset_session \<Rightarrow> bool" where
  "pumped now s \<longleftrightarrow> (sn_queue s = [] \<and> \<not> ps_active (sn_sender s) \<and> sn_next_video_due s = 0)
     \<or> (ps_active (sn_sender s) \<and> sender_front s \<and> now < sn_next_video_due s)"

lemma pump_inactive: "pump we now sk s = (evs, s', Some t) \<Longrightarrow> \<not> ps_active s' \<Longrightarrow> t = 0"
  by (auto simp: pump_def Let_def dest: pump_loop_keeps split: if_splits prod.splits pump_end.splits)

lemma start_if_idle_fields [simp]:
  "sn_counters (start_if_idle sv we now s) = sn_counters s" "sn_next_video_due (start_if_idle sv we now s) = sn_next_video_due s"
  by (simp_all add: start_if_idle_def begin_video_frame_def Let_def split: prod.split)

lemma pump_sender_fields:
  "pump_sender sv we throws now stamp s = (r, s') \<Longrightarrow> sn_counters s' = sn_counters s \<and> sn_next_video_due s' = sn_next_video_due s"
  by (auto simp: pump_sender_def emit_def split: prod.splits)

lemma pump_frames_result:
  assumes "sender_front s" and "sn_next_video_due s = 0" and "0 \<le> now"
  shows "pumped now (pump_frames sv we throws now stamp s)
    \<and> length (sn_queue (pump_frames sv we throws now stamp s)) \<le> length (sn_queue s)
    \<and> (list_all (\<lambda>f. ef_data f \<noteq> []) (sn_queue s) \<longrightarrow> accounted (pump_frames sv we throws now stamp s) = accounted s)"
  using assms
proof (induction sv we throws now stamp s rule: pump_frames.induct)
  case (1 sv we throws now stamp s)
  let ?r = "pump_frames sv we throws now stamp"
  consider (idle) "\<not> ps_active (sn_sender s)" "sn_queue s = []"
    | (empty) "\<not> ps_active (sn_sender s)" "sn_queue s \<noteq> []" "ef_data (hd (sn_queue s)) = []"
    | (go) "sn_queue s \<noteq> []" "ps_active (sn_sender s) \<or> ef_data (hd (sn_queue s)) \<noteq> []"
    using "1.prems"(1) by (auto simp: sender_front_def)
  then show ?case
  proof cases
    case idle
    then have "?r s = s" by (simp add: pump_frames.simps)
    with idle "1.prems"(2) show ?thesis by (simp add: pumped_def)
  next
    case empty
    then have r: "?r s = ?r (s\<lparr>sn_queue := tl (sn_queue s)\<rparr>)" by (subst pump_frames.simps) simp
    have "\<not> list_all (\<lambda>f. ef_data f \<noteq> []) (sn_queue s)" using empty by (cases "sn_queue s") auto
    moreover have "sender_front (s\<lparr>sn_queue := tl (sn_queue s)\<rparr>)" using empty(1) by (simp add: sender_front_def)
    ultimately show ?thesis using "1.IH"(1) empty "1.prems"(2,3) unfolding r by auto
  next
    case go
    obtain x s' where p: "pump_sender sv we throws now stamp (start_if_idle sv we now s) = (x, s')" by fastforce
    note st = start_if_idle_front [OF "1.prems"(1) go, of sv we now]
    have q: "sn_queue s' = sn_queue s" using pump_sender_queue [OF p] by simp
    have f: "sn_counters s' = sn_counters s" "sn_next_video_due s' = 0"
      using pump_sender_fields [OF p] "1.prems"(2) by simp_all
    note front = pump_sender_front [OF p st]
    have not_empty: "\<not> (\<not> ps_active (sn_sender s) \<and> sn_queue s = [])"
      "\<not> (\<not> ps_active (sn_sender s) \<and> ef_data (hd (sn_queue s)) = [])" using go by auto
    have shorter: "Suc (length (tl (sn_queue s))) = length (sn_queue s)" using go(1) by (cases "sn_queue s") simp_all
    have tl_data: "list_all (\<lambda>f. ef_data f \<noteq> []) (sn_queue s) \<Longrightarrow> list_all (\<lambda>f. ef_data f \<noteq> []) (tl (sn_queue s))"
      by (cases "sn_queue s") simp_all
    have count: "of_nat (length (tl (sn_queue s))) + 1 = (of_nat (length (sn_queue s)) :: u64)"
      using shorter by (metis add.commute of_nat_Suc)
    show ?thesis
    proof (cases x)
      case None
      then have r: "?r s = ?r (drop_failed s')" using not_empty p by (subst pump_frames.simps) auto
      have "sender_front (drop_failed s')" by (simp add: sender_front_def)
      moreover have "sn_next_video_due (drop_failed s') = 0" using f by (simp add: drop_failed_def)
      moreover have "accounted (drop_failed s') = accounted s"
        using f(1) q count by (simp add: accounted_def drop_failed_def algebra_simps)
      ultimately show ?thesis
        using "1.IH"(2) [OF not_empty p [symmetric] None] "1.prems"(3) tl_data shorter q unfolding r by auto
    next
      case (Some due)
      show ?thesis
      proof (cases "now < due")
        case True
        then have r: "?r s = s'\<lparr>sn_next_video_due := due\<rparr>" using not_empty p Some by (subst pump_frames.simps) auto
        have "ps_active (sn_sender s')"
        proof (rule ccontr)
          assume "\<not> ps_active (sn_sender s')"
          then have "due = 0" using p Some by (auto simp: pump_sender_def emit_def dest: pump_inactive split: prod.splits)
          with True "1.prems"(3) show False by simp
        qed
        with front True q f show ?thesis unfolding r by (simp add: pumped_def sender_front_def accounted_def)
      next
        case False
        then have idle': "\<not> ps_active (sn_sender s')" using pump_sender_due [of sv we throws now stamp _ due s'] p Some by blast
        then have r: "?r s = ?r (finish_video_frame now s')" using not_empty p Some False idle' by (subst pump_frames.simps) auto
        have "sender_front (finish_video_frame now s')" using idle' by (simp add: sender_front_def)
        moreover have "sn_next_video_due (finish_video_frame now s') = 0" using f by (simp add: finish_video_frame_def Let_def)
        moreover have "accounted (finish_video_frame now s') = accounted s"
          using f(1) q count by (simp add: accounted_def finish_video_frame_def Let_def algebra_simps)
        ultimately show ?thesis
          using "1.IH"(4) [OF not_empty p [symmetric] Some False idle'] "1.prems"(3) tl_data shorter q unfolding r by auto
      qed
    qed
  qed
qed

lemma take_video_result:
  assumes "sender_front s" and "length (sn_queue s) \<le> kMaxVideoQueued"
  shows "sender_front (take_video s)" "length (sn_queue (take_video s)) \<le> kMaxVideoQueued"
    "accounted (take_video s) = accounted s + of_nat (length (vb_frames (sn_video s)))"
    "set (sn_queue (take_video s)) \<subseteq> set (sn_queue s @ vb_frames (sn_video s))"
proof -
  define first :: nat where "first = (if ps_active (sn_sender s) then 1 else 0)"
  let ?fs = "vb_frames (sn_video s)"
  obtain q n where d: "trim_queue first (sn_queue s @ ?fs) = (q, n)" by fastforce
  from trim_queue_spec [OF d] obtain pre where pre: "sn_queue s @ ?fs = take first (sn_queue s @ ?fs) @ pre @ drop first q"
    "take first q = take first (sn_queue s @ ?fs)" "n = length pre" "length q \<le> kMaxVideoQueued \<or> length q \<le> first" by blast
  have bound: "length q \<le> kMaxVideoQueued" using pre(4) by (auto simp: kMaxVideoQueued_def first_def split: if_splits)
  have q: "sn_queue s @ ?fs = take first q @ pre @ drop first q" by (subst pre(2)) (rule pre(1))
  have len: "length (sn_queue s) + length ?fs = length q + n"
    using arg_cong [OF q, of length] pre(3) by (simp add: first_def)
  then have len': "(of_nat (length (sn_queue s)) :: u64) + of_nat (length ?fs) = of_nat (length q) + of_nat n"
    by (metis of_nat_add)
  have sub: "set q \<subseteq> set (sn_queue s @ ?fs)"
    unfolding q using set_append [of "take first q" "drop first q"] by auto
  have hd: "hd q = hd (sn_queue s)" "q \<noteq> []" if "ps_active (sn_sender s)"
    using that pre(2) assms(1) by (cases q; cases "sn_queue s"; simp add: sender_front_def first_def)+
  show "sender_front (take_video s)"
    using assms(1) d hd unfolding first_def by (auto simp: take_video_def take_frames_def sender_front_def Let_def)
  show "length (sn_queue (take_video s)) \<le> kMaxVideoQueued"
    using assms(2) d bound unfolding first_def by (simp add: take_video_def take_frames_def Let_def)
  show "accounted (take_video s) = accounted s + of_nat (length (vb_frames (sn_video s)))"
    using d len' unfolding first_def
    by (cases "vb_frames (sn_video s) = []") (simp_all add: take_video_def take_frames_def Let_def accounted_def algebra_simps)
  show "set (sn_queue (take_video s)) \<subseteq> set (sn_queue s @ vb_frames (sn_video s))"
    using d sub unfolding first_def by (auto simp: take_video_def take_frames_def Let_def)
qed


definition plain_wire :: "(view_info, timing_info, unit, unit) wire_env" where
  "plain_wire = \<lparr>we_serialized_size = (\<lambda>v. if v = None then 1 else 100), we_shard_payload_budget = (\<lambda>fec. 1400),
     we_group_reset = (\<lambda>i f g. g), we_group_add = (\<lambda>sh g. g), we_group_take = (\<lambda>g. (None, g)),
     we_block_full = (\<lambda>g. False), we_parity_size = (\<lambda>p. 0)\<rparr>"

definition plain_env :: session_env where
  "plain_env = \<lparr>sv_is_finite = is_num, sv_data_share = Num (8 / 9), sv_tan = (\<lambda>x. x), sv_send_ok = (\<lambda>n. True),
     sv_frequency = 10000000\<rparr>"

definition busy_session :: "(unit, unit) headset_session" where
  "busy_session = session_new () True (bridge_new (dec_hmd_config (replicate 104 0)))
     (video_bridge_new\<lparr>vb_frames := map (\<lambda>i. (eye i 0)\<lparr>ef_data := [1, 2, 3]\<rparr>) [1, 2, 3]\<rparr>)"


end
