(* ===== verification/Session_Transport.thy ===== *)
theory Session_Transport
  imports Session_State Bitrate_Safety
begin

text \<open>
  What the session tells the encoder thread and the shim: that the encoder runs
  at the session's share of the controller's bitrate whatever the headset
  reports, the one kind of message that breaks it, and that no degenerate view
  frustum reaches SteamVR.
\<close>

section \<open>Messages\<close>

datatype transport_msg =
    MInfo headset_info
  | MSettings settings
  | MRefresh fp
  | MFeedback feedback time_ns
  | MWifi bool int int time_ns

fun transport_step :: "session_env \<Rightarrow> ('g, 'p) headset_session \<Rightarrow> transport_msg \<Rightarrow> ('g, 'p) headset_session" where
  "transport_step sv s (MInfo info) = on_headset_info sv info s"
| "transport_step sv s (MSettings st) = on_settings sv st s"
| "transport_step sv s (MRefresh to) = on_refresh_rate_changed sv to s"
| "transport_step sv s (MFeedback f now) = session_feedback sv f now s"
| "transport_step sv s (MWifi valid rssi speed now) = on_wifi_packet sv valid rssi speed now s"

text \<open>The messages that change the frame rate on their own.\<close>

fun rate_change :: "('g, 'p) headset_session \<Rightarrow> transport_msg \<Rightarrow> bool" where
  "rate_change s (MSettings st) \<longleftrightarrow> fp_lt (Num 1) (se_refresh st) \<and> \<not> fp_eq (se_refresh st) (sn_refresh_hz s)"
| "rate_change s (MRefresh to) \<longleftrightarrow> fp_lt (Num 1) to"
| "rate_change s _ \<longleftrightarrow> False"

fun steady :: "session_env \<Rightarrow> ('g, 'p) headset_session \<Rightarrow> transport_msg list \<Rightarrow> bool" where
  "steady sv s [] \<longleftrightarrow> True"
| "steady sv s (m # msgs) \<longleftrightarrow> \<not> rate_change s m \<and> steady sv (transport_step sv s m) msgs"

section \<open>The encoder follows the controller\<close>

text \<open>The bitrate the encoder should have: the controller's, less the share of the parity shards.\<close>

definition encoder_share :: "session_env \<Rightarrow> bool \<Rightarrow> u32 \<Rightarrow> u32" where
  "encoder_share sv fec b = word_of_int (fp_to_u32 (fp_mul F64 (fp_of_int F64 (uint b)) (if fec then sv_data_share sv else Num 1)))"

definition in_step :: "session_env \<Rightarrow> ('g, 'p) headset_session \<Rightarrow> bool" where
  "in_step sv s \<longleftrightarrow> vr_active (vb_request (sn_video s)) \<and>
     (bc_bitrate (sn_bitrate s) \<noteq> 0 \<longrightarrow> encoder_share sv (sn_fec_enabled s) (bc_bitrate (sn_bitrate s)) \<noteq> 0
      \<longrightarrow> vr_bitrate_bps (vb_request (sn_video s)) = encoder_share sv (sn_fec_enabled s) (bc_bitrate (sn_bitrate s)))"

lemma set_bitrate_result:
  "vr_active (vb_request (set_bitrate b v)) = vr_active (vb_request v)"
  "vr_active (vb_request v) \<Longrightarrow> b \<noteq> 0 \<Longrightarrow> vr_bitrate_bps (vb_request (set_bitrate b v)) = b"
  by (auto simp: set_bitrate_def Let_def)

lemma apply_bitrate_keeps [simp]:
  "sn_bitrate (apply_bitrate sv b s) = sn_bitrate s" "sn_fec_enabled (apply_bitrate sv b s) = sn_fec_enabled s"
  "sn_bridge (apply_bitrate sv b s) = sn_bridge s" "sn_info (apply_bitrate sv b s) = sn_info s"
  "sn_refresh_hz (apply_bitrate sv b s) = sn_refresh_hz s" "sn_stream (apply_bitrate sv b s) = sn_stream s"
  "sn_pacing_enabled (apply_bitrate sv b s) = sn_pacing_enabled s"
  by (simp_all add: apply_bitrate_def split: option.split)

lemma apply_current: "vr_active (vb_request (sn_video s)) \<Longrightarrow> in_step sv (apply_bitrate sv (Some (bc_bitrate (sn_bitrate s))) s)"
  by (auto simp: in_step_def apply_bitrate_def encoder_share_def set_bitrate_result)

lemma apply_returned:
  assumes "in_step sv s" and "applied (bc_bitrate (sn_bitrate s)) b = bc_bitrate bc"
  shows "in_step sv (apply_bitrate sv b (s\<lparr>sn_bitrate := bc\<rparr>))"
proof (cases b)
  case None
  then show ?thesis using assms by (simp add: in_step_def apply_bitrate_def applied_def)
next
  case (Some x)
  then have "bc_bitrate bc = x" using assms(2) by (simp add: applied_def)
  with Some assms(1) show ?thesis
    using apply_current [of "s\<lparr>sn_bitrate := bc\<rparr>" sv] by (simp add: in_step_def)
qed

lemma in_step_frame:
  "in_step sv s \<Longrightarrow> vr_active (vb_request (sn_video s')) = vr_active (vb_request (sn_video s))
     \<Longrightarrow> vr_bitrate_bps (vb_request (sn_video s')) = vr_bitrate_bps (vb_request (sn_video s))
     \<Longrightarrow> bc_bitrate (sn_bitrate s') = bc_bitrate (sn_bitrate s) \<Longrightarrow> sn_fec_enabled s' = sn_fec_enabled s \<Longrightarrow> in_step sv s'"
  by (simp add: in_step_def)

lemma ask_idr_keeps [simp]:
  "vr_active (vb_request (sn_video (ask_idr s))) = vr_active (vb_request (sn_video s))"
  "vr_bitrate_bps (vb_request (sn_video (ask_idr s))) = vr_bitrate_bps (vb_request (sn_video s))"
  "sn_bitrate (ask_idr s) = sn_bitrate s" "sn_fec_enabled (ask_idr s) = sn_fec_enabled s"
  "sn_refresh_hz (ask_idr s) = sn_refresh_hz s" "sn_bridge (ask_idr s) = sn_bridge s"
  by (simp_all add: ask_idr_def request_idr_def)

lemma call_step:
  assumes "bc_inv c" and "\<not> is_configure e" and "bc_perform e c = (b, c')"
  shows "applied (bc_bitrate c) b = bc_bitrate c'" "bc_inv c'"
  using call_applied [OF assms(1,2)] bc_step_inv [OF assms(1), of e] assms(3) by (simp_all add: bc_step_def)

lemma feedback_in_step:
  assumes "bc_inv (sn_bitrate s)" and "in_step sv s"
  shows "in_step sv (session_feedback sv f now s)" "bc_inv (sn_bitrate (session_feedback sv f now s))"
proof -
  obtain lost idr where i: "idr_on_feedback f now (sn_idr s) = (lost, idr)" by fastforce
  define s1 where "s1 = (let s = s\<lparr>sn_idr := idr\<rparr> in if lost then ask_idr s else s)"
  have b1: "sn_bitrate s1 = sn_bitrate s" by (simp add: s1_def Let_def)
  have s1: "in_step sv s1" by (rule in_step_frame [OF assms(2)]) (simp_all add: s1_def Let_def)
  obtain b bc where r: "on_feedback f (frame_period_ns s1) True now (sn_bitrate s1) = (b, bc)" by fastforce
  have e: "session_feedback sv f now s = apply_bitrate sv b (s1\<lparr>sn_bitrate := bc\<rparr>)"
    using r by (simp add: session_feedback_def i s1_def Let_def)
  note c = call_step [OF assms(1), of "Feedback f (frame_period_ns s1) True now" b bc]
  show "in_step sv (session_feedback sv f now s)" unfolding e using c(1) r b1 by (intro apply_returned s1) simp
  show "bc_inv (sn_bitrate (session_feedback sv f now s))" unfolding e using c(2) r b1 by simp
qed

lemma wifi_in_step:
  assumes "bc_inv (sn_bitrate s)" and "in_step sv s"
  shows "in_step sv (on_wifi_packet sv valid rssi speed now s)" "bc_inv (sn_bitrate (on_wifi_packet sv valid rssi speed now s))"
proof -
  obtain b bc where r: "on_wifi_state rssi speed now (sn_bitrate s) = (b, bc)" by fastforce
  note c = call_step [OF assms(1), of "WifiState rssi speed now" b bc]
  show "in_step sv (on_wifi_packet sv valid rssi speed now s)"
    using assms(2) apply_returned [OF assms(2), of b bc] c(1) r
    by (auto simp: on_wifi_packet_def intro: in_step_frame)
  show "bc_inv (sn_bitrate (on_wifi_packet sv valid rssi speed now s))"
    using assms(1) c(2) r by (simp add: on_wifi_packet_def)
qed

text \<open>The settings handler, part by part.\<close>

definition good :: "session_env \<Rightarrow> ('g, 'p) headset_session \<Rightarrow> bool" where
  "good sv s \<longleftrightarrow> bc_inv (sn_bitrate s) \<and> in_step sv s"

lemma good_apply:
  assumes "good sv s" and "bc_perform e (sn_bitrate s) = (b, bc)" and "\<not> is_configure e"
  shows "good sv (apply_bitrate sv b (s\<lparr>sn_bitrate := bc\<rparr>))"
  using assms call_step [OF _ assms(3,2)] apply_returned [of sv s b bc] by (simp add: good_def)

lemma good_silent:
  assumes "good sv s" and "bc_perform e (sn_bitrate s) = (None, bc)" and "\<not> is_configure e"
    and "sn_bitrate s' = bc" and "sn_video s' = sn_video s" and "sn_fec_enabled s' = sn_fec_enabled s"
  shows "good sv s'"
  using assms call_step [OF _ assms(3,2)] by (simp add: good_def in_step_def applied_def)

lemma good_radio: "good sv s \<Longrightarrow> good sv (settings_radio st s)"
  by (erule good_silent [where e = "SetRadioAware (vb_pref_adaptive (sn_video s) \<and> se_radio_aware st)"])
    (simp_all add: settings_radio_def)

lemma good_enabled: "good sv s \<Longrightarrow> good sv (settings_enabled sv st s)"
  unfolding settings_enabled_def
  by (auto split: prod.split intro!: good_apply [where e = "SetClientEnabled (vb_pref_adaptive (sn_video s) \<and> se_bitrate_auto st)"])

lemma good_mode: "good sv s \<Longrightarrow> good sv (settings_mode sv st s)"
  unfolding settings_mode_def
  by (auto split: prod.split intro!: good_apply [where e = "SetClientMode (se_bitrate_control st)"])

lemma good_pacing: "good sv s \<Longrightarrow> good sv (settings_pacing st s)"
  using good_silent [of sv s "SetPacingWindow (paced_window (vb_pref_adaptive (sn_video s) \<and> se_smooth_pacing st))" _
    "settings_pacing st s"]
  by (cases "(vb_pref_adaptive (sn_video s) \<and> se_smooth_pacing st) = sn_pacing_enabled s")
    (simp_all add: settings_pacing_def Let_def)

lemma good_fec: "good sv s \<Longrightarrow> good sv (settings_fec sv st s)"
proof -
  assume g: "good sv s"
  let ?fec = "vb_pref_adaptive (sn_video s) \<and> se_fec st \<and> sn_stream s"
  have "in_step sv (apply_bitrate sv (Some (bc_bitrate (sn_bitrate s))) (s\<lparr>sn_fec_enabled := ?fec\<rparr>))"
    using g apply_current [of "s\<lparr>sn_fec_enabled := ?fec\<rparr>" sv] by (simp add: good_def in_step_def)
  with g show ?thesis by (cases "?fec = sn_fec_enabled s") (simp_all add: settings_fec_def Let_def good_def)
qed

lemma good_settings:
  assumes "good sv s" and "\<not> rate_change s (MSettings st)"
  shows "good sv (on_settings sv st s)"
proof -
  have "good sv (settings_rate sv st s)" using assms by (auto simp: settings_rate_def good_def in_step_def)
  then show ?thesis by (simp add: on_settings_def good_radio good_enabled good_mode good_pacing good_fec)
qed

lemma publish_config_keeps [simp]:
  "sn_video (publish_config sv s) = sn_video s" "sn_bitrate (publish_config sv s) = sn_bitrate s"
  "sn_fec_enabled (publish_config sv s) = sn_fec_enabled s" "sn_refresh_hz (publish_config sv s) = sn_refresh_hz s"
  "sn_info (publish_config sv s) = sn_info s"
  by (simp_all add: publish_config_def)

lemma set_client_active: "vr_active (vb_request (set_client hz a b v))"
  by (simp add: set_client_def Let_def)

lemma set_client_bitrate: "vr_bitrate_bps (vb_request (set_client hz a b v)) = vb_pref_bitrate_bps v"
  by (simp add: set_client_def Let_def)

lemma good_info: "good sv (on_headset_info sv info s)"
proof -
  define s1 where "s1 = publish_video_request (publish_config sv (s\<lparr>sn_info := info, sn_have_info := True,
      sn_refresh_hz := (if fp_lt (Num 1) (se_refresh (hi_settings info)) then se_refresh (hi_settings info)
        else max_refresh (hi_refresh_rates info)),
      sn_standby_freeze := se_standby_freeze (hi_settings info)\<rparr>))"
  have act: "vr_active (vb_request (sn_video s1))" by (simp add: s1_def publish_video_request_def Let_def set_client_active)
  have inv: "bc_inv (set_pacing_window w (bc_configure conf ceil en radio m c))" for w conf ceil en radio m c
    using call_step(2) [OF configure_inv, of "SetPacingWindow w"] by simp
  show ?thesis
    unfolding on_headset_info_def s1_def [symmetric] configure_transport_def vb_prefs_def prod.case Let_def good_def
    using act inv by (intro conjI apply_current) simp_all
qed

lemma good_step: "good sv s \<Longrightarrow> \<not> rate_change s m \<Longrightarrow> good sv (transport_step sv s m)"
  using feedback_in_step [of s sv] wifi_in_step [of s sv] good_settings [of sv s] good_info [of sv]
  by (cases m) (simp_all add: good_def on_refresh_rate_changed_def)

text \<open>
  C18. The encoder follows the controller. From the moment the headset has
  described itself, and through any feedback, radio reports, settings changes
  and new descriptions that leave the frame rate alone, the encoder thread is
  asked for exactly the session's share of the controller's bitrate: the whole
  of it, or the data share while error correction is on.
\<close>

theorem encoder_follows_controller:
  assumes "steady sv (on_headset_info sv info s) msgs"
  shows "in_step sv (foldl (transport_step sv) (on_headset_info sv info s) msgs)"
proof -
  have "steady sv s' msgs \<Longrightarrow> good sv s' \<Longrightarrow> good sv (foldl (transport_step sv) s' msgs)" for s' :: "('a, 'b) headset_session"
    by (induction msgs arbitrary: s') (simp_all add: good_step)
  from this [OF assms good_info] show ?thesis by (simp add: good_def)
qed

text \<open>
  A change of the frame rate breaks it: the new request carries the
  command-line bitrate, the controller keeps its own, and nothing is applied.
  A stream throttled to less than the ceiling is back at the ceiling, without
  the share for parity, until the controller's next decision.
\<close>

theorem refresh_change_restores_ceiling:
  assumes "fp_lt (Num 1) hz"
  shows "vr_bitrate_bps (vb_request (sn_video (on_refresh_rate_changed sv hz s))) = vb_pref_bitrate_bps (sn_video s)
    \<and> sn_bitrate (on_refresh_rate_changed sv hz s) = sn_bitrate s
    \<and> sn_fec_enabled (on_refresh_rate_changed sv hz s) = sn_fec_enabled s"
  using assms
  by (simp add: on_refresh_rate_changed_def set_refresh_def publish_video_request_def Let_def set_client_bitrate)

section \<open>The frustum\<close>

text \<open>The four edges of one eye, as they stand in the message: numbers, left of right, top above bottom.\<close>

definition edges_ok :: "u32 \<Rightarrow> u32 \<Rightarrow> u32 \<Rightarrow> u32 \<Rightarrow> bool" where
  "edges_ok l r t b \<longleftrightarrow> (\<exists>x y u v. l = f32_bits (Num x) \<and> r = f32_bits (Num y) \<and> x < y
     \<and> t = f32_bits (Num u) \<and> b = f32_bits (Num v) \<and> u < v)"

definition config_ok :: "hmd_config \<Rightarrow> bool" where
  "config_ok c \<longleftrightarrow> hc_eye_width c \<noteq> 0 \<and> hc_eye_height c \<noteq> 0
     \<and> edges_ok (fst (hc_proj_left c)) (fst (hc_proj_right c)) (fst (hc_proj_top c)) (fst (hc_proj_bottom c))
     \<and> edges_ok (snd (hc_proj_left c)) (snd (hc_proj_right c)) (snd (hc_proj_top c)) (snd (hc_proj_bottom c))"

lemma frustum_edges:
  assumes "\<And>x. sv_is_finite sv x \<Longrightarrow> is_num x" and "frustum_sane sv f"
  shows "edges_ok (f32_bits (fr_left f)) (f32_bits (fr_right f)) (f32_bits (fr_top f)) (f32_bits (fr_bottom f))"
proof -
  have "is_num (fr_left f)" "is_num (fr_right f)" "is_num (fr_top f)" "is_num (fr_bottom f)"
    using assms by (simp_all add: frustum_sane_def)
  then obtain x y u v where f: "fr_left f = Num x" "fr_right f = Num y" "fr_top f = Num u" "fr_bottom f = Num v"
    by (meson is_num.elims(2))
  then have "x < y" "u < v" using assms(2) by (simp_all add: frustum_sane_def)
  with f show ?thesis unfolding edges_ok_def by auto
qed

lemma publish_config_ok:
  assumes "\<And>x. sv_is_finite sv x \<Longrightarrow> is_num x" and "config_ok (br_config (sn_bridge s))"
  shows "config_ok (br_config (sn_bridge (publish_config sv s)))"
proof (cases "sn_have_info s \<and> config_sane sv s")
  case True
  then have "config_ok (config_of sv s)"
    using frustum_edges [OF assms(1), where f = "frustum_of sv (fst (current_fovs s))"]
      frustum_edges [OF assms(1), where f = "frustum_of sv (snd (current_fovs s))"]
    by (simp add: config_ok_def config_of_def config_sane_def Let_def word_gt_0)
  with True assms(2) show ?thesis by (simp add: publish_config_def set_config_def)
qed (use assms(2) in \<open>auto simp: publish_config_def\<close>)

lemma transport_bridge:
  "sn_bridge (settings_radio st s) = sn_bridge s" "sn_bridge (settings_enabled sv st s) = sn_bridge s"
  "sn_bridge (settings_mode sv st s) = sn_bridge s" "sn_bridge (settings_pacing st s) = sn_bridge s"
  "sn_bridge (settings_fec sv st s) = sn_bridge s" "sn_bridge (publish_video_request s) = sn_bridge s"
  "sn_bridge (configure_transport sv s) = sn_bridge s" "sn_bridge (session_feedback sv f now s) = sn_bridge s"
  "sn_bridge (on_wifi_packet sv valid rssi speed now s) = sn_bridge s"
  by (simp_all add: settings_radio_def settings_enabled_def settings_mode_def settings_pacing_def settings_fec_def
      publish_video_request_def configure_transport_def session_feedback_def on_wifi_packet_def Let_def split: prod.splits)

text \<open>Every handler of this theory publishes through \<^verbatim>\<open>publish_config\<close> or leaves the bridge alone.\<close>

lemma transport_config_ok:
  assumes "\<And>x. sv_is_finite sv x \<Longrightarrow> is_num x" and "config_ok (br_config (sn_bridge s))"
  shows "config_ok (br_config (sn_bridge (transport_step sv s m)))"
proof (cases m)
  case (MInfo info)
  then show ?thesis using assms(2) by (simp add: on_headset_info_def transport_bridge publish_config_ok [OF assms(1)])
next
  case (MSettings st)
  then show ?thesis using assms(2)
    by (simp add: on_settings_def transport_bridge settings_rate_def set_refresh_def publish_config_ok [OF assms(1)] Let_def)
next
  case (MRefresh to)
  then show ?thesis using assms(2)
    by (simp add: on_refresh_rate_changed_def set_refresh_def transport_bridge publish_config_ok [OF assms(1)])
qed (use assms(2) in \<open>simp_all add: transport_bridge\<close>)

section \<open>Examples\<close>

definition demo_env :: session_env where
  "demo_env = \<lparr>sv_is_finite = is_num, sv_data_share = Num (8 / 9), sv_tan = (\<lambda>x. x), sv_send_ok = (\<lambda>n. True),
     sv_frequency = 10000000\<rparr>"

definition demo_session :: "(unit, unit) headset_session" where
  "demo_session = session_new () True (bridge_new (dec_hmd_config (replicate 104 0))) video_bridge_new"

theorem encoder_follows_controller_witness:
  "in_step demo_env (foldl (transport_step demo_env) (on_headset_info demo_env headset_info_zero demo_session)
     [MWifi False 0 0 0, MRefresh (Num 1)])"
  by (rule encoder_follows_controller) simp

theorem refresh_change_restores_ceiling_witness:
  "vr_bitrate_bps (vb_request (sn_video (on_refresh_rate_changed demo_env (Num 72)
     (demo_session\<lparr>sn_bitrate := bitrate_controller_new\<lparr>bc_bitrate := 20000000\<rparr>\<rparr>)))) = 50000000
   \<and> bc_bitrate (sn_bitrate (on_refresh_rate_changed demo_env (Num 72)
     (demo_session\<lparr>sn_bitrate := bitrate_controller_new\<lparr>bc_bitrate := 20000000\<rparr>\<rparr>))) = 20000000"
  using refresh_change_restores_ceiling [of "Num 72" demo_env
      "demo_session\<lparr>sn_bitrate := bitrate_controller_new\<lparr>bc_bitrate := 20000000\<rparr>\<rparr>"]
  by (simp add: demo_session_def session_new_def video_bridge_new_def)

end
