(* ===== verification/Session_Input.thy ===== *)
theory Session_Input
  imports Session_State
begin

text \<open>
  What the headset's poses and controls become on their way to SteamVR, and
  the haptic pulses that go the other way: \<^verbatim>\<open>on_tracking\<close>, \<^verbatim>\<open>on_inputs\<close> and
  \<^verbatim>\<open>pump_haptics\<close> of \<^verbatim>\<open>helper/src/wivrn/session.cpp\<close>, with their tables. The
  theorems say that only finite poses reach the bridge, that a pressed bit is
  the headset's last word on the button, how a touched bit can stay behind, and
  that pulses leave in order and within bounds.
\<close>

unbundle bit_operations_syntax

section \<open>Tables\<close>

definition ipc_device_for :: "device_id \<Rightarrow> nat option" where
  "ipc_device_for d = (case d of DiHead \<Rightarrow> Some 0 | DiLeftGrip \<Rightarrow> Some 1 | DiRightGrip \<Rightarrow> Some 2 | _ \<Rightarrow> None)"

record button_mapping =
  bm_id :: device_id
  bm_device :: nat
  bm_button :: button
  bm_touch :: bool

definition mapping_of :: "device_id \<times> nat \<times> button \<times> bool \<Rightarrow> button_mapping" where
  "mapping_of e = (case e of (i, d, b, t) \<Rightarrow> \<lparr>bm_id = i, bm_device = d, bm_button = b, bm_touch = t\<rparr>)"

definition kButtons :: "button_mapping list" where
  "kButtons = map mapping_of
    [(DiXClick, 1, BtX, False), (DiXTouch, 1, BtX, True),
     (DiYClick, 1, BtY, False), (DiYTouch, 1, BtY, True),
     (DiMenuClick, 1, BtMenu, False),
     (DiLeftTriggerClick, 1, BtTriggerClick, False), (DiLeftTriggerTouch, 1, BtTriggerTouch, True),
     (DiLeftSqueezeClick, 1, BtGripClick, False),
     (DiLeftStickClick, 1, BtStickClick, False), (DiLeftStickTouch, 1, BtStickTouch, True),
     (DiAClick, 2, BtA, False), (DiATouch, 2, BtA, True),
     (DiBClick, 2, BtB, False), (DiBTouch, 2, BtB, True),
     (DiSystemClick, 2, BtSystem, False),
     (DiRightTriggerClick, 2, BtTriggerClick, False), (DiRightTriggerTouch, 2, BtTriggerTouch, True),
     (DiRightSqueezeClick, 2, BtGripClick, False),
     (DiRightStickClick, 2, BtStickClick, False), (DiRightStickTouch, 2, BtStickTouch, True)]"

section \<open>Poses\<close>

record device_pose =
  dp_device :: device_id
  dp_pose :: tracking_pose

record tracking =
  tk_production_timestamp :: int
  tk_timestamp :: int
  tk_views :: "view \<times> view"
  tk_device_poses :: "device_pose list"

definition usable_view :: "session_env \<Rightarrow> view \<Rightarrow> bool" where
  "usable_view sv v \<longleftrightarrow> is_valid_orientation (sv_is_finite sv) (ps_orientation (vw_pose v))
     \<and> is_finite_vec (sv_is_finite sv) (ps_position (vw_pose v))"

definition take_views :: "session_env \<Rightarrow> view \<times> view \<Rightarrow> ('g, 'p) headset_session \<Rightarrow> ('g, 'p) headset_session" where
  "take_views sv vs s =
     (if \<not> sn_have_views s \<or> sn_views s \<noteq> vs
      then (if usable_view sv (fst vs) \<and> usable_view sv (snd vs)
            then publish_config sv (s\<lparr>sn_views := vs, sn_have_views := True\<rparr>) else s)
      else s)"

definition pose_update_of :: "u64 \<Rightarrow> nat \<Rightarrow> pose_result \<Rightarrow> pose_update" where
  "pose_update_of time_qpc device r =
     (let q = pr_orientation r; p = pr_position r; v = pr_linear_velocity r; w = pr_angular_velocity r
      in \<lparr>pu_time_qpc = time_qpc, pu_device = of_nat device, pu_connected = (if pr_usable r then 1 else 0), pu_pad = 0,
          pu_qw = f64_bits (q_w q), pu_qx = f64_bits (q_x q), pu_qy = f64_bits (q_y q), pu_qz = f64_bits (q_z q),
          pu_px = f64_bits (v_x p), pu_py = f64_bits (v_y p), pu_pz = f64_bits (v_z p),
          pu_vx = f64_bits (v_x v), pu_vy = f64_bits (v_y v), pu_vz = f64_bits (v_z v),
          pu_wx = f64_bits (v_x w), pu_wy = f64_bits (v_y w), pu_wz = f64_bits (v_z w)\<rparr>)"

definition publish_pose :: "session_env \<Rightarrow> u64 \<Rightarrow> int \<Rightarrow> device_pose \<Rightarrow> ('g, 'p) headset_session \<Rightarrow> ('g, 'p) headset_session" where
  "publish_pose sv time_qpc production dp s =
     (case ipc_device_for (dp_device dp) of None \<Rightarrow> s
      | Some i \<Rightarrow> (case sanitize (sv_is_finite sv) (dp_pose dp) production (sn_standby_freeze s) (sn_sanitizers s ! i) of
          (r, sz) \<Rightarrow>
            let b = set_pose (pose_update_of time_qpc i r) (sn_bridge s)
            in s\<lparr>sn_sanitizers := (sn_sanitizers s)[i := sz],
                 sn_bridge := (if pr_usable r then set_present (of_nat i) True b else b)\<rparr>))"

text \<open>\<open>now\<close> is the reading of \<^verbatim>\<open>monotonic_ns()\<close>, used until the clocks have locked.\<close>

definition on_tracking :: "session_env \<Rightarrow> tracking \<Rightarrow> int \<Rightarrow> ('g, 'p) headset_session \<Rightarrow> ('g, 'p) headset_session" where
  "on_tracking sv t now s =
     (let s = take_views sv (tk_views t) (on_counters (\<lambda>c. c\<lparr>ct_tracking := ct_tracking c + 1\<rparr>) s);
          offset = get_offset (sn_clock s);
          time_qpc = ns_to_qpc (sv_frequency sv) (if co_stable offset then from_headset offset (tk_timestamp t) else now)
      in fold (publish_pose sv time_qpc (tk_production_timestamp t)) (tk_device_poses t) s)"

section \<open>Controls\<close>

definition apply_button :: "button_mapping \<Rightarrow> fp \<Rightarrow> input_update \<Rightarrow> input_update" where
  "apply_button m v st =
     (let b = button_mask (bm_button m); on = (\<not> fp_eq v (Num 0));
          put = (\<lambda>field. if on then field OR b else field AND NOT b);
          st = (if bm_touch m then st\<lparr>iu_touched := put (iu_touched st)\<rparr> else st\<lparr>iu_pressed := put (iu_pressed st)\<rparr>)
      in if \<not> bm_touch m \<and> on then st\<lparr>iu_touched := iu_touched st OR b\<rparr> else st)"

datatype axis = AxTrigger | AxGrip | AxStickX | AxStickY

definition axis_of :: "device_id \<Rightarrow> (nat \<times> axis) option" where
  "axis_of d = (case d of
      DiLeftTriggerValue \<Rightarrow> Some (1, AxTrigger) | DiRightTriggerValue \<Rightarrow> Some (2, AxTrigger)
    | DiLeftSqueezeValue \<Rightarrow> Some (1, AxGrip) | DiRightSqueezeValue \<Rightarrow> Some (2, AxGrip)
    | DiLeftStickX \<Rightarrow> Some (1, AxStickX) | DiLeftStickY \<Rightarrow> Some (1, AxStickY)
    | DiRightStickX \<Rightarrow> Some (2, AxStickX) | DiRightStickY \<Rightarrow> Some (2, AxStickY)
    | _ \<Rightarrow> None)"

fun set_axis :: "axis \<Rightarrow> u32 \<Rightarrow> input_update \<Rightarrow> input_update" where
  "set_axis AxTrigger w st = st\<lparr>iu_trigger := w\<rparr>"
| "set_axis AxGrip w st = st\<lparr>iu_grip := w\<rparr>"
| "set_axis AxStickX w st = st\<lparr>iu_thumbstick_x := w\<rparr>"
| "set_axis AxStickY w st = st\<lparr>iu_thumbstick_y := w\<rparr>"

definition apply_axis :: "session_env \<Rightarrow> axis \<Rightarrow> fp \<Rightarrow> input_update \<Rightarrow> input_update" where
  "apply_axis sv ax v st = (if sv_is_finite sv v then set_axis ax (f32_bits v) st else st)"

text \<open>One value of the packet, on the per-device state and the flags of the devices it touched.\<close>

definition apply_value ::
    "session_env \<Rightarrow> device_id \<times> fp \<Rightarrow> input_update list \<times> bool list \<Rightarrow> input_update list \<times> bool list" where
  "apply_value sv value acc = (case value of (i, v) \<Rightarrow> case acc of (states, touched) \<Rightarrow>
     case find (\<lambda>m. bm_id m = i) kButtons of
       Some m \<Rightarrow> (states[bm_device m := apply_button m v (states ! bm_device m)], touched[bm_device m := True])
     | None \<Rightarrow> (case axis_of i of
           Some (d, ax) \<Rightarrow> (states[d := apply_axis sv ax v (states ! d)], touched[d := True])
         | None \<Rightarrow> (states, touched)))"

definition publish_input :: "u64 \<Rightarrow> bool list \<Rightarrow> nat \<Rightarrow> ('g, 'p) headset_session \<Rightarrow> ('g, 'p) headset_session" where
  "publish_input time_qpc touched i s =
     (if \<not> touched ! i then s
      else let st = (sn_input_state s ! i)\<lparr>iu_time_qpc := time_qpc, iu_device := of_nat i\<rparr>
        in s\<lparr>sn_input_state := (sn_input_state s)[i := st], sn_bridge := set_input st (sn_bridge s)\<rparr>)"

definition on_inputs :: "session_env \<Rightarrow> (device_id \<times> fp) list \<Rightarrow> int \<Rightarrow> ('g, 'p) headset_session \<Rightarrow> ('g, 'p) headset_session" where
  "on_inputs sv values now s =
     (case fold (apply_value sv) values (sn_input_state s, replicate kDeviceCount False) of (states, touched) \<Rightarrow>
       fold (publish_input (ns_to_qpc (sv_frequency sv) now) touched) [1..<kDeviceCount]
         (on_counters (\<lambda>c. c\<lparr>ct_inputs := ct_inputs c + 1\<rparr>) (s\<lparr>sn_input_state := states\<rparr>)))"

section \<open>Haptics\<close>

definition haptic_target :: "u8 \<Rightarrow> device_id option" where
  "haptic_target d = (if d = 1 then Some DiLeftHaptic else if d = 2 then Some DiRightHaptic else None)"

definition haptic_packet :: "session_env \<Rightarrow> haptic \<Rightarrow> 'p headset_msg option" where
  "haptic_packet sv h =
     (case haptic_target (ha_device h) of None \<Rightarrow> None
      | Some i \<Rightarrow>
          let d = f32_of (ha_duration_s h); f = f32_of (ha_frequency_hz h); a = f32_of (ha_amplitude h)
          in if \<not> (sv_is_finite sv d \<and> sv_is_finite sv f \<and> sv_is_finite sv a) then None
             else Some (ThHaptics i (fp_to_i64 (fp_clamp (fp_mul F64 d (Num 1000000000)) (Num 0) (Num 5000000000))) f
                    (fp_clamp a (Num 0) (Num 1))))"

lemma send_control_bridge: "(ok, s') = send_control sv p s \<Longrightarrow> sn_bridge s' = sn_bridge s"
  by (auto simp: send_control_def split: if_splits)

lemma pop_shorter: "(Some h, b') = pop_haptic b \<Longrightarrow> length (br_haptics b') < length (br_haptics b)"
  by (auto simp: pop_haptic_def split: list.splits)

text \<open>The loop ends because every turn takes a pulse out of the bridge.\<close>

function pump_haptics :: "session_env \<Rightarrow> ('g, 'p) headset_session \<Rightarrow> bool \<times> ('g, 'p) headset_session" where
  "pump_haptics sv s =
     (case pop_haptic (sn_bridge s) of
        (None, b) \<Rightarrow> (True, s)
      | (Some h, b) \<Rightarrow> (case haptic_packet sv h of
            None \<Rightarrow> pump_haptics sv (s\<lparr>sn_bridge := b\<rparr>)
          | Some p \<Rightarrow> (case send_control sv p (s\<lparr>sn_bridge := b\<rparr>) of
                (False, s1) \<Rightarrow> (False, s1)
              | (True, s1) \<Rightarrow> pump_haptics sv s1)))"
  by pat_completeness auto

termination
  by (relation "measure (\<lambda>(sv, s). length (br_haptics (sn_bridge s)))") (auto simp: pop_shorter dest: send_control_bridge)

declare pump_haptics.simps [simp del]

section \<open>Pulses leave in order and within bounds\<close>

fun haptic_ok :: "'p headset_msg \<Rightarrow> bool" where
  "haptic_ok (ThHaptics i d f a) \<longleftrightarrow> (i = DiLeftHaptic \<or> i = DiRightHaptic) \<and> 0 \<le> d \<and> d \<le> 5000000000 \<and> is_num f
     \<and> (\<exists>x. a = Num x \<and> 0 \<le> x \<and> x \<le> 1)"
| "haptic_ok _ \<longleftrightarrow> False"

lemma clamp_num: "is_num x \<or> (\<exists>s. x = Inf s) \<Longrightarrow> lo \<le> hi \<Longrightarrow> \<exists>y. fp_clamp x (Num lo) (Num hi) = Num y \<and> lo \<le> y \<and> y \<le> hi"
  by (cases x) (auto simp: fp_clamp_def)

lemma trunc_range: "0 \<le> x \<Longrightarrow> x \<le> 5000000000 \<Longrightarrow> 0 \<le> fp_to_i64 (Num x) \<and> fp_to_i64 (Num x) \<le> 5000000000"
proof -
  assume "0 \<le> x" "x \<le> 5000000000"
  then have "0 \<le> \<lfloor>x\<rfloor>" "\<lfloor>x\<rfloor> \<le> \<lfloor>5000000000 :: rat\<rfloor>" by (simp, intro floor_mono)
  then have "0 \<le> \<lfloor>x\<rfloor>" "\<lfloor>x\<rfloor> \<le> 5000000000" by simp_all
  with \<open>0 \<le> x\<close> show ?thesis by (simp add: trunc_def)
qed

lemma haptic_packet_ok:
  assumes "\<And>x. sv_is_finite sv x \<Longrightarrow> is_num x" and "haptic_packet sv h = Some p"
  shows "haptic_ok p"
proof -
  let ?d = "f32_of (ha_duration_s h)" and ?f = "f32_of (ha_frequency_hz h)" and ?a = "f32_of (ha_amplitude h)"
  obtain i where i: "haptic_target (ha_device h) = Some i" and "sv_is_finite sv ?d \<and> sv_is_finite sv ?f \<and> sv_is_finite sv ?a"
    and p: "p = ThHaptics i (fp_to_i64 (fp_clamp (fp_mul F64 ?d (Num 1000000000)) (Num 0) (Num 5000000000))) ?f
        (fp_clamp ?a (Num 0) (Num 1))"
    using assms(2) by (auto simp: haptic_packet_def Let_def split: option.splits if_splits)
  then have num: "is_num ?d" "is_num ?f" "is_num ?a" using assms(1) by blast+
  then have "is_num (fp_mul F64 ?d (Num 1000000000)) \<or> (\<exists>s. fp_mul F64 ?d (Num 1000000000) = Inf s)"
    by (cases ?d) (simp_all add: round_fp_def Let_def)
  from clamp_num [OF this, of 0 5000000000] obtain y where
    "fp_clamp (fp_mul F64 ?d (Num 1000000000)) (Num 0) (Num 5000000000) = Num y" "0 \<le> y" "y \<le> 5000000000" by auto
  moreover obtain z where "fp_clamp ?a (Num 0) (Num 1) = Num z" "0 \<le> z" "z \<le> 1"
    using clamp_num [of ?a 0 1] num by auto
  ultimately show ?thesis using i num trunc_range [of y] by (auto simp: p haptic_target_def split: if_splits)
qed

lemma pump_haptics_Nil: "br_haptics (sn_bridge s) = [] \<Longrightarrow> pump_haptics sv s = (True, s)"
  by (subst pump_haptics.simps) (simp add: pop_haptic_def)

lemma pump_haptics_Cons:
  "br_haptics (sn_bridge s) = h # hs \<Longrightarrow> pump_haptics sv s =
     (case haptic_packet sv h of
        None \<Rightarrow> pump_haptics sv (s\<lparr>sn_bridge := (sn_bridge s)\<lparr>br_haptics := hs\<rparr>\<rparr>)
      | Some p \<Rightarrow> if sv_send_ok sv (length (sn_out s))
          then pump_haptics sv (s\<lparr>sn_bridge := (sn_bridge s)\<lparr>br_haptics := hs\<rparr>, sn_out := sn_out s @ [(Control, p)]\<rparr>)
          else (False, s\<lparr>sn_bridge := (sn_bridge s)\<lparr>br_haptics := hs\<rparr>\<rparr>))"
  by (subst pump_haptics.simps) (simp add: pop_haptic_def send_control_def split: option.split)

lemma pump_haptics_spec:
  "br_haptics (sn_bridge s) = hs \<Longrightarrow> pump_haptics sv s = (ok, s') \<Longrightarrow>
     \<exists>n \<le> length hs. s' = s\<lparr>sn_bridge := (sn_bridge s)\<lparr>br_haptics := drop (if ok then n else Suc n) hs\<rparr>,
         sn_out := sn_out s @ map (Pair Control) (List.map_filter (haptic_packet sv) (take n hs))\<rparr>
       \<and> (ok \<longrightarrow> n = length hs)"
proof (induction hs arbitrary: s)
  case Nil
  then show ?case by (auto simp: pump_haptics_Nil)
next
  case (Cons h hs)
  let ?s = "s\<lparr>sn_bridge := (sn_bridge s)\<lparr>br_haptics := hs\<rparr>\<rparr>"
  note unroll = Cons.prems(2) [unfolded pump_haptics_Cons [OF Cons.prems(1)]]
  show ?case
  proof (cases "haptic_packet sv h :: 'b headset_msg option")
    case None
    from unroll None have "pump_haptics sv ?s = (ok, s')" by simp
    from Cons.IH [OF _ this] obtain n where "n \<le> length hs" "ok \<longrightarrow> n = length hs"
      "s' = ?s\<lparr>sn_bridge := (sn_bridge ?s)\<lparr>br_haptics := drop (if ok then n else Suc n) hs\<rparr>,
         sn_out := sn_out ?s @ map (Pair Control) (List.map_filter (haptic_packet sv) (take n hs))\<rparr>" by auto
    with None show ?thesis by (intro exI [of _ "Suc n"]) (simp add: map_filter_simps)
  next
    case (Some p)
    let ?s1 = "?s\<lparr>sn_out := sn_out s @ [(Control, p)]\<rparr>"
    show ?thesis
    proof (cases "sv_send_ok sv (length (sn_out s))")
      case True
      with unroll Some have "pump_haptics sv ?s1 = (ok, s')" by simp
      from Cons.IH [OF _ this] obtain n where "n \<le> length hs" "ok \<longrightarrow> n = length hs"
        "s' = ?s1\<lparr>sn_bridge := (sn_bridge ?s1)\<lparr>br_haptics := drop (if ok then n else Suc n) hs\<rparr>,
           sn_out := sn_out ?s1 @ map (Pair Control) (List.map_filter (haptic_packet sv) (take n hs))\<rparr>" by auto
      with Some show ?thesis by (intro exI [of _ "Suc n"]) (simp add: map_filter_simps)
    next
      case False
      with unroll Some show ?thesis by (intro exI [of _ 0]) (auto simp: map_filter_simps)
    qed
  qed
qed

text \<open>
  Pulses leave in order and within bounds: a turn of the loop sends, on
  the control socket, the packets of the queued pulses from the oldest on, all
  of them and the queue is empty unless the socket fails. Whatever SteamVR
  asked for, each is for a controller, lasts between zero and five seconds and
  has an amplitude between zero and one; a pulse with a NaN or an infinity in
  it is left out.
\<close>

theorem haptics_in_order:
  assumes "\<And>x. sv_is_finite sv x \<Longrightarrow> is_num x" and "pump_haptics sv s = (ok, s')"
  shows "\<exists>n sent. sn_out s' = sn_out s @ map (Pair Control) sent
    \<and> sent = List.map_filter (haptic_packet sv) (take n (br_haptics (sn_bridge s)))
    \<and> list_all haptic_ok sent \<and> (ok \<longrightarrow> n = length (br_haptics (sn_bridge s)) \<and> br_haptics (sn_bridge s') = [])"
proof -
  obtain n where "s' = s\<lparr>sn_bridge := (sn_bridge s)\<lparr>br_haptics := drop (if ok then n else Suc n) (br_haptics (sn_bridge s))\<rparr>,
      sn_out := sn_out s @ map (Pair Control) (List.map_filter (haptic_packet sv) (take n (br_haptics (sn_bridge s))))\<rparr>"
    and "ok \<longrightarrow> n = length (br_haptics (sn_bridge s))" using pump_haptics_spec [OF refl assms(2)] by blast
  moreover have "list_all haptic_ok (List.map_filter (haptic_packet sv) hs)" for hs
    using haptic_packet_ok [OF assms(1)] by (induction hs) (auto simp: map_filter_simps split: option.split)
  ultimately show ?thesis by (intro exI conjI) auto
qed

section \<open>Buttons\<close>

text \<open>
  The table: an id names one entry, an entry has a bit of its own in its field,
  and every entry is of a controller.
\<close>

definition table_ok :: "button_mapping \<Rightarrow> bool" where
  "table_ok m \<longleftrightarrow> find (\<lambda>m'. bm_id m' = bm_id m) kButtons = Some m \<and> 0 < bm_device m \<and> bm_device m < kDeviceCount
     \<and> list_all (\<lambda>m'. bm_device m' = bm_device m \<longrightarrow> bm_touch m' = bm_touch m \<longrightarrow>
         button_shift (bm_button m') = button_shift (bm_button m) \<longrightarrow> bm_id m' = bm_id m) kButtons"

lemma table_sound: "m \<in> set kButtons \<Longrightarrow> table_ok m"
proof -
  have "list_all table_ok kButtons" by code_simp
  then show "m \<in> set kButtons \<Longrightarrow> table_ok m" by (simp add: list_all_iff)
qed

lemma table_find: "find (\<lambda>m'. bm_id m' = i) kButtons = Some m \<Longrightarrow> m \<in> set kButtons \<and> bm_id m = i"
  by (auto simp: find_Some_iff)

lemma button_mask_bit [simp]: "bit (button_mask b) n \<longleftrightarrow> n = button_shift b"
proof -
  have "button_shift b < 32" by (cases b) simp_all
  then show ?thesis by (auto simp: button_mask_def bit_exp_iff)
qed

lemma apply_button_bits:
  "bit (iu_pressed (apply_button m v st)) n =
     (if \<not> bm_touch m \<and> n = button_shift (bm_button m) then \<not> fp_eq v (Num 0) else bit (iu_pressed st) n)"
  "bit (iu_touched (apply_button m v st)) n =
     (if n = button_shift (bm_button m) \<and> (bm_touch m \<or> \<not> fp_eq v (Num 0)) then \<not> fp_eq v (Num 0) else bit (iu_touched st) n)"
proof -
  have "n < 32" if "n = button_shift (bm_button m)" using that by (cases "bm_button m") simp_all
  then show "bit (iu_pressed (apply_button m v st)) n =
      (if \<not> bm_touch m \<and> n = button_shift (bm_button m) then \<not> fp_eq v (Num 0) else bit (iu_pressed st) n)"
    "bit (iu_touched (apply_button m v st)) n =
     (if n = button_shift (bm_button m) \<and> (bm_touch m \<or> \<not> fp_eq v (Num 0)) then \<not> fp_eq v (Num 0) else bit (iu_touched st) n)"
    using bit_imp_le_length [of "iu_pressed st" n] bit_imp_le_length [of "iu_touched st" n]
    by (auto simp: apply_button_def Let_def bit_or_iff bit_and_iff bit_not_iff)
qed

lemma apply_axis_bits [simp]:
  "iu_pressed (apply_axis sv ax v st) = iu_pressed st" "iu_touched (apply_axis sv ax v st) = iu_touched st"
  by (cases ax; simp add: apply_axis_def)+

definition pressed_bit :: "button_mapping \<Rightarrow> input_update list \<Rightarrow> bool" where
  "pressed_bit m states = bit (iu_pressed (states ! bm_device m)) (button_shift (bm_button m))"

definition touched_bit :: "button_mapping \<Rightarrow> input_update list \<Rightarrow> bool" where
  "touched_bit m states = bit (iu_touched (states ! bm_device m)) (button_shift (bm_button m))"

lemma axis_device: "axis_of i = Some (d, ax) \<Longrightarrow> 0 < d \<and> d < kDeviceCount"
  by (auto simp: axis_of_def kDeviceCount_def split: device_id.splits)

lemma update_bits: "g (f (xs ! d)) = g (xs ! d) \<Longrightarrow> g (xs[d := f (xs ! d)] ! k) = g (xs ! k)"
  by (cases "d < length xs"; cases "k = d") (simp_all add: list_update_beyond)

lemma mark_kept: "ts ! d \<Longrightarrow> ts[k := True] ! d"
  by (cases "k < length ts"; cases "k = d") (simp_all add: list_update_beyond)

lemma axis_bits:
  "iu_pressed (states[a := apply_axis sv ax v (states ! a)] ! k) = iu_pressed (states ! k)"
  "iu_touched (states[a := apply_axis sv ax v (states ! a)] ! k) = iu_touched (states ! k)"
  by (rule update_bits, simp)+

text \<open>One value: its own bit, and no other.\<close>

lemma apply_value_pressed:
  assumes "m \<in> set kButtons" and "\<not> bm_touch m" and "length states = kDeviceCount"
  shows "pressed_bit m (fst (apply_value sv (i, v) (states, touched)))
    = (if i = bm_id m then \<not> fp_eq v (Num 0) else pressed_bit m states)"
proof (cases "find (\<lambda>m'. bm_id m' = i) kButtons")
  case (Some m')
  have t: "table_ok m" using assms(1) by (rule table_sound)
  have m': "m' \<in> set kButtons" "bm_id m' = i" using table_find [OF Some] by simp_all
  have same: "m' = m" if "i = bm_id m" using t Some that by (simp add: table_ok_def)
  have other: "bm_id m' = bm_id m" if "bm_device m' = bm_device m" "\<not> bm_touch m'"
    "button_shift (bm_button m') = button_shift (bm_button m)"
    using t m'(1) that assms(2) by (simp add: table_ok_def list_all_iff)
  have d: "bm_device m < length states" using t assms(3) by (simp add: table_ok_def)
  have step: "fst (apply_value sv (i, v) (states, touched)) = states[bm_device m' := apply_button m' v (states ! bm_device m')]"
    by (simp add: apply_value_def Some)
  show ?thesis
  proof (cases "bm_device m' = bm_device m")
    case True
    then show ?thesis unfolding pressed_bit_def step using d same other m'(2) assms(2)
      by (cases "i = bm_id m") (auto simp: apply_button_bits(1))
  next
    case False
    then show ?thesis unfolding pressed_bit_def step using same by auto
  qed
next
  case None
  then have "i \<noteq> bm_id m" using assms(1) by (auto simp: find_None_iff)
  then show ?thesis using None by (simp add: apply_value_def pressed_bit_def axis_bits split: option.split prod.split)
qed

lemma apply_value_lengths:
  "length (fst (apply_value sv x acc)) = length (fst acc)" "length (snd (apply_value sv x acc)) = length (snd acc)"
  by (cases x; cases acc; simp add: apply_value_def split: option.split)+

lemma fold_value_lengths:
  "length (fst (fold (apply_value sv) xs acc)) = length (fst acc)" "length (snd (fold (apply_value sv) xs acc)) = length (snd acc)"
  by (induction xs arbitrary: acc) (simp_all add: apply_value_lengths)

lemma fold_value_pressed:
  assumes "m \<in> set kButtons" and "\<not> bm_touch m"
  shows "bm_id m \<notin> fst ` set xs \<Longrightarrow> length (fst acc) = kDeviceCount
    \<Longrightarrow> pressed_bit m (fst (fold (apply_value sv) xs acc)) = pressed_bit m (fst acc)"
proof (induction xs arbitrary: acc)
  case (Cons x xs)
  obtain i v where x: "x = (i, v)" by (cases x)
  obtain st tc where acc: "acc = (st, tc)" by (cases acc)
  have "i \<noteq> bm_id m" "length st = kDeviceCount" using Cons.prems by (auto simp: x acc)
  then have "pressed_bit m (fst (apply_value sv x acc)) = pressed_bit m (fst acc)"
    using apply_value_pressed [OF assms, of st sv i v tc] by (simp add: x acc)
  then show ?case using Cons.IH [of "apply_value sv x acc"] Cons.prems by (simp add: apply_value_lengths)
qed simp

text \<open>The flags: a value's device is marked, and no mark is lost.\<close>

lemma fold_value_marks: "d < length (snd acc) \<Longrightarrow> snd acc ! d \<Longrightarrow> snd (fold (apply_value sv) xs acc) ! d"
proof (induction xs arbitrary: acc)
  case (Cons x xs)
  have "snd (apply_value sv x acc) ! d"
    using Cons.prems by (cases x; cases acc) (auto simp: apply_value_def mark_kept split: option.split)
  then show ?case using Cons.IH [of "apply_value sv x acc"] Cons.prems(1) by (simp add: apply_value_lengths)
qed simp

lemma apply_value_mark:
  "m \<in> set kButtons \<Longrightarrow> bm_device m < length (snd acc) \<Longrightarrow> snd (apply_value sv (bm_id m, v) acc) ! bm_device m"
  using table_sound [of m] by (cases acc) (simp add: apply_value_def table_ok_def)

text \<open>Publishing: the devices that were marked, each with its own state.\<close>

lemma publish_input_other:
  "d \<noteq> i \<Longrightarrow> i < kDeviceCount \<Longrightarrow> br_input (sn_bridge (publish_input q touched i s)) ! d = br_input (sn_bridge s) ! d"
  "d \<noteq> i \<Longrightarrow> sn_input_state (publish_input q touched i s) ! d = sn_input_state s ! d"
  "length (sn_input_state (publish_input q touched i s)) = length (sn_input_state s)"
  "length (br_input (sn_bridge (publish_input q touched i s))) = length (br_input (sn_bridge s))"
  by (auto simp: publish_input_def set_input_def Let_def kDeviceCount_def unat_of_nat take_bit_nat_eq_self_iff)

lemma publish_input_self:
  assumes "touched ! i" and "i < kDeviceCount" and "length (sn_input_state s) = kDeviceCount"
    and "length (br_input (sn_bridge s)) = kDeviceCount"
  shows "br_input (sn_bridge (publish_input q touched i s)) ! i = (sn_input_state s ! i)\<lparr>iu_time_qpc := q, iu_device := of_nat i\<rparr>"
    "sn_input_state (publish_input q touched i s) ! i = (sn_input_state s ! i)\<lparr>iu_time_qpc := q, iu_device := of_nat i\<rparr>"
proof -
  have "i = 0 \<or> i = 1 \<or> i = 2" using assms(2) by (auto simp: kDeviceCount_def)
  then have "unat (of_nat i :: u8) = i" by auto
  then show "br_input (sn_bridge (publish_input q touched i s)) ! i = (sn_input_state s ! i)\<lparr>iu_time_qpc := q, iu_device := of_nat i\<rparr>"
    "sn_input_state (publish_input q touched i s) ! i = (sn_input_state s ! i)\<lparr>iu_time_qpc := q, iu_device := of_nat i\<rparr>"
    using assms by (simp_all add: publish_input_def set_input_def Let_def)
qed

definition inputs_wf :: "('g, 'p) headset_session \<Rightarrow> bool" where
  "inputs_wf s \<longleftrightarrow> length (sn_input_state s) = kDeviceCount \<and> length (br_input (sn_bridge s)) = kDeviceCount"

lemma on_inputs_device:
  assumes "inputs_wf s" and "0 < d" and "d < kDeviceCount"
    and "fold (apply_value sv) xs (sn_input_state s, replicate kDeviceCount False) = (states, touched)"
  shows "touched ! d \<Longrightarrow> br_input (sn_bridge (on_inputs sv xs now s)) ! d
      = (states ! d)\<lparr>iu_time_qpc := ns_to_qpc (sv_frequency sv) now, iu_device := of_nat d\<rparr>
    \<and> sn_input_state (on_inputs sv xs now s) ! d
      = (states ! d)\<lparr>iu_time_qpc := ns_to_qpc (sv_frequency sv) now, iu_device := of_nat d\<rparr>"
    and "\<not> touched ! d \<Longrightarrow> br_input (sn_bridge (on_inputs sv xs now s)) ! d = br_input (sn_bridge s) ! d
    \<and> sn_input_state (on_inputs sv xs now s) ! d = states ! d"
    and "inputs_wf (on_inputs sv xs now s)"
proof -
  let ?q = "ns_to_qpc (sv_frequency sv) now"
  define s0 where "s0 = on_counters (\<lambda>c. c\<lparr>ct_inputs := ct_inputs c + 1\<rparr>) (s\<lparr>sn_input_state := states\<rparr>)"
  have l: "length (sn_input_state s0) = kDeviceCount" "length (br_input (sn_bridge s0)) = kDeviceCount"
    using assms(1,4) fold_value_lengths(1) [of sv xs "(sn_input_state s, replicate kDeviceCount False)"]
    by (simp_all add: s0_def inputs_wf_def)
  have turns: "[1..<kDeviceCount] = [1, 2]" by code_simp
  have e: "on_inputs sv xs now s = publish_input ?q touched 2 (publish_input ?q touched 1 s0)"
    using assms(4) unfolding on_inputs_def turns by (simp add: s0_def)
  have k: "(1 :: nat) < kDeviceCount" "(2 :: nat) < kDeviceCount" by (simp_all add: kDeviceCount_def)
  have idle: "publish_input q touched i s' = s'" if "\<not> touched ! i" for q i and s' :: "('a, 'b) headset_session"
    using that by (simp add: publish_input_def)
  from assms(2,3) consider "d = 1" | "d = 2" by (force simp: kDeviceCount_def)
  note two = this
  show "touched ! d \<Longrightarrow> br_input (sn_bridge (on_inputs sv xs now s)) ! d
      = (states ! d)\<lparr>iu_time_qpc := ?q, iu_device := of_nat d\<rparr>
    \<and> sn_input_state (on_inputs sv xs now s) ! d = (states ! d)\<lparr>iu_time_qpc := ?q, iu_device := of_nat d\<rparr>"
    unfolding e by (rule two) (use l k in \<open>simp_all add: publish_input_other publish_input_self, simp_all add: s0_def\<close>)
  show "\<not> touched ! d \<Longrightarrow> br_input (sn_bridge (on_inputs sv xs now s)) ! d = br_input (sn_bridge s) ! d
    \<and> sn_input_state (on_inputs sv xs now s) ! d = states ! d"
    unfolding e by (rule two) (use l k in \<open>simp_all add: publish_input_other idle, simp_all add: s0_def\<close>)
  show "inputs_wf (on_inputs sv xs now s)"
    unfolding e inputs_wf_def using l by (simp add: publish_input_other)
qed

text \<open>
  C25. A pressed bit is the headset's last word on the button: after a packet
  of inputs, the state published for the controller has the bit of a button
  exactly when the last value the packet has for its click is not zero. The
  values before it, and those of every other control, do not matter.
\<close>

theorem pressed_follows_headset:
  assumes "inputs_wf s" and "m \<in> set kButtons" and "\<not> bm_touch m"
    and "xs = before @ (bm_id m, v) # after" and "bm_id m \<notin> fst ` set after"
  shows "pressed_bit m (br_input (sn_bridge (on_inputs sv xs now s))) \<longleftrightarrow> \<not> fp_eq v (Num 0)"
proof -
  obtain states touched where r: "fold (apply_value sv) xs (sn_input_state s, replicate kDeviceCount False) = (states, touched)"
    by fastforce
  define acc where "acc = fold (apply_value sv) before (sn_input_state s, replicate kDeviceCount False)"
  have l: "length (fst acc) = kDeviceCount" "length (snd acc) = kDeviceCount"
    using assms(1) by (simp_all add: acc_def fold_value_lengths inputs_wf_def)
  define mid where "mid = apply_value sv (bm_id m, v) acc"
  have lm: "length (fst mid) = kDeviceCount" "length (snd mid) = kDeviceCount" using l by (simp_all add: mid_def apply_value_lengths)
  have run: "(states, touched) = fold (apply_value sv) after mid" using r assms(4) by (simp add: mid_def acc_def)
  have t: "0 < bm_device m" "bm_device m < kDeviceCount" using table_sound [OF assms(2)] by (simp_all add: table_ok_def)
  have "snd mid ! bm_device m" unfolding mid_def using apply_value_mark [OF assms(2)] t l by simp
  then have mark: "touched ! bm_device m"
    using fold_value_marks [of "bm_device m" mid sv after] t lm unfolding run [symmetric] by simp
  have "pressed_bit m (fst mid) \<longleftrightarrow> \<not> fp_eq v (Num 0)"
    unfolding mid_def using apply_value_pressed [OF assms(2,3), of "fst acc" sv "bm_id m" v "snd acc"] l by simp
  then have "pressed_bit m states \<longleftrightarrow> \<not> fp_eq v (Num 0)"
    using fold_value_pressed [OF assms(2,3,5) lm(1), of sv] unfolding run [symmetric] by simp
  then show ?thesis using on_inputs_device(1) [OF assms(1) t r mark] by (simp add: pressed_bit_def)
qed

text \<open>The buttons without a touch sensor in the table.\<close>

definition touchless :: "button_mapping \<Rightarrow> bool" where
  "touchless m \<longleftrightarrow> list_all (\<lambda>m'. bm_touch m' \<longrightarrow> bm_device m' = bm_device m \<longrightarrow>
     button_shift (bm_button m') \<noteq> button_shift (bm_button m)) kButtons"

lemma sticky_value:
  assumes "touchless m" and "touched_bit m (fst acc)"
  shows "touched_bit m (fst (apply_value sv x acc))"
proof -
  obtain i v st tc where x: "x = (i, v)" and acc: "acc = (st, tc)" by (cases x, cases acc)
  show ?thesis
  proof (cases "find (\<lambda>m'. bm_id m' = i) kButtons")
    case None
    then show ?thesis using assms(2)
      by (simp add: x acc apply_value_def touched_bit_def axis_bits split: option.split prod.split)
  next
    case (Some m')
    have "\<not> bm_touch m' \<or> bm_device m' \<noteq> bm_device m \<or> button_shift (bm_button m') \<noteq> button_shift (bm_button m)"
      using assms(1) table_find [OF Some] by (auto simp: touchless_def list_all_iff)
    then show ?thesis using Some assms(2)
      by (cases "bm_device m' < length st"; cases "bm_device m' = bm_device m")
        (auto simp: x acc apply_value_def touched_bit_def apply_button_bits(2) list_update_beyond)
  qed
qed

lemma sticky_values: "touchless m \<Longrightarrow> touched_bit m (fst acc) \<Longrightarrow> touched_bit m (fst (fold (apply_value sv) xs acc))"
  by (induction xs arbitrary: acc) (simp_all add: sticky_value)

definition sticky :: "button_mapping \<Rightarrow> ('g, 'p) headset_session \<Rightarrow> bool" where
  "sticky m s \<longleftrightarrow> inputs_wf s \<and> touched_bit m (sn_input_state s) \<and> touched_bit m (br_input (sn_bridge s))"

lemma on_inputs_sticky:
  assumes "touchless m" and "m \<in> set kButtons" and "sticky m s"
  shows "sticky m (on_inputs sv xs now s)"
proof -
  obtain states touched where r: "fold (apply_value sv) xs (sn_input_state s, replicate kDeviceCount False) = (states, touched)"
    by fastforce
  have t: "0 < bm_device m" "bm_device m < kDeviceCount" using table_sound [OF assms(2)] by (simp_all add: table_ok_def)
  have wf: "inputs_wf s" using assms(3) by (simp add: sticky_def)
  have "touched_bit m states"
    using sticky_values [OF assms(1), of "(sn_input_state s, replicate kDeviceCount False)" sv xs] assms(3) r
    by (simp add: sticky_def)
  then show ?thesis
    using on_inputs_device [OF wf t r, of now] assms(3)
    by (cases "touched ! bm_device m") (simp_all add: sticky_def touched_bit_def)
qed

lemma press_touches:
  assumes "inputs_wf s" and "m \<in> set kButtons" and "\<not> bm_touch m" and "\<not> fp_eq v (Num 0)"
  shows "sticky m (on_inputs sv [(bm_id m, v)] now s)"
proof -
  have t: "table_ok m" using assms(2) by (rule table_sound)
  then have d: "0 < bm_device m" "bm_device m < kDeviceCount" by (simp_all add: table_ok_def)
  have r: "fold (apply_value sv) [(bm_id m, v)] (sn_input_state s, replicate kDeviceCount False)
      = ((sn_input_state s)[bm_device m := apply_button m v (sn_input_state s ! bm_device m)],
         (replicate kDeviceCount False)[bm_device m := True])"
    using t by (simp add: apply_value_def table_ok_def)
  show ?thesis
    using on_inputs_device(1,3) [OF assms(1) d r, of now] d assms
    by (simp add: sticky_def touched_bit_def apply_button_bits(2) inputs_wf_def)
qed

text \<open>
  A touched bit can stay behind: a click sets the touched bit of its
  button too, but for a button that reports no touch of its own (menu, system,
  trigger and grip click, stick click) nothing clears it again. Once pressed,
  the button is published as touched for the rest of the session, through any
  packets, its own release included.
\<close>

theorem touched_stays_behind:
  assumes "inputs_wf s" and "m \<in> set kButtons" and "touchless m" and "\<not> bm_touch m" and "\<not> fp_eq v (Num 0)"
  shows "touched_bit m (br_input (sn_bridge
    (fold (\<lambda>(xs, now). on_inputs sv xs now) packets (on_inputs sv [(bm_id m, v)] now s))))"
proof -
  have "sticky m s' \<Longrightarrow> sticky m (fold (\<lambda>(xs, now). on_inputs sv xs now) packets s')" for s' :: "('a, 'b) headset_session"
    by (induction packets arbitrary: s') (auto simp: on_inputs_sticky assms(2,3))
  from this [OF press_touches [OF assms(1,2,4,5)]] show ?thesis by (simp add: sticky_def)
qed

section \<open>Poses\<close>

text \<open>A word of the message that a receiver reads as a finite number.\<close>

definition finite_word :: "u64 \<Rightarrow> bool" where
  "finite_word w \<longleftrightarrow> is_num (bits_fp F64 (uint w))"

definition pose_ok :: "pose_update \<Rightarrow> bool" where
  "pose_ok p \<longleftrightarrow> list_all finite_word [pu_qw p, pu_qx p, pu_qy p, pu_qz p, pu_px p, pu_py p, pu_pz p,
     pu_vx p, pu_vy p, pu_vz p, pu_wx p, pu_wy p, pu_wz p]"

text \<open>No larger than a \<^verbatim>\<open>float\<close> can be.\<close>

fun small_fp :: "fp \<Rightarrow> bool" where
  "small_fp (Num a) \<longleftrightarrow> \<bar>a\<bar> \<le> fmax F32"
| "small_fp _ \<longleftrightarrow> True"

definition small_vec :: "vec3 \<Rightarrow> bool" where
  "small_vec v \<longleftrightarrow> small_fp (v_x v) \<and> small_fp (v_y v) \<and> small_fp (v_z v)"

definition small_quat :: "quat \<Rightarrow> bool" where
  "small_quat q \<longleftrightarrow> small_fp (q_x q) \<and> small_fp (q_y q) \<and> small_fp (q_z q) \<and> small_fp (q_w q)"

definition small_sample :: "tracking_pose \<Rightarrow> bool" where
  "small_sample p \<longleftrightarrow> small_vec (tp_position p) \<and> small_vec (tp_linear_velocity p) \<and> small_vec (tp_angular_velocity p)"

lemma small_round: "small_fp (round_fp F32 x)"
  by (simp add: round_fp_def Let_def)

lemma small_mul: "small_fp (fp_mul F32 x y)"
  by (cases x; cases y) (simp_all add: small_round del: fmax.simps)

lemma small_defaults [simp]: "small_quat quat_identity" "small_vec vec3_zero"
  by (simp_all add: small_quat_def small_vec_def quat_identity_def vec3_zero_def)

definition sz_good :: "pose_sanitizer \<Rightarrow> bool" where
  "sz_good s \<longleftrightarrow> sz_inv s \<and> small_quat (sz_last_orientation s) \<and> small_vec (sz_last_position s)"

lemma sanitize_small:
  assumes "small_sample p" and "small_quat (sz_last_orientation s)" and "small_vec (sz_last_position s)"
    and "sanitize is_finite p t freeze s = (r, s')"
  shows "small_quat (pr_orientation r) \<and> small_vec (pr_position r) \<and> small_vec (pr_linear_velocity r)
    \<and> small_vec (pr_angular_velocity r) \<and> small_quat (sz_last_orientation s') \<and> small_vec (sz_last_position s')"
proof -
  have "small_quat (normalize_orientation q)" for q
    by (simp add: normalize_orientation_def small_quat_def small_mul Let_def)
  then show ?thesis using assms
    by (cases "is_sane is_finite p")
      (auto simp: sanitize_def small_sample_def pose_result_new_def Let_def split: prod.splits)
qed

lemma finite_encoding:
  assumes "is_num x" and "small_fp x"
  shows "finite_word (f64_bits x)"
proof -
  obtain a where x: "x = Num a" using assms(1) by (cases x) simp_all
  have "\<bar>a\<bar> \<le> fmax F64" using assms(2) unfolding x by simp
  then show ?thesis unfolding x finite_word_def f64_bits_def by (rule encoding_finite)
qed

lemma pose_update_ok:
  assumes "finite_result r" and "small_quat (pr_orientation r)" and "small_vec (pr_position r)"
    and "small_vec (pr_linear_velocity r)" and "small_vec (pr_angular_velocity r)"
  shows "pose_ok (pose_update_of q i r)"
  using assms
  by (simp add: pose_ok_def pose_update_of_def Let_def finite_encoding finite_result_def finite_quat_def finite_vec_def
      small_quat_def small_vec_def)

definition poses_good :: "('g, 'p) headset_session \<Rightarrow> bool" where
  "poses_good s \<longleftrightarrow> list_all sz_good (sn_sanitizers s) \<and> length (sn_sanitizers s) = kDeviceCount
     \<and> list_all pose_ok (br_pose (sn_bridge s))"

lemma list_all_update: "list_all P xs \<Longrightarrow> P x \<Longrightarrow> list_all P (xs[i := x])"
  by (induction xs arbitrary: i) (simp_all split: nat.split)

lemma set_pose_ok: "pose_ok p \<Longrightarrow> list_all pose_ok (br_pose b) \<Longrightarrow> list_all pose_ok (br_pose (set_pose p b))"
  by (simp add: set_pose_def Let_def list_all_update)

lemma set_present_pose [simp]: "br_pose (set_present d p b) = br_pose b"
  by (simp add: set_present_def Let_def)

lemma publish_pose_good:
  assumes fin: "\<And>x. sv_is_finite sv x \<Longrightarrow> is_num x" and "small_sample (dp_pose dp)" and "poses_good s"
  shows "poses_good (publish_pose sv q t dp s)"
proof (cases "ipc_device_for (dp_device dp)")
  case None
  with assms(3) show ?thesis by (simp add: publish_pose_def)
next
  case (Some i)
  then have i: "i < length (sn_sanitizers s)"
    using assms(3) by (auto simp: ipc_device_for_def poses_good_def kDeviceCount_def split: device_id.splits)
  obtain r sz where r: "sanitize (sv_is_finite sv) (dp_pose dp) t (sn_standby_freeze s) (sn_sanitizers s ! i) = (r, sz)" by fastforce
  have "sz_good (sn_sanitizers s ! i)" using i assms(3) by (simp add: poses_good_def list_all_length)
  then have z: "sz_inv (sn_sanitizers s ! i)" "small_quat (sz_last_orientation (sn_sanitizers s ! i))"
    "small_vec (sz_last_position (sn_sanitizers s ! i))" by (simp_all add: sz_good_def)
  note f = sanitize_finite [OF fin z(1) r] and m = sanitize_small [OF assms(2) z(2,3) r]
  have "pose_ok (pose_update_of q i r)" using f m by (intro pose_update_ok) simp_all
  moreover have "sz_good sz" using f m by (simp add: sz_good_def)
  ultimately show ?thesis using assms(3) Some r
    by (simp add: poses_good_def publish_pose_def Let_def set_pose_ok list_all_update)
qed

lemma publish_poses_good:
  assumes "\<And>x. sv_is_finite sv x \<Longrightarrow> is_num x"
  shows "list_all (\<lambda>dp. small_sample (dp_pose dp)) dps \<Longrightarrow> poses_good s \<Longrightarrow> poses_good (fold (publish_pose sv q t) dps s)"
  by (induction dps arbitrary: s) (simp_all add: publish_pose_good [OF assms])

lemma take_views_good: "poses_good s \<Longrightarrow> poses_good (take_views sv vs s)"
  by (simp add: take_views_def publish_config_def poses_good_def set_config_def)

lemma on_tracking_good:
  assumes "\<And>x. sv_is_finite sv x \<Longrightarrow> is_num x" and "list_all (\<lambda>dp. small_sample (dp_pose dp)) (tk_device_poses t)"
    and "poses_good s"
  shows "poses_good (on_tracking sv t now s)"
proof -
  have "poses_good (take_views sv (tk_views t) (on_counters (\<lambda>c. c\<lparr>ct_tracking := ct_tracking c + 1\<rparr>) s))"
    using assms(3) by (intro take_views_good) (simp add: poses_good_def)
  then show ?thesis unfolding on_tracking_def Let_def by (intro publish_poses_good assms(1,2))
qed

lemma fresh_poses_good: "poses_good (session_new g stream (bridge_new c) v)"
proof -
  have "pose_ok (pose_zero\<lparr>pu_qw := double_one\<rparr>)" by code_simp
  then have "pose_ok (pose_zero\<lparr>pu_device := d, pu_connected := 0, pu_qw := double_one\<rparr>)" for d
    by (simp add: pose_ok_def)
  moreover have "sz_good pose_sanitizer_new" by (simp add: sz_good_def sz_inv_def pose_sanitizer_new_def)
  ultimately show ?thesis by (simp add: poses_good_def session_new_def bridge_new_def list_all_iff)
qed

text \<open>
  C20. Only finite poses reach SteamVR: whatever the headset sends for any
  device, in any number of tracking packets, every pose the bridge holds for
  the shim has thirteen words that read as finite numbers. This is the filter
  of the sanitizer carried through the widening to \<^verbatim>\<open>double\<close>, the message and
  the bridge.
\<close>

theorem published_poses_finite:
  assumes "\<And>x. sv_is_finite sv x \<Longrightarrow> is_num x"
    and "list_all (\<lambda>(t, now). list_all (\<lambda>dp. small_sample (dp_pose dp)) (tk_device_poses t)) packets"
  shows "list_all pose_ok (br_pose (sn_bridge
    (fold (\<lambda>(t, now). on_tracking sv t now) packets (session_new g stream (bridge_new c) v))))"
proof -
  have "poses_good s \<Longrightarrow> poses_good (fold (\<lambda>(t, now). on_tracking sv t now) packets s)" for s :: "('a, 'b) headset_session"
    using assms(2) by (induction packets arbitrary: s) (auto simp: on_tracking_good [OF assms(1)])
  from this [OF fresh_poses_good] show ?thesis by (simp add: poses_good_def)
qed

section \<open>Examples\<close>

definition input_env :: session_env where
  "input_env = \<lparr>sv_is_finite = is_num, sv_data_share = Num (8 / 9), sv_tan = (\<lambda>x. x), sv_send_ok = (\<lambda>n. True),
     sv_frequency = 10000000\<rparr>"

definition input_session :: "(unit, unit) headset_session" where
  "input_session = session_new () True (bridge_new (dec_hmd_config (replicate 104 0))) video_bridge_new"

definition menu_mapping :: button_mapping where
  "menu_mapping = \<lparr>bm_id = DiMenuClick, bm_device = 1, bm_button = BtMenu, bm_touch = False\<rparr>"

lemma fresh_inputs: "inputs_wf input_session" "menu_mapping \<in> set kButtons" "touchless menu_mapping"
proof -
  show "inputs_wf input_session" by (simp add: inputs_wf_def input_session_def session_new_def bridge_new_def)
  show "menu_mapping \<in> set kButtons" by (simp add: kButtons_def menu_mapping_def mapping_of_def)
  show "touchless menu_mapping" by code_simp
qed

theorem haptics_in_order_witness:
  "\<exists>n sent. sn_out (snd (pump_haptics input_env input_session)) = sn_out input_session @ map (Pair Control) sent
    \<and> sent = List.map_filter (haptic_packet input_env) (take n (br_haptics (sn_bridge input_session))) \<and> list_all haptic_ok sent"
  using haptics_in_order [of input_env input_session "fst (pump_haptics input_env input_session)"
      "snd (pump_haptics input_env input_session)"] by (auto simp: input_env_def)

theorem pressed_follows_headset_witness:
  "pressed_bit menu_mapping (br_input (sn_bridge (on_inputs input_env
     [(DiMenuClick, Num 0), (DiLeftStickX, Num (1 / 2)), (DiMenuClick, Num 1)] 5 input_session)))"
  using pressed_follows_headset [OF fresh_inputs(1,2), of "[(DiMenuClick, Num 0), (DiLeftStickX, Num (1 / 2)), (DiMenuClick, Num 1)]"
      "[(DiMenuClick, Num 0), (DiLeftStickX, Num (1 / 2))]" "Num 1" "[]" input_env 5] by (simp add: menu_mapping_def)

theorem touched_stays_behind_witness:
  "touched_bit menu_mapping (br_input (sn_bridge
    (fold (\<lambda>(xs, now). on_inputs input_env xs now) [([(DiMenuClick, Num 0)], 6)] (on_inputs input_env [(DiMenuClick, Num 1)] 5 input_session))))"
  using touched_stays_behind [OF fresh_inputs, of "Num 1" input_env "[([(DiMenuClick, Num 0)], 6)]" 5]
  by (simp add: menu_mapping_def)

theorem published_poses_finite_witness:
  "list_all pose_ok (br_pose (sn_bridge (fold (\<lambda>(t, now). on_tracking input_env t now)
     [(\<lparr>tk_production_timestamp = 1, tk_timestamp = 2, tk_views = (view_zero, view_zero),
        tk_device_poses = [\<lparr>dp_device = DiHead, dp_pose = tracked_pose\<rparr>, \<lparr>dp_device = DiLeftGrip, dp_pose = broken_pose\<rparr>]\<rparr>, 7)]
     input_session)))"
  unfolding input_session_def
  by (rule published_poses_finite)
    (auto simp: input_env_def small_sample_def small_vec_def tracked_pose_def broken_pose_def vec3_zero_def)

end
