(* ===== verification/Session_Loop.thy ===== *)
theory Session_Loop
  imports Session_Video Session_Transport Session_Input
begin

text \<open>
  The session thread: the visitor that hands every packet to its handler, one
  turn of the loop in \<^verbatim>\<open>Session::run\<close>, and the end of a session
  (\<^verbatim>\<open>helper/src/wivrn/session.cpp\<close>). A turn is described by what the sockets and
  clocks deliver during it. The other threads of the helper act between turns:
  the pipe server queues haptic pulses, the encoder thread queues frames and
  publishes its stream. The theorems hold for every interleaving of these.
\<close>

section \<open>Packets\<close>

datatype headset_packet =
    FhTracking tracking
  | FhInputs "(device_id \<times> fp) list"
  | FhTimesync int int
  | FhSettings settings
  | FhInfo headset_info
  | FhFeedback feedback
  | FhRefresh fp
  | FhWifi bool int int
  | FhPing nat int
  | FhOther

text \<open>One packet, handled at time \<open>now\<close>; false when the handler threw.\<close>

fun dispatch :: "session_env \<Rightarrow> time_ns \<Rightarrow> headset_packet \<Rightarrow> ('g, 'p) headset_session \<Rightarrow> bool \<times> ('g, 'p) headset_session" where
  "dispatch sv now (FhTracking t) s = (True, on_tracking sv t now s)"
| "dispatch sv now (FhInputs vs) s = (True, on_inputs sv vs now s)"
| "dispatch sv now (FhTimesync q r) s =
     (True, s\<lparr>sn_clock := add_sample \<lparr>sy_query = q, sy_response = r, sy_received = now\<rparr> (sn_clock s)\<rparr>)"
| "dispatch sv now (FhSettings st) s = (True, on_settings sv st s)"
| "dispatch sv now (FhInfo info) s = (True, on_headset_info sv info s)"
| "dispatch sv now (FhFeedback f) s = (True, session_feedback sv f now s)"
| "dispatch sv now (FhRefresh to) s = (True, on_refresh_rate_changed sv to s)"
| "dispatch sv now (FhWifi valid rssi speed) s = (True, on_wifi_packet sv valid rssi speed now s)"
| "dispatch sv now (FhPing path t) s = send_control sv (ThPong path t) s"
| "dispatch sv now FhOther s = (True, on_counters (\<lambda>c. c\<lparr>ct_discarded := ct_discarded c + 1\<rparr>) s)"

section \<open>A turn of the loop\<close>

text \<open>What one read of a socket gives: nothing, a packet and the time it is handled, or an exception.\<close>

datatype socket_read = ReadNone | ReadThrows | ReadPacket headset_packet time_ns

fun read_all :: "session_env \<Rightarrow> socket_read list \<Rightarrow> ('g, 'p) headset_session \<Rightarrow> bool \<times> ('g, 'p) headset_session" where
  "read_all sv [] s = (True, s)"
| "read_all sv (ReadNone # rs) s = (True, s)"
| "read_all sv (ReadThrows # rs) s = (False, s)"
| "read_all sv (ReadPacket p now # rs) s =
     (case dispatch sv now p s of (ok, s1) \<Rightarrow> if ok then read_all sv rs s1 else (False, s1))"

datatype poll_result = PollError | Polled bool bool bool

text \<open>
  The stop flag; what was already buffered on the two sockets; the clock when
  the timeout is computed; what \<^verbatim>\<open>poll\<close> reports (stream readable, control
  readable, control closed) and the reads that follow it; the clocks of the
  rest of the turn, and the shards the socket refuses.
\<close>

record loop_turn =
  lt_stop :: bool
  lt_stream_pending :: "socket_read list"
  lt_control_pending :: "socket_read list"
  lt_mono :: int
  lt_poll :: poll_result
  lt_stream_read :: socket_read
  lt_control_read :: socket_read
  lt_now :: time_ns
  lt_query :: int
  lt_refused :: "(view_info, timing_info) shard \<Rightarrow> bool"
  lt_video_now :: time_ns
  lt_stamp :: time_ns

definition poll_timeout_ms :: "time_ns \<Rightarrow> int \<Rightarrow> int" where
  "poll_timeout_ms due clock =
     (if due = 0 then 20
      else let wait_ns = due - clock; wait_ms = (if wait_ns \<le> 0 then 0 else (wait_ns + 999999) div 1000000)
        in max 0 (min 20 wait_ms))"

text \<open>Steps that may throw, in sequence.\<close>

definition andthen :: "('g, 'p) headset_session \<Rightarrow> (('g, 'p) headset_session \<Rightarrow> bool \<times> ('g, 'p) headset_session) list \<Rightarrow> bool \<times> ('g, 'p) headset_session" where
  "andthen s steps = fold (\<lambda>f r. if fst r then f (snd r) else r) steps (True, s)"

definition pending_reads :: "session_env \<Rightarrow> loop_turn \<Rightarrow> ('g, 'p) headset_session \<Rightarrow> bool \<times> ('g, 'p) headset_session" where
  "pending_reads sv t s =
     andthen s [\<lambda>s. if sn_stream s then read_all sv (lt_stream_pending t) s else (True, s),
                read_all sv (lt_control_pending t)]"

definition polled_reads :: "session_env \<Rightarrow> loop_turn \<Rightarrow> ('g, 'p) headset_session \<Rightarrow> bool \<times> ('g, 'p) headset_session" where
  "polled_reads sv t s =
     (case lt_poll t of PollError \<Rightarrow> (False, s)
      | Polled stream_in control_in hup \<Rightarrow>
          if hup then (False, s)
          else andthen s [\<lambda>s. if sn_stream s \<and> stream_in then read_all sv [lt_stream_read t] s else (True, s),
                          \<lambda>s. if control_in then read_all sv [lt_control_read t] s else (True, s)])"

definition clock_query :: "session_env \<Rightarrow> loop_turn \<Rightarrow> ('g, 'p) headset_session \<Rightarrow> bool \<times> ('g, 'p) headset_session" where
  "clock_query sv t s =
     (case should_sample (lt_now t) (sn_clock s) of (due, e) \<Rightarrow>
       if due then send_stream sv (ThTimesync (lt_query t)) (s\<lparr>sn_clock := e\<rparr>) else (True, s\<lparr>sn_clock := e\<rparr>))"

definition held_idr :: "loop_turn \<Rightarrow> ('g, 'p) headset_session \<Rightarrow> bool \<times> ('g, 'p) headset_session" where
  "held_idr t s =
     (case idr_poll (lt_now t) (sn_idr s) of (due, i) \<Rightarrow>
       (True, if due then ask_idr (s\<lparr>sn_idr := i\<rparr>) else s\<lparr>sn_idr := i\<rparr>))"

definition video_turn ::
    "session_env \<Rightarrow> (view_info, timing_info, 'g, 'p) wire_env \<Rightarrow> loop_turn \<Rightarrow> ('g, 'p) headset_session \<Rightarrow> bool \<times> ('g, 'p) headset_session" where
  "video_turn sv we t s = (True, pump_video sv we (lt_refused t) (lt_video_now t) (lt_stamp t) s)"

definition session_turn ::
    "session_env \<Rightarrow> (view_info, timing_info, 'g, 'p) wire_env \<Rightarrow> loop_turn \<Rightarrow> ('g, 'p) headset_session \<Rightarrow> bool \<times> ('g, 'p) headset_session" where
  "session_turn sv we t s =
     (if lt_stop t then (False, s)
      else andthen s [pending_reads sv t, polled_reads sv t, clock_query sv t, pump_haptics sv, held_idr t,
                      update_stream_description sv, video_turn sv we t])"

text \<open>Before the first turn; then turns until one ends the session. True: the session still runs.\<close>

definition run_setup :: "session_env \<Rightarrow> ('g, 'p) headset_session \<Rightarrow> bool \<times> ('g, 'p) headset_session" where
  "run_setup sv s = andthen (s\<lparr>sn_idr := idr_reset (sn_idr s)\<rparr>) [send_stream_setup sv, send_tracking_pattern sv]"

fun run_turns ::
    "session_env \<Rightarrow> (view_info, timing_info, 'g, 'p) wire_env \<Rightarrow> loop_turn list \<Rightarrow> ('g, 'p) headset_session \<Rightarrow> bool \<times> ('g, 'p) headset_session" where
  "run_turns sv we [] s = (True, s)"
| "run_turns sv we (t # ts) s =
     (case session_turn sv we t s of (ok, s1) \<Rightarrow> if ok then run_turns sv we ts s1 else (False, s1))"

text \<open>The destructor.\<close>

definition session_end :: "('g, 'p) headset_session \<Rightarrow> bridge \<times> video_bridge" where
  "session_end s = (on_client_gone (sn_bridge s), clear_client (sn_video s))"

section \<open>Waiting\<close>

lemma timeout_range: "0 \<le> poll_timeout_ms due clock" "poll_timeout_ms due clock \<le> 20"
  by (simp_all add: poll_timeout_ms_def Let_def)

text \<open>
  The wait is long enough and not too long: the timeout is between zero
  and twenty milliseconds, it is zero only when a burst is due already, and
  otherwise, unless the twenty milliseconds cut it short, the wait ends no
  earlier than the burst is due and less than a millisecond later.
\<close>

theorem poll_wait_fits:
  assumes "due \<noteq> 0"
  shows "0 \<le> poll_timeout_ms due clock \<and> poll_timeout_ms due clock \<le> 20
    \<and> (poll_timeout_ms due clock = 0 \<longleftrightarrow> due \<le> clock)
    \<and> (clock < due \<and> poll_timeout_ms due clock < 20 \<longrightarrow>
         due \<le> clock + poll_timeout_ms due clock * 1000000 \<and> clock + poll_timeout_ms due clock * 1000000 < due + 1000000)"
proof -
  define w where "w = due - clock"
  define q where "q = (w + 999999) div 1000000"
  have q: "q * 1000000 \<le> w + 999999" "w + 999999 < q * 1000000 + 1000000"
    using mult_div_mod_eq [of 1000000 "w + 999999"] pos_mod_bound [of 1000000 "w + 999999"] pos_mod_sign [of 1000000 "w + 999999"]
    unfolding q_def by linarith+
  have "poll_timeout_ms due clock = (if w \<le> 0 then 0 else min 20 q)" if "0 < w \<longrightarrow> 0 < q"
    using assms that by (simp add: poll_timeout_ms_def Let_def w_def q_def)
  moreover have "0 < w \<longrightarrow> 0 < q" using q by linarith
  ultimately show ?thesis using q unfolding w_def by (auto simp: min_def)
qed

section \<open>The invariant\<close>

text \<open>What the shim is shown: a well-formed bridge with a usable configuration and finite poses.\<close>

definition shown_inv :: "('g, 'p) headset_session \<Rightarrow> bool" where
  "shown_inv s \<longleftrightarrow> bridge_wf (sn_bridge s) \<and> config_ok (br_config (sn_bridge s)) \<and> poses_good s
     \<and> length (sn_input_state s) = kDeviceCount"

text \<open>What is on its way to the headset, and that the encoder thread knows there is one.\<close>

definition sending_inv :: "('g, 'p) headset_session \<Rightarrow> bool" where
  "sending_inv s \<longleftrightarrow> sender_front s \<and> length (sn_queue s) \<le> kMaxVideoQueued \<and> vr_active (vb_request (sn_video s))"

definition loop_inv :: "('g, 'p) headset_session \<Rightarrow> bool" where
  "loop_inv s \<longleftrightarrow> shown_inv s \<and> sending_inv s"

lemma shown_frame:
  "shown_inv s \<Longrightarrow> sn_bridge s' = sn_bridge s \<Longrightarrow> sn_sanitizers s' = sn_sanitizers s \<Longrightarrow> sn_input_state s' = sn_input_state s
     \<Longrightarrow> shown_inv s'"
  by (simp add: shown_inv_def poses_good_def)

lemma sending_frame:
  "sending_inv s \<Longrightarrow> sn_sender s' = sn_sender s \<Longrightarrow> sn_queue s' = sn_queue s
     \<Longrightarrow> vr_active (vb_request (sn_video s')) = vr_active (vb_request (sn_video s)) \<Longrightarrow> sending_inv s'"
  by (simp add: sending_inv_def sender_front_def)

lemma inv_frame:
  "loop_inv s \<Longrightarrow> sn_bridge s' = sn_bridge s \<Longrightarrow> sn_sanitizers s' = sn_sanitizers s \<Longrightarrow> sn_input_state s' = sn_input_state s
     \<Longrightarrow> sn_sender s' = sn_sender s \<Longrightarrow> sn_queue s' = sn_queue s
     \<Longrightarrow> vr_active (vb_request (sn_video s')) = vr_active (vb_request (sn_video s)) \<Longrightarrow> loop_inv s'"
  unfolding loop_inv_def using shown_frame [of s s'] sending_frame [of s s'] by blast

text \<open>The fields that no transport handler touches.\<close>

definition untouched :: "('g, 'p) headset_session \<Rightarrow> pose_sanitizer list \<times> input_update list \<times> (view_info, timing_info, 'g) paced_sender \<times> encoded_frame list" where
  "untouched s = (sn_sanitizers s, sn_input_state s, sn_sender s, sn_queue s)"

lemma untouched_parts [simp]:
  "untouched (apply_bitrate sv b s) = untouched s" "untouched (publish_config sv s) = untouched s"
  "untouched (publish_video_request s) = untouched s" "untouched (ask_idr s) = untouched s"
  by (simp_all add: untouched_def apply_bitrate_def publish_config_def publish_video_request_def ask_idr_def Let_def split: option.split)

lemma untouched_updates [simp]:
  "untouched (s\<lparr>sn_info := i\<rparr>) = untouched s" "untouched (s\<lparr>sn_have_info := b\<rparr>) = untouched s"
  "untouched (s\<lparr>sn_refresh_hz := hz\<rparr>) = untouched s" "untouched (s\<lparr>sn_standby_freeze := b\<rparr>) = untouched s"
  "untouched (s\<lparr>sn_bitrate := bc\<rparr>) = untouched s" "untouched (s\<lparr>sn_pacing_enabled := b\<rparr>) = untouched s"
  "untouched (s\<lparr>sn_pacing_slot := sl\<rparr>) = untouched s" "untouched (s\<lparr>sn_fec_enabled := b\<rparr>) = untouched s"
  "untouched (s\<lparr>sn_idr := idr\<rparr>) = untouched s" "untouched (s\<lparr>sn_counters := c\<rparr>) = untouched s"
  by (simp_all add: untouched_def)

lemma untouched_settings:
  "untouched (settings_radio st s) = untouched s" "untouched (settings_enabled sv st s) = untouched s"
  "untouched (settings_mode sv st s) = untouched s" "untouched (settings_pacing st s) = untouched s"
  "untouched (settings_fec sv st s) = untouched s" "untouched (settings_rate sv st s) = untouched s"
  by (simp_all add: settings_radio_def settings_enabled_def settings_mode_def settings_pacing_def settings_fec_def
      settings_rate_def set_refresh_def Let_def split: prod.split)

lemma untouched_transport: "untouched (transport_step sv s m) = untouched s"
  by (cases m)
    (simp_all add: on_settings_def untouched_settings on_headset_info_def configure_transport_def on_refresh_rate_changed_def
      set_refresh_def session_feedback_def on_wifi_packet_def Let_def split: prod.split)

text \<open>They reach the bridge, if at all, with a new configuration.\<close>

lemma publish_config_cases: "sn_bridge (publish_config sv s) = sn_bridge s \<or> (\<exists>c. sn_bridge (publish_config sv s) = set_config c (sn_bridge s))"
  by (auto simp: publish_config_def)

lemma transport_bridge_cases:
  "sn_bridge (transport_step sv s m) = sn_bridge s \<or> (\<exists>c. sn_bridge (transport_step sv s m) = set_config c (sn_bridge s))"
proof (cases m)
  case (MInfo info)
  define s1 where "s1 = s\<lparr>sn_info := info, sn_have_info := True,
      sn_refresh_hz := (if fp_lt (Num 1) (se_refresh (hi_settings info)) then se_refresh (hi_settings info)
        else max_refresh (hi_refresh_rates info)), sn_standby_freeze := se_standby_freeze (hi_settings info)\<rparr>"
  show ?thesis using publish_config_cases [of sv s1] unfolding MInfo
    by (simp add: on_headset_info_def transport_bridge flip: s1_def) (simp add: s1_def)
next
  case (MSettings st)
  then show ?thesis using publish_config_cases [of sv "s\<lparr>sn_standby_freeze := se_standby_freeze st, sn_refresh_hz := se_refresh st\<rparr>"]
    by (simp add: on_settings_def transport_bridge settings_rate_def set_refresh_def Let_def)
next
  case (MRefresh to)
  then show ?thesis using publish_config_cases [of sv "s\<lparr>sn_refresh_hz := to\<rparr>"]
    by (simp add: on_refresh_rate_changed_def set_refresh_def transport_bridge)
qed (simp_all add: transport_bridge)

lemma set_config_wf: "bridge_wf b \<Longrightarrow> bridge_wf (set_config c b)"
  using bridge.inv_step [of b "SetConfig c"] by simp

lemma transport_shown:
  assumes "\<And>x. sv_is_finite sv x \<Longrightarrow> is_num x" and "shown_inv s"
  shows "shown_inv (transport_step sv s m)"
proof -
  have k: "sn_sanitizers (transport_step sv s m) = sn_sanitizers s" "sn_input_state (transport_step sv s m) = sn_input_state s"
    using untouched_transport [of sv s m] by (simp_all add: untouched_def)
  have "config_ok (br_config (sn_bridge (transport_step sv s m)))"
    using assms(2) by (intro transport_config_ok [OF assms(1)]) (simp_all add: shown_inv_def)
  moreover have "br_pose (sn_bridge (transport_step sv s m)) = br_pose (sn_bridge s) \<and> bridge_wf (sn_bridge (transport_step sv s m))"
    using transport_bridge_cases [of sv s m] assms(2) set_config_wf [of "sn_bridge s"]
    by (auto simp: shown_inv_def) (simp_all add: set_config_def)
  ultimately show ?thesis using assms(2) k by (simp add: shown_inv_def poses_good_def)
qed

text \<open>The encoder stays asked to run.\<close>

definition wanted :: "('g, 'p) headset_session \<Rightarrow> bool" where
  "wanted s \<longleftrightarrow> vr_active (vb_request (sn_video s))"

lemma wanted_parts [simp]:
  "wanted (apply_bitrate sv b s) = wanted s" "wanted (publish_config sv s) = wanted s" "wanted (publish_video_request s)"
  "wanted (ask_idr s) = wanted s"
  by (simp_all add: wanted_def apply_bitrate_def set_bitrate_result publish_video_request_def set_client_active Let_def split: option.split)

lemma wanted_updates [simp]:
  "wanted (s\<lparr>sn_info := i\<rparr>) = wanted s" "wanted (s\<lparr>sn_have_info := b\<rparr>) = wanted s"
  "wanted (s\<lparr>sn_refresh_hz := hz\<rparr>) = wanted s" "wanted (s\<lparr>sn_standby_freeze := b\<rparr>) = wanted s"
  "wanted (s\<lparr>sn_bitrate := bc\<rparr>) = wanted s" "wanted (s\<lparr>sn_pacing_enabled := b\<rparr>) = wanted s"
  "wanted (s\<lparr>sn_pacing_slot := sl\<rparr>) = wanted s" "wanted (s\<lparr>sn_fec_enabled := b\<rparr>) = wanted s"
  "wanted (s\<lparr>sn_idr := idr\<rparr>) = wanted s" "wanted (s\<lparr>sn_counters := c\<rparr>) = wanted s"
  by (simp_all add: wanted_def)

lemma wanted_settings:
  "wanted (settings_radio st s) = wanted s" "wanted (settings_enabled sv st s) = wanted s"
  "wanted (settings_mode sv st s) = wanted s" "wanted (settings_pacing st s) = wanted s"
  "wanted (settings_fec sv st s) = wanted s" "wanted s \<Longrightarrow> wanted (settings_rate sv st s)"
  by (simp_all add: settings_radio_def settings_enabled_def settings_mode_def settings_pacing_def settings_fec_def
      settings_rate_def set_refresh_def Let_def split: prod.split)

lemma wanted_transport: "wanted s \<Longrightarrow> wanted (transport_step sv s m)"
  by (cases m)
    (simp_all add: on_settings_def wanted_settings on_headset_info_def configure_transport_def on_refresh_rate_changed_def
      set_refresh_def session_feedback_def on_wifi_packet_def Let_def split: prod.split)

lemma transport_inv:
  assumes "\<And>x. sv_is_finite sv x \<Longrightarrow> is_num x" and "loop_inv s"
  shows "loop_inv (transport_step sv s m)"
proof -
  have "sn_sender (transport_step sv s m) = sn_sender s" "sn_queue (transport_step sv s m) = sn_queue s"
    using untouched_transport [of sv s m] by (simp_all add: untouched_def)
  then have "sending_inv (transport_step sv s m)"
    using assms(2) wanted_transport [of s sv m] by (simp add: loop_inv_def sending_inv_def sender_front_def wanted_def)
  then show ?thesis using transport_shown [of sv s m, OF assms(1)] assms(2) by (simp add: loop_inv_def)
qed

text \<open>Poses and controls.\<close>

lemma publish_pose_wf: "bridge_wf (sn_bridge s) \<Longrightarrow> bridge_wf (sn_bridge (publish_pose sv q t dp s))"
proof -
  assume wf: "bridge_wf (sn_bridge s)"
  have pose: "bridge_wf (set_pose p (sn_bridge s))" for p using bridge.inv_step [OF wf, of "SetPose p"] by simp
  then have "bridge_wf (set_present d True (set_pose p (sn_bridge s)))" for p d
    using bridge.inv_step [OF pose, of _ "SetPresent d True"] by simp
  with wf pose show ?thesis by (simp add: publish_pose_def Let_def split: option.split prod.split)
qed

lemma publish_pose_frame:
  "br_config (sn_bridge (publish_pose sv q t dp s)) = br_config (sn_bridge s)"
  "sn_input_state (publish_pose sv q t dp s) = sn_input_state s" "sn_sender (publish_pose sv q t dp s) = sn_sender s"
  "sn_queue (publish_pose sv q t dp s) = sn_queue s" "sn_video (publish_pose sv q t dp s) = sn_video s"
  by (simp_all add: publish_pose_def set_pose_def set_present_def Let_def split: option.split prod.split)

lemma publish_pose_inv:
  assumes "\<And>x. sv_is_finite sv x \<Longrightarrow> is_num x" and "small_sample (dp_pose dp)" and "loop_inv s"
  shows "loop_inv (publish_pose sv q t dp s)"
proof -
  have "poses_good (publish_pose sv q t dp s)"
    using assms(3) by (intro publish_pose_good assms(1,2)) (simp_all add: loop_inv_def shown_inv_def)
  then show ?thesis using assms(3) publish_pose_wf [of s]
    by (simp add: loop_inv_def shown_inv_def sending_inv_def sender_front_def publish_pose_frame)
qed

lemma publish_poses_inv:
  assumes "\<And>x. sv_is_finite sv x \<Longrightarrow> is_num x"
  shows "list_all (\<lambda>dp. small_sample (dp_pose dp)) dps \<Longrightarrow> loop_inv s \<Longrightarrow> loop_inv (fold (publish_pose sv q t) dps s)"
  by (induction dps arbitrary: s) (simp_all add: publish_pose_inv [OF assms])

lemma publish_config_inv:
  assumes "\<And>x. sv_is_finite sv x \<Longrightarrow> is_num x" and "loop_inv s"
  shows "loop_inv (publish_config sv s)"
proof -
  have "config_ok (br_config (sn_bridge (publish_config sv s)))"
    using assms(2) by (intro publish_config_ok [OF assms(1)]) (simp_all add: loop_inv_def shown_inv_def)
  moreover have "bridge_wf (sn_bridge (publish_config sv s)) \<and> br_pose (sn_bridge (publish_config sv s)) = br_pose (sn_bridge s)"
    using publish_config_cases [of sv s] assms(2) set_config_wf [of "sn_bridge s"]
    by (auto simp: loop_inv_def shown_inv_def) (simp_all add: set_config_def)
  ultimately show ?thesis using assms(2) untouched_parts(2) [of sv s]
    by (simp add: loop_inv_def shown_inv_def sending_inv_def poses_good_def sender_front_def untouched_def)
qed

lemma on_tracking_inv:
  assumes "\<And>x. sv_is_finite sv x \<Longrightarrow> is_num x" and "list_all (\<lambda>dp. small_sample (dp_pose dp)) (tk_device_poses t)"
    and "loop_inv s"
  shows "loop_inv (on_tracking sv t now s)"
proof -
  let ?s = "on_counters (\<lambda>c. c\<lparr>ct_tracking := ct_tracking c + 1\<rparr>) s"
  have s: "loop_inv ?s" "loop_inv (?s\<lparr>sn_views := vs, sn_have_views := True\<rparr>)" for vs
    by (rule inv_frame [OF assms(3)], simp_all)+
  have "loop_inv (take_views sv (tk_views t) ?s)"
    unfolding take_views_def using s(1) publish_config_inv [OF assms(1) s(2)] by simp
  then show ?thesis unfolding on_tracking_def Let_def by (intro publish_poses_inv assms(1,2))
qed

lemma publish_input_inv:
  assumes "loop_inv s"
  shows "loop_inv (publish_input q touched i s)"
proof -
  have "bridge_wf (set_input st (sn_bridge s))" for st
    using bridge.inv_step [of "sn_bridge s" "SetInput st"] assms by (simp add: loop_inv_def shown_inv_def)
  then show ?thesis using assms
    by (simp add: publish_input_def loop_inv_def shown_inv_def sending_inv_def sender_front_def poses_good_def Let_def)
      (simp add: set_input_def Let_def)
qed

lemma on_inputs_inv:
  assumes "loop_inv s"
  shows "loop_inv (on_inputs sv xs now s)"
proof -
  have turns: "loop_inv s' \<Longrightarrow> loop_inv (fold (publish_input q touched) ks s')" for q touched ks and s' :: "('a, 'b) headset_session"
    by (induction ks arbitrary: s') (simp_all add: publish_input_inv)
  obtain states touched where r: "fold (apply_value sv) xs (sn_input_state s, replicate kDeviceCount False) = (states, touched)"
    by fastforce
  then have "length states = length (sn_input_state s)"
    using fold_value_lengths(1) [of sv xs "(sn_input_state s, replicate kDeviceCount False)"] by simp
  then have "loop_inv (on_counters (\<lambda>c. c\<lparr>ct_inputs := ct_inputs c + 1\<rparr>) (s\<lparr>sn_input_state := states\<rparr>))"
    using assms by (simp add: loop_inv_def shown_inv_def sending_inv_def sender_front_def poses_good_def)
  then show ?thesis by (simp add: on_inputs_def r turns)
qed

text \<open>Every packet.\<close>

lemma send_inv:
  assumes "loop_inv s"
  shows "loop_inv (snd (send_control sv p s))" and "loop_inv (snd (send_stream sv p s))"
proof -
  have "loop_inv (s\<lparr>sn_out := out\<rparr>)" for out by (rule inv_frame [OF assms]) simp_all
  with assms show "loop_inv (snd (send_control sv p s))" "loop_inv (snd (send_stream sv p s))"
    by (simp_all add: send_control_def send_stream_def)
qed

fun float_packet :: "headset_packet \<Rightarrow> bool" where
  "float_packet (FhTracking t) \<longleftrightarrow> list_all (\<lambda>dp. small_sample (dp_pose dp)) (tk_device_poses t)"
| "float_packet _ \<longleftrightarrow> True"

lemma dispatch_inv:
  assumes "\<And>x. sv_is_finite sv x \<Longrightarrow> is_num x" and "float_packet p" and "loop_inv s"
  shows "loop_inv (snd (dispatch sv now p s))"
proof (cases p)
  case (FhTracking t)
  then show ?thesis using on_tracking_inv [OF assms(1) _ assms(3)] assms(2) by simp
next
  case (FhInputs xs)
  then show ?thesis using on_inputs_inv [OF assms(3)] by simp
next
  case (FhSettings st)
  then show ?thesis using transport_inv [OF assms(1,3), where m = "MSettings st"] by simp
next
  case (FhInfo i)
  then show ?thesis using transport_inv [OF assms(1,3), where m = "MInfo i"] by simp
next
  case (FhFeedback f)
  then show ?thesis using transport_inv [OF assms(1,3), where m = "MFeedback f now"] by simp
next
  case (FhRefresh hz)
  then show ?thesis using transport_inv [OF assms(1,3), where m = "MRefresh hz"] by simp
next
  case (FhWifi v r sp)
  then show ?thesis using transport_inv [OF assms(1,3), where m = "MWifi v r sp now"] by simp
next
  case (FhPing a b)
  then show ?thesis using send_inv(1) [OF assms(3)] by simp
next
  case (FhTimesync a b)
  then show ?thesis by simp (rule inv_frame [OF assms(3)], simp_all)
next
  case FhOther
  then show ?thesis by simp (rule inv_frame [OF assms(3)], simp_all)
qed

fun float_read :: "socket_read \<Rightarrow> bool" where
  "float_read (ReadPacket p now) \<longleftrightarrow> float_packet p"
| "float_read _ \<longleftrightarrow> True"

lemma read_all_inv:
  assumes "\<And>x. sv_is_finite sv x \<Longrightarrow> is_num x"
  shows "list_all float_read rs \<Longrightarrow> loop_inv s \<Longrightarrow> loop_inv (snd (read_all sv rs s))"
proof (induction rs arbitrary: s)
  case (Cons r rs)
  show ?case
  proof (cases r)
    case (ReadPacket p now)
    then have "loop_inv (snd (dispatch sv now p s))" using dispatch_inv [of sv p s now, OF assms] Cons.prems by simp
    then show ?thesis using Cons ReadPacket by (simp add: split_beta)
  qed (use Cons.prems in simp_all)
qed simp

text \<open>The rest of a turn.\<close>

lemma pump_haptics_inv: "loop_inv s \<Longrightarrow> loop_inv (snd (pump_haptics sv s))"
proof -
  assume inv: "loop_inv s"
  have upd: "loop_inv (s\<lparr>sn_bridge := (sn_bridge s)\<lparr>br_haptics := drop k (br_haptics (sn_bridge s))\<rparr>, sn_out := out\<rparr>)" for k out
    using inv by (auto simp: loop_inv_def shown_inv_def sending_inv_def sender_front_def poses_good_def bridge_wf_def)
  obtain ok s' where r: "pump_haptics sv s = (ok, s')" by fastforce
  from pump_haptics_spec [OF refl r] upd show ?thesis unfolding r by auto
qed

lemma ask_idr_inv: "loop_inv s \<Longrightarrow> loop_inv (ask_idr s)"
  using untouched_parts(4) [of s] wanted_parts(4) [of s]
  by (elim inv_frame) (simp_all add: untouched_def wanted_def)

lemma idr_update_inv: "loop_inv s \<Longrightarrow> loop_inv (s\<lparr>sn_idr := i\<rparr>)"
  by (elim inv_frame) simp_all

lemma held_idr_inv: "loop_inv s \<Longrightarrow> loop_inv (snd (held_idr t s))"
  by (simp add: held_idr_def ask_idr_inv idr_update_inv split: prod.split)

lemma clock_query_inv:
  assumes "loop_inv s"
  shows "loop_inv (snd (clock_query sv t s))"
proof -
  have "loop_inv (s\<lparr>sn_clock := e\<rparr>)" for e by (rule inv_frame [OF assms]) simp_all
  then show ?thesis by (simp add: clock_query_def send_inv(2) split: prod.split)
qed

lemma description_update_inv:
  assumes "loop_inv s"
  shows "loop_inv (s\<lparr>sn_stream_generation := g\<rparr>)" "loop_inv (s\<lparr>sn_description := d\<rparr>)" "loop_inv (s\<lparr>sn_description_sent := b\<rparr>)"
  by (rule inv_frame [OF assms], simp_all)+

lemma update_stream_description_inv:
  assumes "loop_inv s"
  shows "loop_inv (snd (update_stream_description sv s))"
proof -
  note d = description_update_inv
  have "loop_inv (s\<lparr>sn_stream_generation := g, sn_description := e\<rparr>)" for g e by (intro d assms)
  then have "loop_inv (snd (send_control sv p (s\<lparr>sn_stream_generation := g, sn_description := e\<rparr>)))" for p g e
    by (rule send_inv)
  then have "loop_inv s'" if "send_control sv p (s\<lparr>sn_stream_generation := g, sn_description := e\<rparr>) = (ok, s')" for p g e ok s'
    using that by (metis snd_conv)
  then show ?thesis using assms
    by (auto simp: update_stream_description_def Let_def d ask_idr_inv idr_update_inv split: prod.split bool.split)
qed

text \<open>The pump leaves the fields the shim depends on alone.\<close>

definition shown_fields :: "('g, 'p) headset_session \<Rightarrow> bridge \<times> pose_sanitizer list \<times> input_update list \<times> bool" where
  "shown_fields s = (sn_bridge s, sn_sanitizers s, sn_input_state s, vr_active (vb_request (sn_video s)))"

lemma shown_fields_video [simp]:
  "shown_fields (s\<lparr>sn_queue := q\<rparr>) = shown_fields s" "shown_fields (s\<lparr>sn_next_video_due := d\<rparr>) = shown_fields s"
  "shown_fields (drop_failed s) = shown_fields s" "shown_fields (finish_video_frame now s) = shown_fields s"
  "shown_fields (start_if_idle sv we now s) = shown_fields s" "shown_fields (take_video s) = shown_fields s"
  by (simp_all add: shown_fields_def drop_failed_def finish_video_frame_def start_if_idle_def begin_video_frame_def
      take_video_def take_frames_def Let_def split: prod.split)

lemma shown_fields_sender: "pump_sender sv we throws now stamp s = (r, s') \<Longrightarrow> shown_fields s' = shown_fields s"
  by (auto simp: pump_sender_def emit_def shown_fields_def split: prod.splits)

lemma shown_fields_frames: "shown_fields (pump_frames sv we throws now stamp s) = shown_fields s"
proof (induction sv we throws now stamp s rule: pump_frames.induct)
  case (1 sv we throws now stamp s)
  obtain x s' where p: "pump_sender sv we throws now stamp (start_if_idle sv we now s) = (x, s')" by fastforce
  have s': "shown_fields s' = shown_fields s" using shown_fields_sender [OF p] by simp
  show ?case
    by (subst pump_frames.simps) (use p s' 1 in \<open>simp split: option.split\<close>)
qed

lemma pump_video_inv:
  assumes "loop_inv s" and "0 \<le> now"
  shows "loop_inv (pump_video sv we throws now stamp s)"
proof -
  let ?t = "(take_video s)\<lparr>sn_next_video_due := 0\<rparr>"
  have i: "sender_front s" "length (sn_queue s) \<le> kMaxVideoQueued" using assms(1) by (simp_all add: loop_inv_def sending_inv_def)
  note r = take_video_result [OF i]
  have "sender_front ?t" using r(1) by (simp add: sender_front_def)
  then have p: "pumped now (pump_video sv we throws now stamp s)"
    "length (sn_queue (pump_video sv we throws now stamp s)) \<le> kMaxVideoQueued"
    using pump_frames_result [of ?t now sv we throws stamp] assms(2) r(2) by (simp_all add: pump_video_def)
  have "shown_fields (pump_video sv we throws now stamp s) = shown_fields s"
    by (simp add: pump_video_def shown_fields_frames)
  then show ?thesis using assms(1) p
    by (auto simp: shown_fields_def loop_inv_def shown_inv_def sending_inv_def poses_good_def pumped_def sender_front_def)
qed

text \<open>A whole turn, whether it ends the session or not.\<close>

definition float_turn :: "loop_turn \<Rightarrow> bool" where
  "float_turn t \<longleftrightarrow> list_all float_read (lt_stream_pending t) \<and> list_all float_read (lt_control_pending t)
     \<and> float_read (lt_stream_read t) \<and> float_read (lt_control_read t) \<and> 0 \<le> lt_video_now t"

lemma andthen_inv:
  assumes "loop_inv s" and "\<And>f s. f \<in> set fs \<Longrightarrow> loop_inv s \<Longrightarrow> loop_inv (snd (f s))"
  shows "loop_inv (snd (andthen s fs))"
proof -
  have "loop_inv (snd r) \<Longrightarrow> loop_inv (snd (fold (\<lambda>f r. if fst r then f (snd r) else r) fs r))" for r
    using assms(2) by (induction fs arbitrary: r) auto
  from this [of "(True, s)"] assms(1) show ?thesis by (simp add: andthen_def)
qed

lemma session_turn_inv:
  assumes fin: "\<And>x. sv_is_finite sv x \<Longrightarrow> is_num x" and "float_turn t" and "loop_inv s"
  shows "loop_inv (snd (session_turn sv we t s))"
proof -
  have reads: "list_all float_read rs \<Longrightarrow> loop_inv s \<Longrightarrow> loop_inv (snd (read_all sv rs s))" for rs s
    by (rule read_all_inv [OF fin])
  have pend: "loop_inv (snd (pending_reads sv t s))" if "loop_inv s" for s
    unfolding pending_reads_def using assms(2) by (intro andthen_inv that) (auto simp: reads float_turn_def)
  have poll: "loop_inv (snd (polled_reads sv t s))" if "loop_inv s" for s
    unfolding polled_reads_def using that assms(2)
    by (auto split: poll_result.split simp: reads float_turn_def intro!: andthen_inv)
  have "0 \<le> lt_video_now t" using assms(2) by (simp add: float_turn_def)
  then show ?thesis unfolding session_turn_def using assms(3)
    by (auto simp: pend poll clock_query_inv pump_haptics_inv held_idr_inv update_stream_description_inv video_turn_def
        pump_video_inv intro!: andthen_inv)
qed

section \<open>Runs\<close>

text \<open>
  The step relation of a running session: a turn of its own thread that does
  not end it, or an action of another thread on what they share.
\<close>

inductive session_step ::
    "session_env \<Rightarrow> (view_info, timing_info, 'g, 'p) wire_env \<Rightarrow> ('g, 'p) headset_session \<Rightarrow> ('g, 'p) headset_session \<Rightarrow> bool"
  for sv we where
  turn: "float_turn t \<Longrightarrow> session_turn sv we t s = (True, s') \<Longrightarrow> session_step sv we s s'"
| pulse: "session_step sv we s (s\<lparr>sn_bridge := push_haptic h (sn_bridge s)\<rparr>)"
| encoded: "session_step sv we s (s\<lparr>sn_video := push_frames fs (sn_video s)\<rparr>)"
| described: "session_step sv we s (s\<lparr>sn_video := publish_stream info valid (sn_video s)\<rparr>)"

inductive session_reach ::
    "session_env \<Rightarrow> (view_info, timing_info, 'g, 'p) wire_env \<Rightarrow> ('g, 'p) headset_session \<Rightarrow> ('g, 'p) headset_session \<Rightarrow> bool"
  for sv we s0 where
  start: "session_reach sv we s0 s0"
| step: "session_reach sv we s0 s \<Longrightarrow> session_step sv we s s' \<Longrightarrow> session_reach sv we s0 s'"

lemma video_update_inv:
  "loop_inv s \<Longrightarrow> vr_active (vb_request v) = vr_active (vb_request (sn_video s)) \<Longrightarrow> loop_inv (s\<lparr>sn_video := v\<rparr>)"
  by (erule inv_frame) simp_all

lemma session_step_inv:
  assumes "\<And>x. sv_is_finite sv x \<Longrightarrow> is_num x" and "session_step sv we s s'" and "loop_inv s"
  shows "loop_inv s'"
  using assms(2)
proof cases
  case (turn t)
  then show ?thesis using session_turn_inv [where sv = sv and we = we, OF assms(1) turn(1) assms(3)] by simp
next
  case (pulse h)
  have "bridge_wf (push_haptic h (sn_bridge s))"
    using bridge.inv_step [of "sn_bridge s" "PushHaptic h"] assms(3) by (simp add: loop_inv_def shown_inv_def)
  then show ?thesis using assms(3) unfolding pulse
    by (simp add: loop_inv_def shown_inv_def sending_inv_def sender_front_def poses_good_def) (simp add: push_haptic_def)
next
  case (encoded fs)
  then show ?thesis using assms(3) by (simp add: video_update_inv push_frames_def split: prod.split)
next
  case (described info valid)
  then show ?thesis using assms(3) by (simp add: video_update_inv publish_stream_def)
qed

lemma session_reach_inv:
  assumes "\<And>x. sv_is_finite sv x \<Longrightarrow> is_num x" and "session_reach sv we s0 s" and "loop_inv s0"
  shows "loop_inv s"
  using assms(2,3) by induction (auto intro: session_step_inv [OF assms(1)])

text \<open>The state in which \<^verbatim>\<open>run\<close> is entered: the handshake has delivered the headset's description.\<close>

definition session_begin :: "session_env \<Rightarrow> 'g \<Rightarrow> bool \<Rightarrow> headset_info \<Rightarrow> bridge \<Rightarrow> video_bridge \<Rightarrow> ('g, 'p) headset_session" where
  "session_begin sv g stream info b v =
     (let s = on_headset_info sv info (session_new g stream b v) in s\<lparr>sn_clock := clock_reset (sn_clock s)\<rparr>)"

definition bridge_ok :: "bridge \<Rightarrow> bool" where
  "bridge_ok b \<longleftrightarrow> bridge_wf b \<and> config_ok (br_config b) \<and> list_all pose_ok (br_pose b)"

lemma session_begin_inv:
  assumes "\<And>x. sv_is_finite sv x \<Longrightarrow> is_num x" and "bridge_ok b"
  shows "loop_inv (session_begin sv g stream info b v :: ('g, 'p) headset_session)"
proof -
  let ?n = "session_new g stream b v :: ('g, 'p) headset_session"
  let ?s = "on_headset_info sv info ?n"
  have "list_all sz_good (replicate kDeviceCount pose_sanitizer_new)"
    by (simp add: list_all_iff sz_good_def sz_inv_def pose_sanitizer_new_def)
  then have "shown_inv ?n" using assms(2) by (simp add: shown_inv_def session_new_def bridge_ok_def poses_good_def)
  then have "shown_inv ?s" using transport_shown [of sv ?n "MInfo info", OF assms(1)] by simp
  moreover have "wanted ?s" by (simp add: on_headset_info_def configure_transport_def Let_def split: prod.split)
  moreover have "untouched ?s = untouched ?n" using untouched_transport [of sv ?n "MInfo info"] by simp
  ultimately have "loop_inv ?s"
    by (simp add: loop_inv_def sending_inv_def sender_front_def wanted_def untouched_def session_new_def sender_new_def Let_def)
  then show ?thesis unfolding session_begin_def Let_def by (rule inv_frame) simp_all
qed

lemma run_setup_inv:
  assumes "loop_inv s"
  shows "loop_inv (snd (run_setup sv s))"
proof -
  have "loop_inv (snd (send_stream_setup sv s'))" if "loop_inv s'" for s' :: "('a, 'b) headset_session"
    using send_inv(1) [OF description_update_inv(2) [OF that]]
    by (simp add: send_stream_setup_def Let_def split_beta description_update_inv(3))
  then show ?thesis unfolding run_setup_def
    by (intro andthen_inv idr_update_inv assms) (auto simp: send_tracking_pattern_def send_inv)
qed


section \<open>The end of a session\<close>

text \<open>What the shim and the encoder see when there is no headset.\<close>

definition headset_away :: "bridge \<Rightarrow> video_bridge \<Rightarrow> bool" where
  "headset_away b v \<longleftrightarrow> (\<forall>i < kDeviceCount. \<not> br_present b ! i \<and> pu_connected (br_pose b ! i) = 0)
     \<and> \<not> vr_active (vb_request v) \<and> vb_frames v = []"

lemma gone_pose_ok: "list_all pose_ok (br_pose b) \<Longrightarrow> bridge_wf b \<Longrightarrow> list_all pose_ok (br_pose (on_client_gone b))"
proof -
  assume ok: "list_all pose_ok (br_pose b)" and wf: "bridge_wf b"
  have l: "length (br_pose b) = kDeviceCount" "length (br_pose (on_client_gone b)) = kDeviceCount"
    using wf bridge.inv_step [OF wf, of ClientGone] by (simp_all add: bridge_wf_def)
  have "pose_ok ((br_pose b ! i)\<lparr>pu_connected := 0\<rparr>)" if "i < kDeviceCount" for i
    using ok that l by (simp add: list_all_length pose_ok_def)
  then show ?thesis using on_client_gone_slot(1) [OF wf] l by (simp add: list_all_length)
qed

lemma bridge_gone_ok:
  assumes "bridge_ok b"
  shows "bridge_ok (on_client_gone b)"
  using assms bridge.inv_step [of b ClientGone] gone_pose_ok [of b] by (simp add: bridge_ok_def)

lemma session_end_quiet:
  assumes "loop_inv s"
  shows "headset_away (fst (session_end s)) (snd (session_end s)) \<and> bridge_ok (fst (session_end s))"
  using assms bridge_gone_ok [of "sn_bridge s"] on_client_gone_slot(1,3) [of "sn_bridge s"]
  by (simp add: session_end_def headset_away_def loop_inv_def shown_inv_def sending_inv_def bridge_ok_def poses_good_def clear_client_def)

lemma run_turns_inv:
  assumes "\<And>x. sv_is_finite sv x \<Longrightarrow> is_num x"
  shows "list_all float_turn ts \<Longrightarrow> loop_inv s \<Longrightarrow> loop_inv (snd (run_turns sv we ts s))"
proof (induction ts arbitrary: s)
  case (Cons t ts)
  have "loop_inv (snd (session_turn sv we t s))" using Cons.prems by (intro session_turn_inv assms) simp_all
  then show ?case using Cons by (simp add: split_beta)
qed simp

section \<open>Examples\<close>

definition demo_config :: hmd_config where
  "demo_config = (dec_hmd_config (replicate 104 0))\<lparr>hc_eye_width := 2064, hc_eye_height := 2208,
     hc_proj_left := (f32_bits (Num (- 1)), f32_bits (Num (- 1))), hc_proj_right := (f32_bits (Num 1), f32_bits (Num 1)),
     hc_proj_top := (f32_bits (Num (- 1)), f32_bits (Num (- 1))), hc_proj_bottom := (f32_bits (Num 1), f32_bits (Num 1))\<rparr>"

lemma demo_config_ok: "config_ok demo_config"
proof -
  have "edges_ok (f32_bits (Num (- 1))) (f32_bits (Num 1)) (f32_bits (Num (- 1))) (f32_bits (Num 1))"
    unfolding edges_ok_def by (intro exI [of _ "- 1"] exI [of _ 1]) simp
  then show ?thesis by (simp add: config_ok_def demo_config_def)
qed

lemma bridge_new_ok: "config_ok c \<Longrightarrow> bridge_ok (bridge_new c)"
  using fresh_poses_good [of "()" True c video_bridge_new]
  by (simp add: bridge_ok_def bridge_wf_new poses_good_def session_new_def) (simp add: bridge_new_def)

theorem poll_wait_fits_witness: "poll_timeout_ms 5000000 1500000 = 4 \<and> 5000000 \<le> 1500000 + 4 * (1000000 :: int)"
  using poll_wait_fits [of 5000000 1500000] by (simp add: poll_timeout_ms_def)


end
