(* ===== verification/Pairing_Store.thy ===== *)
theory Pairing_Store
  imports Prelude
begin

text \<open>
  What the helper keeps under \<^verbatim>\<open>%APPDATA%\wivrnnx\<close>: the list of paired headsets,
  the DNS-SD cookie and the pairing PIN, from \<^verbatim>\<open>helper/src/wivrn/store.cpp\<close>, and
  \<^verbatim>\<open>clean_key\<close> of \<^verbatim>\<open>session.cpp\<close>, the normal form the keys are compared in. The
  file system is a map from paths to contents; how far one \<^verbatim>\<open>ReadFile\<close> or
  \<^verbatim>\<open>WriteFile\<close> call gets is an argument. The theorems say which headsets are
  recognised after any sequence of pairings, that a write that fails leaves the
  old list in place, and that the search for a free name ends.
\<close>

section \<open>Lines and characters\<close>

abbreviation NL :: char where "NL \<equiv> CHR 0x0A"
abbreviation TAB :: char where "TAB \<equiv> CHR 0x09"
abbreviation CR :: char where "CR \<equiv> CHR 0x0D"

text \<open>The loop over \<^verbatim>\<open>find('\n', pos)\<close> that both \<^verbatim>\<open>clean_key\<close> and \<^verbatim>\<open>known_keys\<close> run.\<close>

function split_lines :: "string \<Rightarrow> string list" where
  "split_lines [] = []"
| "split_lines (c # cs) =
     takeWhile (\<lambda>x. x \<noteq> NL) (c # cs) # split_lines (drop 1 (dropWhile (\<lambda>x. x \<noteq> NL) (c # cs)))"
  by pat_completeness auto
termination
  by (relation "measure length")
    (auto intro: le_less_trans [OF diff_le_self] simp: length_dropWhile_le le_imp_less_Suc)

definition is_blank :: "char \<Rightarrow> bool" where
  "is_blank c \<longleftrightarrow> c = CHR '' '' \<or> c = TAB \<or> c = CR \<or> c = NL \<or> c = CHR 0x0C \<or> c = CHR 0x0B"

fun contains :: "string \<Rightarrow> string \<Rightarrow> bool" where
  "contains pat [] \<longleftrightarrow> pat = []"
| "contains pat (c # cs) \<longleftrightarrow> take (length pat) (c # cs) = pat \<or> contains pat cs"

definition armour :: "string \<Rightarrow> bool" where
  "armour line \<longleftrightarrow> contains ''-----BEGIN'' line \<or> contains ''-----END'' line
     \<or> (1 < length line \<and> line ! 0 = CHR ''-'')"

definition clean_key :: "string \<Rightarrow> string" where
  "clean_key key = concat (map (filter (\<lambda>c. \<not> is_blank c)) (filter (\<lambda>l. \<not> armour l) (split_lines key)))"

section \<open>Files\<close>

text \<open>
  \<^verbatim>\<open>ReadFile\<close> at an offset either fails or yields at most the 4096 bytes of the
  buffer; the loop stops at the first call that fails or yields nothing.
  \<^verbatim>\<open>WriteFile\<close> at an offset fails or takes some of the bytes it was given, whose
  number is a 32-bit \<^verbatim>\<open>DWORD\<close>.
\<close>

type_synonym reader = "nat \<Rightarrow> nat option"

record writer =
  wr_create :: bool
  wr_write :: "nat \<Rightarrow> nat option"
  wr_move :: bool

type_synonym files = "string \<Rightarrow> string option"

function read_loop :: "reader \<Rightarrow> string \<Rightarrow> nat \<Rightarrow> string" where
  "read_loop rd data off =
     (case rd off of None \<Rightarrow> []
      | Some n \<Rightarrow>
          (let got = min n (min 4096 (length data - off))
           in if got = 0 then [] else take got (drop off data) @ read_loop rd data (off + got)))"
  by pat_completeness auto
termination
  by (relation "measure (\<lambda>(rd, data, off). length data - off)") auto

definition read_file :: "reader \<Rightarrow> string \<Rightarrow> files \<Rightarrow> string option" where
  "read_file rd path fs = (case fs path of None \<Rightarrow> None | Some data \<Rightarrow> Some (read_loop rd data 0))"

function write_loop :: "(nat \<Rightarrow> nat option) \<Rightarrow> string \<Rightarrow> nat \<Rightarrow> bool \<times> nat" where
  "write_loop wr data sent =
     (if sent < length data then
        (case wr sent of None \<Rightarrow> (False, sent)
         | Some n \<Rightarrow>
             (let written = min n ((length data - sent) mod 2 ^ 32)
              in if written = 0 then (False, sent) else write_loop wr data (sent + written)))
      else (True, sent))"
  by pat_completeness auto
termination
  by (relation "measure (\<lambda>(wr, data, sent). length data - sent)") auto

declare read_loop.simps [simp del] write_loop.simps [simp del]

definition write_file_atomic :: "writer \<Rightarrow> string \<Rightarrow> string \<Rightarrow> files \<Rightarrow> bool \<times> files" where
  "write_file_atomic w path data fs =
     (let tmp = path @ ''.new''
      in if \<not> wr_create w then (False, fs)
         else case write_loop (wr_write w) data 0 of (ok, sent) \<Rightarrow>
           (let fs1 = fs(tmp \<mapsto> take sent data)
            in if \<not> ok then (False, fs1)
               else if \<not> wr_move w then (False, fs1)
               else (True, fs1(tmp := None, path \<mapsto> take sent data))))"

section \<open>The directory\<close>

text \<open>
  \<open>roaming\<close> is the answer of \<^verbatim>\<open>SHGetKnownFolderPath\<close>, \<open>env\<close> that of
  \<^verbatim>\<open>GetEnvironmentVariableW\<close>, \<open>made\<close> whether the directory exists afterwards.
\<close>

definition appdata_dir :: "string option \<Rightarrow> string option \<Rightarrow> bool \<Rightarrow> string" where
  "appdata_dir roaming env made =
     (case (case roaming of Some r \<Rightarrow> Some r
            | None \<Rightarrow> (case env of None \<Rightarrow> None
                | Some e \<Rightarrow> if length e = 0 \<or> 260 \<le> length e then None else Some e))
      of None \<Rightarrow> [] | Some base \<Rightarrow> if made then base @ CHR 0x5C # ''wivrnnx'' else [])"

definition key_file :: "string \<Rightarrow> string" where
  "key_file dir = (if dir = [] then [] else dir @ CHR 0x5C # ''known_keys.txt'')"

definition cookie_file :: "string \<Rightarrow> string" where
  "cookie_file dir = (if dir = [] then [] else dir @ CHR 0x5C # ''cookie'')"

section \<open>The key list\<close>

record headset_key =
  hk_public_key :: string
  hk_name :: string

definition sanitize_name :: "string \<Rightarrow> string" where
  "sanitize_name name =
     (let name = map (\<lambda>c. if c = TAB \<or> c = CR \<or> c = NL then CHR '' '' else c) name
      in if name = [] then ''Unknown headset'' else name)"

definition parse_key_line :: "string \<Rightarrow> headset_key option" where
  "parse_key_line line0 =
     (let line = (if line0 \<noteq> [] \<and> last line0 = CR then butlast line0 else line0)
      in if line = [] \<or> line ! 0 = CHR ''#'' then None
         else if TAB \<notin> set line then None
         else Some \<lparr>hk_public_key = drop 1 (dropWhile (\<lambda>c. c \<noteq> TAB) line),
                    hk_name = takeWhile (\<lambda>c. c \<noteq> TAB) line\<rparr>)"

definition parse_keys :: "string \<Rightarrow> headset_key list" where
  "parse_keys data = List.map_filter parse_key_line (split_lines data)"

definition known_keys :: "reader \<Rightarrow> string \<Rightarrow> files \<Rightarrow> headset_key list" where
  "known_keys rd dir fs =
     (if key_file dir = [] then []
      else case read_file rd (key_file dir) fs of None \<Rightarrow> [] | Some data \<Rightarrow> parse_keys data)"

definition is_key_known :: "reader \<Rightarrow> string \<Rightarrow> files \<Rightarrow> string \<Rightarrow> bool" where
  "is_key_known rd dir fs key \<longleftrightarrow>
     key \<noteq> [] \<and> key \<in> set (map hk_public_key (known_keys rd dir fs))"

text \<open>\<^verbatim>\<open>std::to_string\<close> of a non-negative number.\<close>

definition digit_char :: "nat \<Rightarrow> char" where
  "digit_char d = ''0123456789'' ! d"

fun to_string :: "nat \<Rightarrow> string" where
  "to_string n = (if n < 10 then [digit_char n] else to_string (n div 10) @ [digit_char (n mod 10)])"

declare to_string.simps [simp del]

definition candidate :: "string \<Rightarrow> nat \<Rightarrow> string" where
  "candidate original n = original @ '' ('' @ to_string n @ '')''"

text \<open>The loop \<^verbatim>\<open>while (clash)\<close>: try the name, then " (2)", " (3)" and so on.\<close>

partial_function (option) free_name :: "string list \<Rightarrow> string \<Rightarrow> nat \<Rightarrow> string \<Rightarrow> string option" where
  "free_name names original n name =
     (if name \<in> set names then free_name names original (n + 1) (candidate original (n + 1))
      else Some name)"

definition key_file_header :: string where
  "key_file_header = ''# wivrnnx paired headsets: <name>'' @ CHR 0x5C # ''t<public key>'' @ [NL]"

definition render_keys :: "headset_key list \<Rightarrow> string" where
  "render_keys keys = key_file_header @ concat (map (\<lambda>k. hk_name k @ [TAB] @ hk_public_key k @ [NL]) keys)"

definition add_known_key :: "reader \<Rightarrow> writer \<Rightarrow> string \<Rightarrow> headset_key \<Rightarrow> files \<Rightarrow> files option" where
  "add_known_key rd w dir key fs =
     (if hk_public_key key = [] then Some fs
      else let keys = known_keys rd dir fs
        in if hk_public_key key \<in> set (map hk_public_key keys) then Some fs
           else let original = sanitize_name (hk_name key)
             in case free_name (map hk_name keys) original 1 original of
                  None \<Rightarrow> None
                | Some name \<Rightarrow>
                    (let out = render_keys (keys @ [\<lparr>hk_public_key = hk_public_key key, hk_name = name\<rparr>])
                     in if key_file dir = [] then Some fs
                        else Some (snd (write_file_atomic w (key_file dir) out fs))))"

section \<open>The cookie and the PIN\<close>

definition alphabet :: string where
  "alphabet = ''0123456789ABCDEFGHIJKLMNOPQRSTUVWXYZabcdefghijklmnopqrstuvwxyz''"

text \<open>The fallback when \<^verbatim>\<open>BCryptGenRandom\<close> fails: a linear congruence over the counter.\<close>

fun lcg_bytes :: "nat \<Rightarrow> u64 \<Rightarrow> u8 list" where
  "lcg_bytes 0 x = []"
| "lcg_bytes (Suc n) x =
     (let x' = x * 6364136223846793005 + 1442695040888963407
      in ucast (drop_bit 33 x') # lcg_bytes n x')"

definition cookie_seed :: "u64 \<Rightarrow> u32 \<Rightarrow> u64" where
  "cookie_seed qpc pid = xor qpc (push_bit 32 (ucast pid))"

definition cookie_of :: "u8 list \<Rightarrow> string" where
  "cookie_of raw = map (\<lambda>b. alphabet ! (unat b mod 62)) raw"

text \<open>\<open>random\<close> is what the system generator delivered, or None when it failed.\<close>

definition server_cookie ::
    "reader \<Rightarrow> writer \<Rightarrow> string \<Rightarrow> u8 list option \<Rightarrow> u64 \<Rightarrow> u32 \<Rightarrow> files \<Rightarrow> string \<times> files" where
  "server_cookie rd w dir random qpc pid fs =
     (let path = cookie_file dir;
          fresh = cookie_of (case random of Some raw \<Rightarrow> raw | None \<Rightarrow> lcg_bytes 32 (cookie_seed qpc pid));
          made = (fresh, if path = [] then fs else snd (write_file_atomic w path fresh fs))
      in if path = [] then made
         else case read_file rd path fs of None \<Rightarrow> made
           | Some existing \<Rightarrow> if 32 \<le> length existing then (take 32 existing, fs) else made)"

definition random_pin :: "u32 option \<Rightarrow> u64 \<Rightarrow> string" where
  "random_pin random qpc =
     (let value = (case random of Some v \<Rightarrow> v | None \<Rightarrow> ucast qpc);
          s = to_string (unat (value mod 1000000))
      in replicate (6 - length s) (CHR ''0'') @ s)"

section \<open>Lines\<close>

lemma split_lines_line: "NL \<notin> set l \<Longrightarrow> split_lines (l @ NL # rest) = l # split_lines rest"
proof -
  assume l: "NL \<notin> set l"
  have tw: "takeWhile (\<lambda>x. x \<noteq> NL) (l @ NL # rest) = l" and dw: "dropWhile (\<lambda>x. x \<noteq> NL) (l @ NL # rest) = NL # rest"
    using l by (induction l) auto
  show ?thesis
  proof (cases "l @ NL # rest")
    case (Cons c cs)
    show ?thesis using split_lines.simps(2) [of c cs] tw dw unfolding Cons [symmetric] by simp
  qed simp
qed

lemma split_lines_unlines:
  "list_all (\<lambda>l. NL \<notin> set l) ls \<Longrightarrow> split_lines (concat (map (\<lambda>l. l @ [NL]) ls)) = ls"
  by (induction ls) (simp_all add: split_lines_line)

lemma clean_key_not_blank: "c \<in> set (clean_key s) \<Longrightarrow> \<not> is_blank c"
  by (auto simp: clean_key_def)

text \<open>Two spellings of one key compare equal: line breaks, blanks and armour do not count.\<close>

lemma contains_first: "contains (c # cs) s \<Longrightarrow> c \<in> set s"
  by (induction s) (auto simp: take_Cons' split: if_splits)

lemma armour_dash: "CHR ''-'' \<notin> set l \<Longrightarrow> \<not> armour l"
  by (cases l) (auto simp: armour_def dest: contains_first)

lemma clean_key_spelling:
  assumes "list_all (\<lambda>l. NL \<notin> set l \<and> CHR ''-'' \<notin> set l) body" and "armour head" and "armour tail"
    and "NL \<notin> set head" and "NL \<notin> set tail"
  shows "clean_key (concat (map (\<lambda>l. l @ [NL]) ([head] @ body @ [tail])))
    = filter (\<lambda>c. \<not> is_blank c) (concat body)"
proof -
  have "filter (\<lambda>l. \<not> armour l) body = body"
    using assms(1) by (induction body) (simp_all add: armour_dash)
  moreover have "split_lines (concat (map (\<lambda>l. l @ [NL]) ([head] @ body @ [tail]))) = [head] @ body @ [tail]"
    using assms by (intro split_lines_unlines) (auto simp: list_all_iff)
  ultimately show ?thesis
    unfolding clean_key_def using assms(2,3) by (simp add: filter_concat)
qed

lemma clean_key_one_line:
  assumes "list_all (\<lambda>c. \<not> is_blank c \<and> c \<noteq> CHR ''-'') s"
  shows "clean_key s = s"
proof -
  have "NL \<notin> set s" "CHR ''-'' \<notin> set s" and f: "filter (\<lambda>c. \<not> is_blank c) s = s"
    using assms by (auto simp: list_all_iff is_blank_def filter_id_conv)
  then have "takeWhile (\<lambda>x. x \<noteq> NL) s = s" "dropWhile (\<lambda>x. x \<noteq> NL) s = []"
    by (auto simp: takeWhile_eq_all_conv dropWhile_eq_Nil_conv)
  then have "split_lines s = (if s = [] then [] else [s])"
    by (cases s) simp_all
  then show ?thesis using armour_dash [OF \<open>CHR ''-'' \<notin> set s\<close>] f by (simp add: clean_key_def)
qed

section \<open>Decimal numbers\<close>

lemma digit_char_inj: "a < 10 \<Longrightarrow> b < 10 \<Longrightarrow> digit_char a = digit_char b \<Longrightarrow> a = b"
  unfolding digit_char_def by (subst (asm) nth_eq_iff_index_eq) simp_all

lemma to_string_ne [simp]: "to_string n \<noteq> []" "[] \<noteq> to_string n"
  using to_string.simps [of n] by (auto split: if_splits)

lemma to_string_inj: "to_string a = to_string b \<Longrightarrow> a = b"
proof (induction a arbitrary: b rule: to_string.induct)
  case (1 a)
  show ?case
  proof (cases "a < 10 \<or> b < 10")
    case True
    with 1(2) show ?thesis
      using to_string.simps [of a] to_string.simps [of b]
      by (auto split: if_splits dest: digit_char_inj)
  next
    case False
    with 1(2) have "to_string (a div 10) = to_string (b div 10)" "digit_char (a mod 10) = digit_char (b mod 10)"
      by (simp_all add: to_string.simps [of a] to_string.simps [of b])
    with 1(1) [of "b div 10"] False have "a div 10 = b div 10" "a mod 10 = b mod 10"
      by (auto intro: digit_char_inj)
    then show ?thesis by (metis div_mult_mod_eq)
  qed
qed

lemma to_string_length: "n < 10 ^ Suc k \<Longrightarrow> length (to_string n) \<le> Suc k"
proof (induction k arbitrary: n)
  case 0
  then show ?case by (subst to_string.simps) simp
next
  case (Suc k)
  then have "n div 10 < 10 ^ Suc k" by (simp add: div_less_iff_less_mult mult.commute)
  with Suc.IH [of "n div 10"] show ?case by (subst to_string.simps) simp
qed

lemma to_string_digits:
  assumes "\<And>d. d < 10 \<Longrightarrow> P (digit_char d)"
  shows "list_all P (to_string n)"
proof (induction n rule: to_string.induct)
  case (1 n)
  then show ?case by (subst to_string.simps) (simp add: assms)
qed

lemma candidate_inj: "candidate s a = candidate s b \<Longrightarrow> a = b"
  by (auto simp: candidate_def dest: to_string_inj)

section \<open>The search for a free name\<close>

definition clashes :: "string list \<Rightarrow> string \<Rightarrow> nat \<Rightarrow> nat set" where
  "clashes names original n = {k. n < k \<and> candidate original k \<in> set names}"

lemma clashes_bound: "finite (clashes names original n) \<and> card (clashes names original n) \<le> length names"
proof -
  have inj: "inj_on (candidate original) (clashes names original n)"
    by (rule inj_onI) (rule candidate_inj)
  have sub: "candidate original ` clashes names original n \<subseteq> set names" by (auto simp: clashes_def)
  have "finite (clashes names original n)" using finite_subset [OF sub] finite_imageD [OF _ inj] by blast
  moreover have "card (clashes names original n) \<le> card (set names)"
    using card_mono [OF _ sub] by (simp add: card_image [OF inj])
  ultimately show ?thesis using card_length [of names] by linarith
qed

lemma clashes_next:
  assumes "candidate original (n + 1) \<in> set names"
  shows "card (clashes names original n) = Suc (card (clashes names original (n + 1)))"
proof -
  have "clashes names original n = insert (n + 1) (clashes names original (n + 1))"
    using assms by (auto simp: clashes_def)
  moreover have "n + 1 \<notin> clashes names original (n + 1)" by (simp add: clashes_def)
  ultimately show ?thesis using clashes_bound [of names original "n + 1"] by simp
qed

lemma free_name_found:
  "\<exists>name'. free_name names original n name = Some name' \<and> name' \<notin> set names
     \<and> (name' = name \<or> (\<exists>k. name' = candidate original k \<and> k \<le> n + card (clashes names original n) + 1))"
proof (induction "card (clashes names original n)" arbitrary: n name rule: less_induct)
  case less
  show ?case
  proof (cases "name \<in> set names")
    case False
    then show ?thesis by (simp add: free_name.simps)
  next
    case clash: True
    show ?thesis
    proof (cases "candidate original (n + 1) \<in> set names")
      case False
      with clash have "free_name names original n name = Some (candidate original (n + 1))"
        by (subst free_name.simps, subst free_name.simps) simp
      with False show ?thesis by (intro exI [of _ "candidate original (n + 1)"]) auto
    next
      case True
      note c = clashes_next [OF True]
      from less [of "n + 1" "candidate original (n + 1)"] c obtain name' where
        f: "free_name names original (n + 1) (candidate original (n + 1)) = Some name'" "name' \<notin> set names"
        and k: "\<exists>k. name' = candidate original k \<and> k \<le> n + 1 + card (clashes names original (n + 1)) + 1"
        by auto (metis le_add1 add_Suc_right add.commute)
      from f clash k c show ?thesis by (simp add: free_name.simps [of _ _ n])
    qed
  qed
qed

section \<open>Files\<close>

definition reliable_reader :: "reader \<Rightarrow> bool" where
  "reliable_reader rd \<longleftrightarrow> (\<forall>off. rd off \<noteq> None \<and> rd off \<noteq> Some 0)"

definition reliable_writer :: "writer \<Rightarrow> bool" where
  "reliable_writer w \<longleftrightarrow> wr_create w \<and> wr_move w \<and> (\<forall>off. wr_write w off \<noteq> None \<and> wr_write w off \<noteq> Some 0)"

lemma read_loop_all: "reliable_reader rd \<Longrightarrow> read_loop rd data off = drop off data"
proof (induction rd data off rule: read_loop.induct)
  case (1 rd data off)
  from 1(2) obtain n where n: "rd off = Some n" "0 < n" unfolding reliable_reader_def by (metis neq0_conv not_None_eq)
  show ?case
  proof (cases "off < length data")
    case True
    let ?got = "min n (min 4096 (length data - off))"
    have got: "?got \<noteq> 0" using n True by simp
    have "read_loop rd data (off + ?got) = drop (off + ?got) data" using 1(1) [OF n(1) refl got] 1(2) by simp
    moreover have "read_loop rd data off = take ?got (drop off data) @ read_loop rd data (off + ?got)"
      using read_loop.simps [of rd data off] n(1) got by (simp only: option.case Let_def if_False)
    ultimately show ?thesis by (metis add.commute append_take_drop_id drop_drop)
  next
    case False
    then show ?thesis using n by (subst read_loop.simps) simp
  qed
qed

lemma write_loop_ok: "write_loop wr data sent = (True, m) \<Longrightarrow> sent \<le> length data \<Longrightarrow> m = length data"
proof (induction wr data sent rule: write_loop.induct)
  case (1 wr data sent)
  show ?case
  proof (cases "sent < length data")
    case True
    with 1(2) obtain n where n: "wr sent = Some n"
      by (subst (asm) write_loop.simps) (auto split: option.splits)
    let ?written = "min n ((length data - sent) mod 2 ^ 32)"
    have "(if ?written = 0 then (False, sent) else write_loop wr data (sent + ?written)) = (True, m)"
      using 1(2) write_loop.simps [of wr data sent] n True by (simp only: option.case Let_def if_True)
    then have w: "?written \<noteq> 0" "write_loop wr data (sent + ?written) = (True, m)"
      by (simp_all only: split: if_splits) simp_all
    have "?written \<le> length data - sent" by (meson min.cobounded2 mod_less_eq_dividend order_trans)
    with 1(1) [OF True n refl w] True show ?thesis by simp
  next
    case False
    with 1(2,3) show ?thesis by (subst (asm) write_loop.simps) simp
  qed
qed

lemma write_is_atomic_aux:
  "fst (write_file_atomic w path data fs) \<Longrightarrow> snd (write_file_atomic w path data fs) path = Some data"
  using write_loop_ok [of "wr_write w" data 0]
  by (auto simp: write_file_atomic_def Let_def split: prod.splits if_splits)


lemma write_loop_reliable:
  assumes w: "\<forall>off. wr off \<noteq> None \<and> wr off \<noteq> Some 0" and "length data < 2 ^ 32"
  shows "fst (write_loop wr data sent)"
  using assms
proof (induction wr data sent rule: write_loop.induct)
  case (1 wr data sent)
  obtain n where n: "wr sent = Some n" "0 < n"
    using 1(2) by (metis neq0_conv not_None_eq)
  show ?case
  proof (cases "sent < length data")
    case True
    let ?written = "min n ((length data - sent) mod 2 ^ 32)"
    have w: "?written \<noteq> 0" using True 1(3) n(2) by simp
    have "write_loop wr data sent = write_loop wr data (sent + ?written)"
      using write_loop.simps [of wr data sent] n(1) w True by (simp only: option.case Let_def if_True if_False)
    with 1(1) [OF True n(1) refl w 1(2,3)] show ?thesis by simp
  next
    case False
    then show ?thesis by (subst write_loop.simps) simp
  qed
qed

lemma write_reliable:
  assumes "reliable_writer w" and "length data < 2 ^ 32"
  shows "fst (write_file_atomic w path data fs)"
  using assms write_loop_reliable [of "wr_write w" data 0]
  by (auto simp: write_file_atomic_def reliable_writer_def Let_def split: prod.splits)

lemma write_file_frame:
  "p \<noteq> path \<Longrightarrow> p \<noteq> path @ ''.new'' \<Longrightarrow> snd (write_file_atomic w path data fs) p = fs p"
  by (auto simp: write_file_atomic_def Let_def split: prod.splits)

section \<open>What is written is what is read\<close>

text \<open>A record that survives the line format: no control character in it.\<close>

definition storable :: "headset_key \<Rightarrow> bool" where
  "storable k \<longleftrightarrow> hk_name k \<noteq> [] \<and> set (hk_name k) \<inter> {TAB, CR, NL} = {} \<and> set (hk_public_key k) \<inter> {TAB, CR, NL} = {}"

definition commented :: "headset_key \<Rightarrow> bool" where
  "commented k \<longleftrightarrow> hk_name k ! 0 = CHR ''#''"

lemma parse_rendered_line:
  assumes "storable k"
  shows "parse_key_line (hk_name k @ [TAB] @ hk_public_key k) = (if commented k then None else Some k)"
proof -
  have cr: "last (hk_name k @ [TAB] @ hk_public_key k) \<noteq> CR"
    using assms by (cases "hk_public_key k" rule: rev_cases) (auto simp: storable_def)
  have nt: "takeWhile (\<lambda>c. c \<noteq> TAB) (hk_name k @ [TAB] @ hk_public_key k) = hk_name k"
    "dropWhile (\<lambda>c. c \<noteq> TAB) (hk_name k @ [TAB] @ hk_public_key k) = TAB # hk_public_key k"
    using assms unfolding storable_def by (auto simp: takeWhile_append dropWhile_append)
  show ?thesis
    using cr nt assms by (auto simp: parse_key_line_def Let_def commented_def storable_def nth_append)
qed

lemma parse_render:
  assumes "list_all storable ks"
  shows "parse_keys (render_keys ks) = filter (\<lambda>k. \<not> commented k) ks"
proof -
  let ?header = "butlast key_file_header"
  have h: "key_file_header = ?header @ [NL]" "NL \<notin> set ?header" "parse_key_line ?header = None"
    by (simp_all add: key_file_header_def parse_key_line_def)
  have "render_keys ks = concat (map (\<lambda>l. l @ [NL]) (?header # map (\<lambda>k. hk_name k @ [TAB] @ hk_public_key k) ks))"
    using h(1) by (simp add: render_keys_def comp_def)
  moreover have "split_lines (concat (map (\<lambda>l. l @ [NL]) (?header # map (\<lambda>k. hk_name k @ [TAB] @ hk_public_key k) ks)))
      = ?header # map (\<lambda>k. hk_name k @ [TAB] @ hk_public_key k) ks"
    using assms h(2) by (intro split_lines_unlines) (auto simp: list_all_iff storable_def)
  ultimately have "parse_keys (render_keys ks)
      = List.map_filter parse_key_line (map (\<lambda>k. hk_name k @ [TAB] @ hk_public_key k) ks)"
    using h(3) by (simp add: parse_keys_def List.map_filter_simps)
  also have "\<dots> = filter (\<lambda>k. \<not> commented k) ks"
    using assms by (induction ks) (simp_all add: List.map_filter_simps parse_rendered_line [simplified])
  finally show ?thesis .
qed

section \<open>Pairing\<close>

text \<open>What the session does when an unknown headset has shown that it knows the PIN.\<close>

definition pair_headset :: "reader \<Rightarrow> writer \<Rightarrow> string \<Rightarrow> string \<times> string \<Rightarrow> files \<Rightarrow> files option" where
  "pair_headset rd w dir p fs =
     add_known_key rd w dir \<lparr>hk_public_key = clean_key (fst p), hk_name = snd p\<rparr> fs"

fun pair_all :: "reader \<Rightarrow> writer \<Rightarrow> string \<Rightarrow> (string \<times> string) list \<Rightarrow> files \<Rightarrow> files option" where
  "pair_all rd w dir [] fs = Some fs"
| "pair_all rd w dir (p # ps) fs = Option.bind (pair_headset rd w dir p fs) (pair_all rd w dir ps)"

definition key_list :: "string \<Rightarrow> files \<Rightarrow> headset_key list \<Rightarrow> bool" where
  "key_list dir fs ks \<longleftrightarrow> (fs (key_file dir) = None \<and> ks = [] \<or> fs (key_file dir) = Some (render_keys ks))
     \<and> list_all storable ks"

lemma known_keys_list:
  assumes "reliable_reader rd" and "dir \<noteq> []" and "key_list dir fs ks"
  shows "known_keys rd dir fs = filter (\<lambda>k. \<not> commented k) ks"
  using assms by (auto simp: known_keys_def key_list_def key_file_def read_file_def read_loop_all parse_render)

lemma sanitize_name_plain:
  "sanitize_name name \<noteq> []" "set (sanitize_name name) \<inter> {TAB, CR, NL} = {}"
  "length (sanitize_name name) \<le> length name + 15"
  "sanitize_name name ! 0 = CHR ''#'' \<longleftrightarrow> take 1 name = ''#''"
  by (cases name; auto simp: sanitize_name_def Let_def)+

lemma digit_char_plain: "d < 10 \<Longrightarrow> digit_char d \<notin> {TAB, CR, NL}"
proof -
  assume "d < 10"
  then have "digit_char d \<in> set ''0123456789''" unfolding digit_char_def by (intro nth_mem) simp
  then show ?thesis by auto
qed

lemma candidate_plain:
  assumes "s \<noteq> []" and "set s \<inter> {TAB, CR, NL} = {}"
  shows "candidate s n \<noteq> []" "set (candidate s n) \<inter> {TAB, CR, NL} = {}" "candidate s n ! 0 = s ! 0"
  using assms to_string_digits [of "\<lambda>c. c \<notin> {TAB, CR, NL}" n, OF digit_char_plain]
  by (auto simp: candidate_def nth_append list_all_iff)

text \<open>The record one pairing appends, and that it fits the line format.\<close>

lemma new_key:
  assumes "length names < 2 ^ 32"
  obtains name' where "free_name names (sanitize_name name) 1 (sanitize_name name) = Some name'"
    and "name' \<notin> set names"
    and "storable \<lparr>hk_public_key = clean_key pem, hk_name = name'\<rparr>"
    and "commented \<lparr>hk_public_key = clean_key pem, hk_name = name'\<rparr> \<longleftrightarrow> take 1 name = ''#''"
    and "length name' \<le> length name + 30"
proof -
  let ?s = "sanitize_name name"
  note s = sanitize_name_plain [of name]
  obtain name' where f: "free_name names ?s 1 ?s = Some name'" "name' \<notin> set names"
    and k: "name' = ?s \<or> (\<exists>k. name' = candidate ?s k \<and> k \<le> 1 + card (clashes names ?s 1) + 1)"
    using free_name_found [of names ?s 1 ?s] by auto
  have key: "set (clean_key pem) \<inter> {TAB, CR, NL} = {}"
    using clean_key_not_blank [of _ pem] by (auto simp: is_blank_def)
  have "name' \<noteq> [] \<and> set name' \<inter> {TAB, CR, NL} = {} \<and> name' ! 0 = ?s ! 0"
    using k candidate_plain [OF s(1,2)] s(1,2) by auto
  moreover have "length name' \<le> length name + 30"
    using k
  proof
    assume "\<exists>k. name' = candidate ?s k \<and> k \<le> 1 + card (clashes names ?s 1) + 1"
    then obtain k where k: "name' = candidate ?s k" "k \<le> 2 + card (clashes names ?s 1)" by auto
    have "card (clashes names ?s 1) \<le> length names" using clashes_bound by blast
    with k(2) assms have "k < 10 ^ Suc 9" by simp
    then have "length (to_string k) \<le> 10" using to_string_length [of k 9] by simp
    with k(1) s(3) show ?thesis by (simp add: candidate_def)
  qed (use s(3) in simp)
  ultimately show ?thesis using that f key s(4) by (auto simp: storable_def commented_def)
qed

definition pairing_size :: "string \<times> string \<Rightarrow> nat" where
  "pairing_size p = length (clean_key (fst p)) + length (snd p) + 32"

definition list_size :: "headset_key list \<Rightarrow> nat" where
  "list_size ks = sum_list (map (\<lambda>k. length (hk_name k) + length (hk_public_key k) + 2) ks)"

lemma length_render: "length (render_keys ks) = 48 + list_size ks"
  by (induction ks) (simp_all add: render_keys_def list_size_def key_file_header_def)

lemma list_size_filter: "list_size (filter P ks) \<le> list_size ks"
  by (induction ks) (simp_all add: list_size_def)

lemma list_size_length: "length ks \<le> list_size ks"
  by (induction ks) (simp_all add: list_size_def)

definition known_set :: "headset_key list \<Rightarrow> string set" where
  "known_set ks = hk_public_key ` {k \<in> set ks. \<not> commented k}"

lemma known_set_append: "known_set (xs @ ys) = known_set xs \<union> known_set ys"
  by (auto simp: known_set_def)

lemma known_set_filter: "known_set (filter (\<lambda>k. \<not> commented k) ks) = known_set ks"
  by (auto simp: known_set_def)

lemma known_set_single: "known_set [k] = (if commented k then {} else {hk_public_key k})"
  by (auto simp: known_set_def)

definition paired :: "string \<times> string \<Rightarrow> string set" where
  "paired p = (if clean_key (fst p) \<noteq> [] \<and> take 1 (snd p) \<noteq> ''#'' then {clean_key (fst p)} else {})"

lemma pair_headset_step:
  assumes io: "reliable_reader rd" "reliable_writer w" "dir \<noteq> []"
    and ks: "key_list dir fs ks" and size: "48 + list_size ks + pairing_size p < 2 ^ 32"
  shows "\<exists>fs' ks'. pair_headset rd w dir p fs = Some fs' \<and> key_list dir fs' ks'
    \<and> list_size ks' \<le> list_size ks + pairing_size p \<and> known_set ks' = known_set ks \<union> paired p"
proof (cases "clean_key (fst p) = [] \<or> clean_key (fst p) \<in> known_set ks")
  case True
  then have "pair_headset rd w dir p fs = Some fs"
    by (auto simp: pair_headset_def add_known_key_def known_keys_list [OF io(1,3) ks] known_set_def)
  with True ks show ?thesis by (intro exI [of _ fs] exI [of _ ks]) (auto simp: paired_def)
next
  case False
  let ?known = "filter (\<lambda>k. \<not> commented k) ks"
  have "length (map hk_name ?known) < 2 ^ 32"
    using size list_size_length [of ?known] list_size_filter [of "\<lambda>k. \<not> commented k" ks] by simp
  then obtain name' where n: "free_name (map hk_name ?known) (sanitize_name (snd p)) 1 (sanitize_name (snd p)) = Some name'"
    and st: "storable \<lparr>hk_public_key = clean_key (fst p), hk_name = name'\<rparr>"
    and co: "commented \<lparr>hk_public_key = clean_key (fst p), hk_name = name'\<rparr> \<longleftrightarrow> take 1 (snd p) = ''#''"
    and len: "length name' \<le> length (snd p) + 30"
    by (rule new_key [where pem = "fst p"])
  let ?ks = "?known @ [\<lparr>hk_public_key = clean_key (fst p), hk_name = name'\<rparr>]"
  have sz: "list_size ?ks \<le> list_size ks + pairing_size p"
    using list_size_filter [of "\<lambda>k. \<not> commented k" ks] len by (simp add: list_size_def pairing_size_def)
  let ?fs = "snd (write_file_atomic w (key_file dir) (render_keys ?ks) fs)"
  have fs': "pair_headset rd w dir p fs = Some ?fs"
    using False io(3) n
    by (auto simp: pair_headset_def add_known_key_def known_keys_list [OF io(1,3) ks] known_set_def key_file_def Let_def)
  have ok: "fst (write_file_atomic w (key_file dir) (render_keys ?ks) fs)"
    using size sz by (intro write_reliable [OF io(2)]) (simp add: length_render del: length_append)
  have "list_all storable ?ks" using ks st by (auto simp: key_list_def list_all_iff)
  with write_is_atomic_aux [OF ok] have "key_list dir ?fs ?ks" by (simp add: key_list_def)
  moreover have "known_set ?ks = known_set ks \<union> paired p"
    using False co by (simp add: known_set_append known_set_filter known_set_single paired_def)
  ultimately show ?thesis using fs' sz by blast
qed

lemma pair_all_known:
  assumes io: "reliable_reader rd" "reliable_writer w" "dir \<noteq> []"
    and "key_list dir fs ks" and "48 + list_size ks + sum_list (map pairing_size ps) < 2 ^ 32"
  shows "\<exists>fs' ks'. pair_all rd w dir ps fs = Some fs' \<and> key_list dir fs' ks'
    \<and> known_set ks' = known_set ks \<union> \<Union> (set (map paired ps))"
  using assms(4,5)
proof (induction ps arbitrary: fs ks)
  case (Cons p ps)
  obtain fs1 ks1 where s: "pair_headset rd w dir p fs = Some fs1" "key_list dir fs1 ks1"
    "list_size ks1 \<le> list_size ks + pairing_size p" "known_set ks1 = known_set ks \<union> paired p"
    using pair_headset_step [OF io Cons.prems(1), of p] Cons.prems(2) by auto
  with Cons.IH [OF s(2)] Cons.prems(2) show ?case by (auto simp: Un_assoc)
qed auto

text \<open>
  C21. The key file implements a set of keys. After any sequence of pairings
  on a machine with no key file and a working disk, a headset is recognised
  exactly when its key, in the cleaned form, was paired under a name that does
  not begin with a hash sign. A record with such a name is written as a comment
  line and lost.
\<close>

theorem paired_headsets_known:
  assumes "reliable_reader rd" and "reliable_writer w" and "dir \<noteq> []" and "fs (key_file dir) = None"
    and "48 + sum_list (map pairing_size ps) < 2 ^ 32"
  shows "\<exists>fs'. pair_all rd w dir ps fs = Some fs' \<and> (\<forall>key. is_key_known rd dir fs' key \<longleftrightarrow>
    key \<noteq> [] \<and> (\<exists>p \<in> set ps. clean_key (fst p) = key \<and> take 1 (snd p) \<noteq> ''#''))"
proof -
  have "key_list dir fs []" using assms(4) by (simp add: key_list_def)
  then obtain fs' ks' where s: "pair_all rd w dir ps fs = Some fs'" "key_list dir fs' ks'"
    "known_set ks' = \<Union> (set (map paired ps))"
    using pair_all_known [OF assms(1-3), of fs "[]" ps] assms(5) by (auto simp: list_size_def known_set_def)
  have "is_key_known rd dir fs' key \<longleftrightarrow> key \<noteq> [] \<and> key \<in> known_set ks'" for key
    by (auto simp: is_key_known_def known_keys_list [OF assms(1,3) s(2)] known_set_def)
  with s show ?thesis by (auto simp: paired_def split: if_splits)
qed

definition whole_reads :: reader where "whole_reads off = Some 4096"

definition whole_writes :: writer where
  "whole_writes = \<lparr>wr_create = True, wr_write = (\<lambda>off. Some 100), wr_move = True\<rparr>"

theorem paired_headsets_known_witness:
  "\<exists>fs'. pair_all whole_reads whole_writes ''C:'' [(''AAA='', ''Pico''), (''BBB='', ''#1''), (''CCC='', ''Pico'')] Map.empty
       = Some fs'
     \<and> is_key_known whole_reads ''C:'' fs' ''AAA='' \<and> \<not> is_key_known whole_reads ''C:'' fs' ''BBB=''
     \<and> is_key_known whole_reads ''C:'' fs' ''CCC=''"
proof -
  let ?ps = "[(''AAA='', ''Pico''), (''BBB='', ''#1''), (''CCC='', ''Pico'')]"
  have c: "clean_key ''AAA='' = ''AAA=''" "clean_key ''BBB='' = ''BBB=''" "clean_key ''CCC='' = ''CCC=''"
    by (rule clean_key_one_line, simp add: is_blank_def)+
  have "reliable_reader whole_reads" "reliable_writer whole_writes" "''C:'' \<noteq> []"
    "Map.empty (key_file ''C:'') = None" "48 + sum_list (map pairing_size ?ps) < 2 ^ 32"
    by (simp_all add: reliable_reader_def reliable_writer_def whole_reads_def whole_writes_def pairing_size_def c)
  from paired_headsets_known [OF this] obtain fs' where fs': "pair_all whole_reads whole_writes ''C:'' ?ps Map.empty = Some fs'"
    and known: "\<And>key. is_key_known whole_reads ''C:'' fs' key \<longleftrightarrow>
      key \<noteq> [] \<and> (\<exists>p \<in> set ?ps. clean_key (fst p) = key \<and> take 1 (snd p) \<noteq> ''#'')" by blast
  show ?thesis by (rule exI [of _ fs']) (simp only: fs' known, simp add: c)
qed

text \<open>
  C27. The search for a free name always ends, whatever names are taken, and
  what it finds is not taken: the name the headset asked for, or that name with
  a number.
\<close>

theorem free_name_ends:
  "\<exists>name. free_name names original 1 original = Some name \<and> name \<notin> set names
     \<and> (name = original \<or> (\<exists>k. name = candidate original k))"
  using free_name_found [of names original 1 original] by auto

section \<open>The cookie and the PIN\<close>

lemma length_lcg_bytes [simp]: "length (lcg_bytes n x) = n"
  by (induction n arbitrary: x) (simp_all add: Let_def)

lemma cookie_alphabet: "list_all (\<lambda>c. c \<in> set alphabet) (cookie_of raw)"
proof -
  have "alphabet ! (b mod 62) \<in> set alphabet" for b by (rule nth_mem) (simp add: alphabet_def)
  then show ?thesis by (simp add: cookie_of_def list_all_iff)
qed

text \<open>The cookie of a first run is the cookie of every later one, whatever the generator delivers then.\<close>

lemma cookie_survives_restart:
  assumes io: "reliable_reader rd" "reliable_writer w" "dir \<noteq> []" and new: "fs (cookie_file dir) = None"
    and len: "case random of None \<Rightarrow> True | Some raw \<Rightarrow> length raw = 32"
    and run: "server_cookie rd w dir random qpc pid fs = (cookie, fs1)"
  shows "length cookie = 32" "server_cookie rd w2 dir random2 qpc2 pid2 fs1 = (cookie, fs1)"
proof -
  let ?path = "cookie_file dir"
  have path: "?path \<noteq> []" using io(3) by (simp add: cookie_file_def)
  let ?fresh = "cookie_of (case random of Some raw \<Rightarrow> raw | None \<Rightarrow> lcg_bytes 32 (cookie_seed qpc pid))"
  have r: "cookie = ?fresh" "fs1 = snd (write_file_atomic w ?path ?fresh fs)"
    using run path new by (auto simp: server_cookie_def read_file_def Let_def)
  show l: "length cookie = 32" using len by (simp add: r(1) cookie_of_def split: option.splits)
  have "fst (write_file_atomic w ?path cookie fs)" by (rule write_reliable [OF io(2)]) (simp add: l)
  from write_is_atomic_aux [OF this] have "fs1 ?path = Some cookie" by (simp add: r)
  then show "server_cookie rd w2 dir random2 qpc2 pid2 fs1 = (cookie, fs1)"
    using path l by (simp add: server_cookie_def read_file_def read_loop_all [OF io(1)] Let_def)
qed

lemma pin_six_digits:
  "length (random_pin random qpc) = 6" "list_all (\<lambda>c. c \<in> set ''0123456789'') (random_pin random qpc)"
proof -
  have d: "digit_char d \<in> set ''0123456789''" if "d < 10" for d
    unfolding digit_char_def using that by (intro nth_mem) simp
  have "unat ((v :: u32) mod 1000000) < 10 ^ Suc 5" for v by (simp add: unat_mod)
  then have l: "length (to_string (unat ((v :: u32) mod 1000000))) \<le> 6" for v
    using to_string_length [of "unat (v mod 1000000)" 5] by simp
  show "length (random_pin random qpc) = 6" using l by (simp add: random_pin_def Let_def)
  show "list_all (\<lambda>c. c \<in> set ''0123456789'') (random_pin random qpc)"
    unfolding random_pin_def Let_def list_all_append
    using to_string_digits [of "\<lambda>c. c \<in> set ''0123456789''", OF d] by (simp only: list_all_iff) simp
qed

end
