(* ===== verification/Session_Handshake.thy ===== *)
theory Session_Handshake
  imports Pairing_Store
begin

text \<open>
  The first half of a headset session, \<^verbatim>\<open>Session::handshake\<close> and
  \<^verbatim>\<open>Session::receive_one\<close> of \<^verbatim>\<open>helper/src/wivrn/session.cpp\<close>: protocol version,
  key agreement, PIN check, stream socket and pairing. The sockets are seen
  through what each turn of the poll loop delivers; a packet that is sent is
  recorded together with whether the control socket was encrypting at the time.
  The cryptography is that of the Linux repository: the key parser, the PIN
  proof and the key derivation are fields of the environment, and nothing is
  assumed of them. The theorems say who gets in, that the session token is not
  sent in the clear, that only a completed pairing writes the key file, and
  that video leaves from the address the headset dialed.
\<close>

section \<open>Packets and addresses\<close>

datatype encryption_state = EncDisabled | EncEnabled | EncPairing

record server_options =
  so_encryption :: encryption_state
  so_pin :: string
  so_tcp_only :: bool

datatype crypto_state = IncompatibleVersion | EncryptionOff | PairingOff | AlreadyPaired | PinNeeded

text \<open>\<open>'m\<close> is a message of the PIN proof, \<open>'i\<close> the headset's description of itself.\<close>

datatype ('m, 'i) hs_packet =
    FromCrypto u64 string string
  | FromPin1 'm
  | FromPin3 'm
  | FromHandshake
  | FromInfo 'i
  | FromOther

datatype 'm hs_reply =
    ToCrypto string crypto_state
  | ToPin2 'm
  | ToPin4 'm
  | ToHandshake int "u8 list"

record address =
  ad_bytes :: "u8 list"
  ad_port :: u16
  ad_scope :: u32

definition v4_mapped :: "address \<Rightarrow> bool" where
  "v4_mapped a \<longleftrightarrow> take 12 (ad_bytes a) = replicate 10 0 @ [0xFF, 0xFF]"

text \<open>The stream socket: its family, the address it is bound to and the one it is connected to.\<close>

datatype endpoint = V4 "u8 list" u16 | V6 "u8 list" u16 u32

record stream_socket =
  st_local :: endpoint
  st_peer :: "endpoint option"
  st_keyed :: bool

definition endpoint_of :: "address \<Rightarrow> address \<Rightarrow> u16 \<Rightarrow> endpoint" where
  "endpoint_of client a port =
     (if v4_mapped client then V4 (take 4 (drop 12 (ad_bytes a))) port else V6 (ad_bytes a) port (ad_scope a))"

section \<open>Receiving\<close>

datatype hs_error = Cancelled | PollFailed | StreamError | ControlError | NoPacket | ReceiveFailed | SendFailed
  | BadVariant | WrongVersion | BadKey | PairingRefused | IncorrectPin | PinUnchecked | SocketFailed | NoHandshake

datatype ('m, 'i) datagram = DgEmpty | DgMalformed | DgThrows | Datagram "('m, 'i) hs_packet" u16

datatype ('m, 'i) control_read = CrNone | CrThrows | CrPacket "('m, 'i) hs_packet"

text \<open>One turn of the loop: the stop flag, what \<^verbatim>\<open>poll\<close> reports, and whether the deadline has passed.\<close>

record ('m, 'i) turn =
  tn_stop :: bool
  tn_poll_fails :: bool
  tn_stream_error :: bool
  tn_control_error :: bool
  tn_stream :: "('m, 'i) datagram option"
  tn_control :: "('m, 'i) control_read option"
  tn_late :: bool

datatype 'a outcome = Done 'a | Failed hs_error | Waiting

record ('m, 'i, 's) hs =
  hs_turns :: "('m, 'i) turn list"
  hs_dropped :: nat
  hs_sent :: "(bool \<times> 'm hs_reply) list"
  hs_keys :: "'s option"
  hs_stream :: "stream_socket option"
  hs_files :: files

fun receive_turns :: "bool \<Rightarrow> ('m, 'i) turn list
     \<Rightarrow> (('m, 'i) hs_packet \<times> u16 option) outcome \<times> ('m, 'i) turn list \<times> nat" where
  "receive_turns watch [] = (Waiting, [], 0)"
| "receive_turns watch (t # ts) =
     (if tn_stop t then (Failed Cancelled, ts, 0)
      else if tn_poll_fails t then (Failed PollFailed, ts, 0)
      else if watch \<and> tn_stream_error t then (Failed StreamError, ts, 0)
      else if tn_control_error t then (Failed ControlError, ts, 0)
      else case (if watch then tn_stream t else None) of
          Some (Datagram p port) \<Rightarrow> (Done (p, Some port), ts, 0)
        | Some DgThrows \<Rightarrow> (Failed ReceiveFailed, ts, 0)
        | dg \<Rightarrow>
            (let n = (if dg = Some DgMalformed then 1 else 0)
             in case tn_control t of
                  Some (CrPacket p) \<Rightarrow> (Done (p, None), ts, n)
                | Some CrThrows \<Rightarrow> (Failed ReceiveFailed, ts, n)
                | _ \<Rightarrow> if tn_late t then (Failed NoPacket, ts, n)
                      else case receive_turns watch ts of (r, ts', m) \<Rightarrow> (r, ts', n + m)))"

text \<open>Steps that may throw, in sequence.\<close>

type_synonym ('m, 'i, 's, 'a) hs_step = "('m, 'i, 's) hs \<Rightarrow> 'a outcome \<times> ('m, 'i, 's) hs"

definition hs_bind ::
    "('m, 'i, 's, 'a) hs_step \<Rightarrow> ('a \<Rightarrow> ('m, 'i, 's, 'b) hs_step) \<Rightarrow> ('m, 'i, 's, 'b) hs_step" where
  "hs_bind m f s = (case m s of (Done x, s') \<Rightarrow> f x s' | (Failed e, s') \<Rightarrow> (Failed e, s') | (Waiting, s') \<Rightarrow> (Waiting, s'))"

definition hs_throw :: "hs_error \<Rightarrow> ('m, 'i, 's, 'a) hs_step" where
  "hs_throw e s = (Failed e, s)"

definition hs_return :: "'a \<Rightarrow> ('m, 'i, 's, 'a) hs_step" where
  "hs_return x s = (Done x, s)"

definition receive_one :: "bool \<Rightarrow> ('m, 'i, 's, ('m, 'i) hs_packet \<times> u16 option) hs_step" where
  "receive_one allow_stream s =
     (case receive_turns (allow_stream \<and> hs_stream s \<noteq> None) (hs_turns s) of
        (r, ts, n) \<Rightarrow> (r, s\<lparr>hs_turns := ts, hs_dropped := hs_dropped s + n\<rparr>))"

section \<open>The environment\<close>

text \<open>
  \<open>he_send_ok n\<close> is whether the send after \<open>n\<close> earlier ones succeeds.
  \<open>he_step2\<close> and \<open>he_step4\<close> are the two halves of the PIN proof; None stands
  for the exception \<^verbatim>\<open>smp_cheated\<close>, and the truth value for "the PINs match".
\<close>

record ('m, 's) hs_env =
  he_server :: address
  he_client :: address
  he_names_ok :: bool
  he_socket_ok :: bool
  he_bind_ok :: bool
  he_connect_ok :: bool
  he_send_ok :: "nat \<Rightarrow> bool"
  he_token :: "u8 list"
  he_version :: u64
  he_key_ok :: "string \<Rightarrow> bool"
  he_key_pem :: "string \<Rightarrow> string"
  he_server_key :: string
  he_step2 :: "'m \<Rightarrow> string \<Rightarrow> 'm option"
  he_step4 :: "'m \<Rightarrow> string \<Rightarrow> 'm \<Rightarrow> ('m \<times> bool) option"
  he_secrets :: "string \<Rightarrow> string \<Rightarrow> 's"
  he_reader :: reader
  he_writer :: writer
  he_dir :: string

definition hs_send :: "('m, 's) hs_env \<Rightarrow> 'm hs_reply \<Rightarrow> ('m, 'i, 's, unit) hs_step" where
  "hs_send he p s =
     (if he_send_ok he (length (hs_sent s))
      then (Done (), s\<lparr>hs_sent := hs_sent s @ [(hs_keys s \<noteq> None, p)]\<rparr>) else (Failed SendFailed, s))"

section \<open>The handshake\<close>

definition open_stream :: "('m, 's) hs_env \<Rightarrow> server_options \<Rightarrow> ('m, 'i, 's, int) hs_step" where
  "open_stream he opt s =
     (if \<not> he_names_ok he then (Failed SocketFailed, s)
      else if so_tcp_only opt then (Done (- 1), s)
      else if \<not> he_socket_ok he \<or> \<not> he_bind_ok he then (Failed SocketFailed, s)
      else (Done (uint (ad_port (he_server he))),
            s\<lparr>hs_stream := Some \<lparr>st_local = endpoint_of (he_client he) (he_server he) (ad_port (he_server he)),
               st_peer = None, st_keyed = False\<rparr>\<rparr>))"

definition pin_verdict ::
    "('m, 's) hs_env \<Rightarrow> server_options \<Rightarrow> 'm \<Rightarrow> 'm \<Rightarrow> ('m, 'i, 's, unit) hs_step" where
  "pin_verdict he opt msg1 msg3 =
     (case he_step4 he msg1 (so_pin opt) msg3 of
        None \<Rightarrow> hs_throw PinUnchecked
      | Some (msg4, pin_match) \<Rightarrow> hs_bind (hs_send he (ToPin4 msg4)) (\<lambda>_.
          if pin_match then hs_return () else hs_throw IncorrectPin))"

definition pin_answer :: "('m, 's) hs_env \<Rightarrow> server_options \<Rightarrow> 'm \<Rightarrow> ('m, 'i, 's, unit) hs_step" where
  "pin_answer he opt msg1 =
     (case he_step2 he msg1 (so_pin opt) of
        None \<Rightarrow> hs_throw PinUnchecked
      | Some msg2 \<Rightarrow> hs_bind (hs_send he (ToPin2 msg2)) (\<lambda>_. hs_bind (receive_one False) (\<lambda>(p, _).
          case p of FromPin3 msg3 \<Rightarrow> pin_verdict he opt msg1 msg3 | _ \<Rightarrow> hs_throw BadVariant)))"

definition pin_check :: "('m, 's) hs_env \<Rightarrow> server_options \<Rightarrow> ('m, 'i, 's, unit) hs_step" where
  "pin_check he opt =
     hs_bind (receive_one False) (\<lambda>(p, _).
       case p of FromPin1 msg1 \<Rightarrow> pin_answer he opt msg1 | _ \<Rightarrow> hs_throw BadVariant)"

definition set_keys :: "'s \<Rightarrow> ('m, 'i, 's, unit) hs_step" where
  "set_keys k s = (Done (), s\<lparr>hs_keys := Some k,
     hs_stream := (case hs_stream s of None \<Rightarrow> None | Some st \<Rightarrow> Some (st\<lparr>st_keyed := True\<rparr>))\<rparr>)"

definition agree_keys ::
    "('m, 's) hs_env \<Rightarrow> server_options \<Rightarrow> string \<Rightarrow> bool \<Rightarrow> ('m, 'i, 's, unit) hs_step" where
  "agree_keys he opt public_key known =
     hs_bind (hs_send he (ToCrypto (he_server_key he) (if known then AlreadyPaired else PinNeeded))) (\<lambda>_.
       hs_bind (if known then hs_return () else pin_check he opt) (\<lambda>_.
         set_keys (he_secrets he public_key (if known then ''000000'' else so_pin opt))))"

definition crypto_switch ::
    "('m, 's) hs_env \<Rightarrow> server_options \<Rightarrow> string \<Rightarrow> bool \<Rightarrow> ('m, 'i, 's, unit) hs_step" where
  "crypto_switch he opt public_key known =
     (case so_encryption opt of
        EncDisabled \<Rightarrow> hs_send he (ToCrypto [] EncryptionOff)
      | EncEnabled \<Rightarrow>
          (if known then agree_keys he opt public_key known
           else hs_bind (hs_send he (ToCrypto [] PairingOff)) (\<lambda>_. hs_throw PairingRefused))
      | EncPairing \<Rightarrow> agree_keys he opt public_key known)"

definition admit_headset ::
    "('m, 's) hs_env \<Rightarrow> server_options \<Rightarrow> string \<Rightarrow> string \<Rightarrow> ('m, 'i, 's, string \<times> string \<times> bool) hs_step" where
  "admit_headset he opt public_key name s =
     (let known = is_key_known (he_reader he) (he_dir he) (hs_files s) (clean_key public_key)
      in hs_bind (crypto_switch he opt public_key known) (\<lambda>_. hs_return (public_key, name, known)) s)"

definition crypto_handshake ::
    "('m, 's) hs_env \<Rightarrow> server_options \<Rightarrow> ('m, 'i, 's, string \<times> string \<times> bool) hs_step" where
  "crypto_handshake he opt =
     hs_bind (receive_one False) (\<lambda>(p, _). case p of
       FromCrypto version public_key name \<Rightarrow>
         (if version \<noteq> he_version he
          then hs_bind (hs_send he (ToCrypto [] IncompatibleVersion)) (\<lambda>_. hs_throw WrongVersion)
          else if \<not> he_key_ok he public_key then hs_throw BadKey
          else admit_headset he opt public_key name)
     | _ \<Rightarrow> hs_throw BadVariant)"

definition connect_stream :: "('m, 's) hs_env \<Rightarrow> u16 option \<Rightarrow> ('m, 'i, 's, unit) hs_step" where
  "connect_stream he port s =
     (case port of
        None \<Rightarrow> (Done (), s\<lparr>hs_stream := None\<rparr>)
      | Some port \<Rightarrow>
          (if \<not> he_connect_ok he then (Failed SocketFailed, s)
           else (Done (), s\<lparr>hs_stream := (case hs_stream s of None \<Rightarrow> None
              | Some st \<Rightarrow> Some (st\<lparr>st_peer := Some (endpoint_of (he_client he) (he_client he) port)\<rparr>))\<rparr>)))"

definition stream_handshake :: "('m, 's) hs_env \<Rightarrow> int \<Rightarrow> ('m, 'i, 's, unit) hs_step" where
  "stream_handshake he stream_port =
     hs_bind (receive_one False) (\<lambda>(p, _). case p of
       FromCrypto _ _ _ \<Rightarrow>
         hs_bind (hs_send he (ToHandshake stream_port (he_token he))) (\<lambda>_.
           hs_bind (receive_one True) (\<lambda>(q, port). case q of
             FromHandshake \<Rightarrow> hs_bind (connect_stream he port) (\<lambda>_.
               hs_send he (ToHandshake stream_port (he_token he)))
           | _ \<Rightarrow> hs_throw NoHandshake))
     | _ \<Rightarrow> hs_throw NoHandshake)"

definition remember_key ::
    "('m, 's) hs_env \<Rightarrow> server_options \<Rightarrow> string \<Rightarrow> string \<Rightarrow> bool \<Rightarrow> ('m, 'i, 's, unit) hs_step" where
  "remember_key he opt public_key name known s =
     (if so_encryption opt = EncPairing \<and> \<not> known
      then case pair_headset (he_reader he) (he_writer he) (he_dir he) (he_key_pem he public_key, name) (hs_files s) of
          None \<Rightarrow> (Waiting, s)
        | Some fs \<Rightarrow> (Done (), s\<lparr>hs_files := fs\<rparr>)
      else (Done (), s))"

text \<open>The result is the headset's description of itself, and who it is.\<close>

definition finish_handshake ::
    "('m, 's) hs_env \<Rightarrow> server_options \<Rightarrow> string \<times> string \<times> bool \<Rightarrow> ('m, 'i, 's, 'i \<times> string \<times> string \<times> bool) hs_step" where
  "finish_handshake he opt who =
     hs_bind (receive_one False) (\<lambda>(p, _). case p of
       FromInfo info \<Rightarrow> (case who of (public_key, name, known) \<Rightarrow>
         hs_bind (remember_key he opt public_key name known) (\<lambda>_. hs_return (info, public_key, name, known)))
     | _ \<Rightarrow> hs_throw BadVariant)"

definition session_handshake ::
    "('m, 's) hs_env \<Rightarrow> server_options \<Rightarrow> ('m, 'i, 's, 'i \<times> string \<times> string \<times> bool) hs_step" where
  "session_handshake he opt =
     hs_bind (open_stream he opt) (\<lambda>stream_port.
       hs_bind (crypto_handshake he opt) (\<lambda>who.
         hs_bind (stream_handshake he stream_port) (\<lambda>_. finish_handshake he opt who)))"

definition hs_new :: "('m, 'i) turn list \<Rightarrow> files \<Rightarrow> ('m, 'i, 's) hs" where
  "hs_new ts fs = \<lparr>hs_turns = ts, hs_dropped = 0, hs_sent = [], hs_keys = None, hs_stream = None, hs_files = fs\<rparr>"

section \<open>Reasoning about the steps\<close>

text \<open>\<open>hs_wp m Q E s\<close>: run from \<open>s\<close>, the step ends normally in \<open>Q\<close>, or otherwise in \<open>E\<close>.\<close>

definition hs_wp ::
    "('m, 'i, 's, 'a) hs_step \<Rightarrow> ('a \<Rightarrow> ('m, 'i, 's) hs \<Rightarrow> bool) \<Rightarrow> (('m, 'i, 's) hs \<Rightarrow> bool) \<Rightarrow> ('m, 'i, 's) hs \<Rightarrow> bool" where
  "hs_wp m Q E s \<longleftrightarrow> (case m s of (Done x, s') \<Rightarrow> Q x s' | (Failed e, s') \<Rightarrow> E s' | (Waiting, s') \<Rightarrow> E s')"

lemma hs_wp_bind [simp]: "hs_wp (hs_bind m f) Q E s \<longleftrightarrow> hs_wp m (\<lambda>x. hs_wp (f x) Q E) E s"
  by (auto simp: hs_wp_def hs_bind_def split: prod.splits outcome.splits)

lemma hs_wp_simps [simp]:
  "hs_wp (hs_return x) Q E = Q x"
  "hs_wp (hs_throw e) Q E = E"
  by (simp_all add: fun_eq_iff hs_wp_def hs_return_def hs_throw_def)

lemma hs_wp_set_keys [simp]:
  "hs_wp (set_keys k) Q E s \<longleftrightarrow> Q () (s\<lparr>hs_keys := Some k,
     hs_stream := (case hs_stream s of None \<Rightarrow> None | Some st \<Rightarrow> Some (st\<lparr>st_keyed := True\<rparr>))\<rparr>)"
  by (simp add: hs_wp_def set_keys_def)

lemma hs_wp_send [simp]:
  "hs_wp (hs_send he p) Q E s \<longleftrightarrow> (if he_send_ok he (length (hs_sent s))
     then Q () (s\<lparr>hs_sent := hs_sent s @ [(hs_keys s \<noteq> None, p)]\<rparr>) else E s)"
  by (simp add: hs_wp_def hs_send_def)

definition hears_packet :: "('m, 'i) turn list \<Rightarrow> ('m, 'i) hs_packet \<Rightarrow> bool" where
  "hears_packet ts p \<longleftrightarrow> (\<exists>t \<in> set ts. tn_control t = Some (CrPacket p))"

lemma receive_turns_from:
  "receive_turns watch ts = (r, ts', n) \<Longrightarrow> set ts' \<subseteq> set ts
     \<and> (\<forall>p. r = Done (p, None) \<longrightarrow> hears_packet ts p) \<and> (\<forall>p port. r = Done (p, Some port) \<longrightarrow> watch)"
proof (induction ts arbitrary: r ts' n)
  case (Cons t ts)
  then show ?case
    by (auto simp: hears_packet_def Let_def split: if_splits option.splits datagram.splits control_read.splits prod.splits)
qed simp

lemma hs_wp_receive:
  assumes "\<And>p port ts n. set ts \<subseteq> set (hs_turns s) \<Longrightarrow> (port = None \<Longrightarrow> hears_packet (hs_turns s) p)
      \<Longrightarrow> (\<not> w \<Longrightarrow> port = None) \<Longrightarrow> (port \<noteq> None \<Longrightarrow> hs_stream s \<noteq> None)
      \<Longrightarrow> Q (p, port) (s\<lparr>hs_turns := ts, hs_dropped := n\<rparr>)"
    and "\<And>ts n. set ts \<subseteq> set (hs_turns s) \<Longrightarrow> E (s\<lparr>hs_turns := ts, hs_dropped := n\<rparr>)"
  shows "hs_wp (receive_one w) Q E s"
proof -
  obtain r ts n where r: "receive_turns (w \<and> hs_stream s \<noteq> None) (hs_turns s) = (r, ts, n)" by (metis prod_cases3)
  have ro: "receive_one w s = (r, s\<lparr>hs_turns := ts, hs_dropped := hs_dropped s + n\<rparr>)"
    unfolding receive_one_def r by simp
  note from' = receive_turns_from [OF r]
  show ?thesis
  proof (cases r)
    case (Done x)
    obtain p port where x: "x = (p, port)" by fastforce
    have "Q (p, port) (s\<lparr>hs_turns := ts, hs_dropped := hs_dropped s + n\<rparr>)"
      using from' Done x by (intro assms(1); cases port) auto
    then show ?thesis by (simp add: hs_wp_def ro Done x)
  qed (use from' in \<open>simp_all add: hs_wp_def ro assms(2)\<close>)
qed

section \<open>Who gets in\<close>

text \<open>The headset proved that it knows the PIN: the record of the exchange that shows it.\<close>

definition pin_proved ::
    "('m, 's) hs_env \<Rightarrow> server_options \<Rightarrow> ('m, 'i) turn list \<Rightarrow> (bool \<times> 'm hs_reply) list \<Rightarrow> bool" where
  "pin_proved he opt ts sent \<longleftrightarrow> (\<exists>m1 m2 m3 m4. hears_packet ts (FromPin1 m1) \<and> he_step2 he m1 (so_pin opt) = Some m2
     \<and> (False, ToPin2 m2) \<in> set sent \<and> hears_packet ts (FromPin3 m3)
     \<and> he_step4 he m1 (so_pin opt) m3 = Some (m4, True) \<and> (False, ToPin4 m4) \<in> set sent)"

definition no_token :: "(bool \<times> 'm hs_reply) list \<Rightarrow> bool" where
  "no_token sent \<longleftrightarrow> list_all (\<lambda>(e, p). case p of ToHandshake _ _ \<Rightarrow> False | _ \<Rightarrow> True) sent"

lemma no_token_simps [simp]:
  "no_token []" "no_token (xs @ ys) \<longleftrightarrow> no_token xs \<and> no_token ys"
  "no_token [(e, ToCrypto k c)]" "no_token [(e, ToPin2 m)]" "no_token [(e, ToPin4 m)]" "\<not> no_token [(e, ToHandshake i tk)]"
  by (simp_all add: no_token_def)

text \<open>What a step before the stream handshake leaves alone.\<close>

definition hs_quiet :: "('m, 'i, 's) hs \<Rightarrow> ('m, 'i, 's) hs \<Rightarrow> bool" where
  "hs_quiet s s' \<longleftrightarrow> hs_files s' = hs_files s \<and> map_option st_local (hs_stream s') = map_option st_local (hs_stream s)
     \<and> (no_token (hs_sent s) \<longrightarrow> no_token (hs_sent s')) \<and> set (hs_turns s') \<subseteq> set (hs_turns s)"

lemma received_mono: "hears_packet ts p \<Longrightarrow> set ts \<subseteq> set ts' \<Longrightarrow> hears_packet ts' p"
  by (auto simp: hears_packet_def)

lemma quiet_refl [simp]: "hs_quiet s s"
  by (simp add: hs_quiet_def)

lemma quiet_trans: "hs_quiet a b \<Longrightarrow> hs_quiet b c \<Longrightarrow> hs_quiet a c"
  by (auto simp: hs_quiet_def)

text \<open>A quiet step that also leaves the keys and the stream socket.\<close>

definition calm :: "('m, 'i, 's) hs \<Rightarrow> ('m, 'i, 's) hs \<Rightarrow> bool" where
  "calm s s' \<longleftrightarrow> hs_quiet s s' \<and> hs_keys s' = hs_keys s \<and> hs_stream s' = hs_stream s \<and> set (hs_sent s) \<subseteq> set (hs_sent s')"

lemma calm_trans: "calm a b \<Longrightarrow> calm b c \<Longrightarrow> calm a c"
  by (auto simp: calm_def intro: quiet_trans)

lemma calm_received: "calm a b \<Longrightarrow> hears_packet (hs_turns b) p \<Longrightarrow> hears_packet (hs_turns a) p"
  by (auto simp: calm_def hs_quiet_def intro: received_mono)

lemma calm_turns: "set ts \<subseteq> set (hs_turns s) \<Longrightarrow> calm s (s\<lparr>hs_turns := ts, hs_dropped := n\<rparr>)"
  by (simp add: calm_def hs_quiet_def)

lemma hs_wp_receive_control:
  assumes "\<And>p s'. calm s s' \<Longrightarrow> hears_packet (hs_turns s) p \<Longrightarrow> Q (p, None) s'" and "\<And>s'. calm s s' \<Longrightarrow> E s'"
  shows "hs_wp (receive_one False) Q E s"
proof (rule hs_wp_receive)
  fix p ts n and port :: "u16 option"
  assume "set ts \<subseteq> set (hs_turns s)" "port = None \<Longrightarrow> hears_packet (hs_turns s) p" "\<not> False \<Longrightarrow> port = None"
  then show "Q (p, port) (s\<lparr>hs_turns := ts, hs_dropped := n\<rparr>)"
    using assms(1) [OF calm_turns] by simp
qed (use assms(2) [OF calm_turns] in simp)

lemma hs_wp_send_calm:
  assumes "no_token [(False, p)]"
    and "\<And>s'. calm s s' \<Longrightarrow> (hs_keys s \<noteq> None, p) \<in> set (hs_sent s') \<Longrightarrow> Q () s'" and "E s"
  shows "hs_wp (hs_send he p) Q E s"
proof -
  have "calm s (s\<lparr>hs_sent := hs_sent s @ [(hs_keys s \<noteq> None, p)]\<rparr>)"
    using assms(1) by (auto simp: calm_def hs_quiet_def no_token_def)
  from assms(2) [OF this] assms(3) show ?thesis by simp
qed

lemma hs_wp_pin_verdict:
  assumes Q: "\<And>s' m4. calm s s' \<Longrightarrow> he_step4 he m1 (so_pin opt) m3 = Some (m4, True)
      \<Longrightarrow> (hs_keys s \<noteq> None, ToPin4 m4) \<in> set (hs_sent s') \<Longrightarrow> Q () s'"
    and E: "\<And>s'. calm s s' \<Longrightarrow> E s'"
  shows "hs_wp (pin_verdict he opt m1 m3) Q E s"
proof -
  have "calm s s" by (simp add: calm_def)
  then show ?thesis
    by (auto simp del: hs_wp_send simp: pin_verdict_def Q E intro!: hs_wp_send_calm split: option.splits)
qed

lemma hs_wp_pin_check:
  assumes keys: "hs_keys s = None"
    and Q: "\<And>s'. calm s s' \<Longrightarrow> pin_proved he opt (hs_turns s) (hs_sent s') \<Longrightarrow> Q () s'"
    and E: "\<And>s'. calm s s' \<Longrightarrow> E s'"
  shows "hs_wp (pin_check he opt) Q E s"
proof -
  have answer: "hs_wp (pin_answer he opt m1) Q E s1" if s1: "calm s s1" and m1: "hears_packet (hs_turns s) (FromPin1 m1)" for s1 m1
  proof (cases "he_step2 he m1 (so_pin opt)")
    case None
    then show ?thesis using E [OF s1] by (simp add: pin_answer_def)
  next
    case (Some m2)
    show ?thesis
      unfolding pin_answer_def Some option.case hs_wp_bind
    proof (rule hs_wp_send_calm)
      fix s2
      assume s2: "calm s1 s2" and sent: "(hs_keys s1 \<noteq> None, ToPin2 m2) \<in> set (hs_sent s2)"
      note s2' = calm_trans [OF s1 s2]
      have sent2: "(False, ToPin2 m2) \<in> set (hs_sent s2)" using sent s1 keys by (simp add: calm_def)
      show "hs_wp (receive_one False) (\<lambda>x. hs_wp (case x of (p, _) \<Rightarrow>
          case p of FromPin3 msg3 \<Rightarrow> pin_verdict he opt m1 msg3 | _ \<Rightarrow> hs_throw BadVariant) Q E) E s2"
      proof (rule hs_wp_receive_control)
        fix p3 s3
        assume s3: "calm s2 s3" and p3: "hears_packet (hs_turns s2) p3"
        note s3' = calm_trans [OF s2' s3]
        have "hs_wp (pin_verdict he opt m1 m3) Q E s3" if m3: "p3 = FromPin3 m3" for m3
        proof (rule hs_wp_pin_verdict)
          fix s4 m4
          assume s4: "calm s3 s4" "he_step4 he m1 (so_pin opt) m3 = Some (m4, True)"
            "(hs_keys s3 \<noteq> None, ToPin4 m4) \<in> set (hs_sent s4)"
          have "hears_packet (hs_turns s) (FromPin3 m3)" using p3 m3 calm_received [OF s2'] by simp
          moreover have "(False, ToPin2 m2) \<in> set (hs_sent s4)"
            using sent2 calm_trans [OF s3 s4(1)] by (auto simp: calm_def)
          moreover have "(False, ToPin4 m4) \<in> set (hs_sent s4)" using s4(3) s3' keys by (simp add: calm_def)
          ultimately have "pin_proved he opt (hs_turns s) (hs_sent s4)"
            using m1 Some s4(2) unfolding pin_proved_def by blast
          then show "Q () s4" using Q calm_trans [OF s3' s4(1)] by blast
        qed (use E calm_trans [OF s3'] in blast)
        then show "hs_wp (case (p3, None) of (p, _) \<Rightarrow>
            case p of FromPin3 msg3 \<Rightarrow> pin_verdict he opt m1 msg3 | _ \<Rightarrow> hs_throw BadVariant) Q E s3"
          using E [OF s3'] by (simp split: hs_packet.split)
      qed (use E calm_trans [OF s2'] in blast)
    qed (use E s1 in simp_all)
  qed
  show ?thesis
    unfolding pin_check_def hs_wp_bind
    by (rule hs_wp_receive_control) (use answer E in \<open>auto split: hs_packet.splits\<close>)
qed

definition admitted ::
    "('m, 's) hs_env \<Rightarrow> server_options \<Rightarrow> ('m, 'i) turn list \<Rightarrow> (bool \<times> 'm hs_reply) list \<Rightarrow> string \<Rightarrow> bool
     \<Rightarrow> 's option \<Rightarrow> bool" where
  "admitted he opt ts sent public_key known keys \<longleftrightarrow>
     (if so_encryption opt = EncDisabled then keys = None
      else keys = Some (he_secrets he public_key (if known then ''000000'' else so_pin opt))
        \<and> (known \<or> so_encryption opt = EncPairing \<and> pin_proved he opt ts sent))"

lemma hs_wp_agree_keys:
  assumes keys: "hs_keys s = None"
    and Q: "\<And>s'. hs_quiet s s' \<Longrightarrow> hs_keys s' = Some (he_secrets he pk (if known then ''000000'' else so_pin opt))
      \<Longrightarrow> known \<or> pin_proved he opt (hs_turns s) (hs_sent s') \<Longrightarrow> Q () s'"
    and E: "\<And>s'. hs_quiet s s' \<Longrightarrow> E s'"
  shows "hs_wp (agree_keys he opt pk known) Q E s"
  unfolding agree_keys_def hs_wp_bind
proof (rule hs_wp_send_calm)
  fix s1
  assume s1: "calm s s1"
  have last: "hs_wp (set_keys (he_secrets he pk (if known then ''000000'' else so_pin opt))) Q E s2"
    if s2: "calm s s2" and ok: "known \<or> pin_proved he opt (hs_turns s) (hs_sent s2)" for s2
    unfolding hs_wp_set_keys
    by (rule Q) (use s2 ok in \<open>auto simp: calm_def hs_quiet_def split: option.splits\<close>)
  show "hs_wp (if known then hs_return () else pin_check he opt)
      (\<lambda>_. hs_wp (set_keys (he_secrets he pk (if known then ''000000'' else so_pin opt))) Q E) E s1"
  proof (cases known)
    case True
    then show ?thesis using last [OF s1] by simp
  next
    case False
    have "hs_wp (pin_check he opt) (\<lambda>_. hs_wp (set_keys (he_secrets he pk (if known then ''000000'' else so_pin opt))) Q E) E s1"
    proof (rule hs_wp_pin_check)
      fix s2
      assume s2: "calm s1 s2" "pin_proved he opt (hs_turns s1) (hs_sent s2)"
      then have "pin_proved he opt (hs_turns s) (hs_sent s2)"
        using calm_received [OF s1] unfolding pin_proved_def by blast
      then show "hs_wp (set_keys (he_secrets he pk (if known then ''000000'' else so_pin opt))) Q E s2"
        using last calm_trans [OF s1 s2(1)] by blast
    qed (use s1 keys E calm_trans [OF s1] in \<open>auto simp: calm_def\<close>)
    with False show ?thesis by simp
  qed
qed (use E in simp_all)

lemma hs_wp_crypto_handshake:
  assumes keys: "hs_keys s = None"
    and Q: "\<And>s' pk name known. hs_quiet s s' \<Longrightarrow> known \<longleftrightarrow> is_key_known (he_reader he) (he_dir he) (hs_files s) (clean_key pk)
      \<Longrightarrow> admitted he opt (hs_turns s) (hs_sent s') pk known (hs_keys s')
      \<Longrightarrow> hears_packet (hs_turns s) (FromCrypto (he_version he) pk name) \<Longrightarrow> Q (pk, name, known) s'"
    and E: "\<And>s'. hs_quiet s s' \<Longrightarrow> E s'"
  shows "hs_wp (crypto_handshake he opt) Q E s"
proof -
  have switch: "hs_wp (crypto_switch he opt pk known) (\<lambda>_. hs_wp (hs_return (pk, name, known)) Q E) E s1"
    if s1: "calm s s1" and known: "known \<longleftrightarrow> is_key_known (he_reader he) (he_dir he) (hs_files s1) (clean_key pk)"
      and pkt: "hears_packet (hs_turns s) (FromCrypto (he_version he) pk name)" for s1 pk name known
  proof -
    have files: "hs_files s1 = hs_files s" and k1: "hs_keys s1 = None" and q1: "hs_quiet s s1"
      using s1 keys by (simp_all add: calm_def hs_quiet_def)
    note Q' = Q [OF _ known [unfolded files] _ pkt]
    have agree: "hs_wp (agree_keys he opt pk known) (\<lambda>_. Q (pk, name, known)) E s1"
      if "so_encryption opt \<noteq> EncDisabled" "known \<or> so_encryption opt = EncPairing"
    proof (rule hs_wp_agree_keys)
      fix s2
      assume s2: "hs_quiet s1 s2" "hs_keys s2 = Some (he_secrets he pk (if known then ''000000'' else so_pin opt))"
        "known \<or> pin_proved he opt (hs_turns s1) (hs_sent s2)"
      have "known \<or> pin_proved he opt (hs_turns s) (hs_sent s2)"
        using s2(3) calm_received [OF s1] unfolding pin_proved_def by blast
      then show "Q (pk, name, known) s2"
        using that s2(2) by (intro Q' quiet_trans [OF q1 s2(1)]) (auto simp: admitted_def)
    qed (use k1 E quiet_trans [OF q1] in auto)
    have off: "hs_wp (hs_send he (ToCrypto [] EncryptionOff)) (\<lambda>_. Q (pk, name, known)) E s1"
      if "so_encryption opt = EncDisabled"
      by (rule hs_wp_send_calm)
        (use that k1 E [OF q1] quiet_trans [OF q1] in \<open>auto intro!: Q' simp: admitted_def calm_def\<close>)
    have refuse: "hs_wp (hs_send he (ToCrypto [] PairingOff)) (\<lambda>_. E) E s1"
      by (rule hs_wp_send_calm) (use E [OF q1] E quiet_trans [OF q1] in \<open>auto simp: calm_def\<close>)
    show ?thesis
      using agree off refuse
      by (cases "so_encryption opt") (simp_all add: crypto_switch_def del: hs_wp_send)
  qed
  have version: "hs_wp (hs_send he (ToCrypto [] IncompatibleVersion)) (\<lambda>_. E) E s1" if "calm s s1" for s1
    by (rule hs_wp_send_calm) (use that E quiet_trans in \<open>auto simp: calm_def\<close>)
  have quiet1: "hs_quiet s s1" if "calm s s1" for s1 using that by (simp add: calm_def)
  have admit: "hs_wp (admit_headset he opt pk name) Q E s1 = (let known = is_key_known (he_reader he) (he_dir he) (hs_files s1) (clean_key pk)
      in hs_wp (hs_bind (crypto_switch he opt pk known) (\<lambda>_. hs_return (pk, name, known))) Q E s1)" for pk name s1
    by (simp add: hs_wp_def admit_headset_def Let_def)
  show ?thesis
    unfolding crypto_handshake_def hs_wp_bind
  proof (rule hs_wp_receive_control)
    fix p s1
    assume s1: "calm s s1" "hears_packet (hs_turns s) p"
    show "hs_wp (case (p, None) of (p, _) \<Rightarrow> case p of
       FromCrypto version public_key name \<Rightarrow>
         (if version \<noteq> he_version he
          then hs_bind (hs_send he (ToCrypto [] IncompatibleVersion)) (\<lambda>_. hs_throw WrongVersion)
          else if \<not> he_key_ok he public_key then hs_throw BadKey
          else admit_headset he opt public_key name)
       | _ \<Rightarrow> hs_throw BadVariant) Q E s1"
      using s1 switch [OF s1(1) refl] version E quiet1
      by (auto simp: Let_def admit simp del: hs_wp_send split: hs_packet.split)
  qed (use E quiet1 in blast)
qed

section \<open>The second half\<close>

definition token_ok :: "server_options \<Rightarrow> (bool \<times> 'm hs_reply) list \<Rightarrow> bool" where
  "token_ok opt sent \<longleftrightarrow> list_all (\<lambda>(encrypted, p). case p of
     ToHandshake _ _ \<Rightarrow> encrypted \<or> so_encryption opt = EncDisabled | _ \<Rightarrow> True) sent"

lemma no_token_ok: "no_token sent \<Longrightarrow> token_ok opt sent"
  by (auto simp: no_token_def token_ok_def list_all_iff split: hs_reply.splits)

text \<open>Where the stream socket sends from and to.\<close>

definition stream_pinned :: "('m, 's) hs_env \<Rightarrow> stream_socket option \<Rightarrow> bool" where
  "stream_pinned he st \<longleftrightarrow> (case st of None \<Rightarrow> True | Some st \<Rightarrow>
     st_local st = endpoint_of (he_client he) (he_server he) (ad_port (he_server he))
     \<and> (\<exists>port. st_peer st = Some (endpoint_of (he_client he) (he_client he) port)))"

definition half_open :: "('m, 's) hs_env \<Rightarrow> ('m, 'i, 's) hs \<Rightarrow> bool" where
  "half_open he s \<longleftrightarrow> map_option st_local (hs_stream s)
     \<in> {None, Some (endpoint_of (he_client he) (he_server he) (ad_port (he_server he)))}"

lemma hs_wp_connect_stream:
  assumes "\<And>st. stream_pinned he st \<Longrightarrow> Q () (s\<lparr>hs_stream := st\<rparr>)" and "E s" and "half_open he s"
  shows "hs_wp (connect_stream he port) Q E s"
proof (cases port)
  case None
  then show ?thesis using assms(1) [of None] by (simp add: hs_wp_def connect_stream_def stream_pinned_def)
next
  case (Some p)
  let ?st = "case hs_stream s of None \<Rightarrow> None
      | Some st \<Rightarrow> Some (st\<lparr>st_peer := Some (endpoint_of (he_client he) (he_client he) p)\<rparr>)"
  have "stream_pinned he ?st" using assms(3) by (auto simp: stream_pinned_def half_open_def split: option.splits)
  with assms Some show ?thesis by (simp add: hs_wp_def connect_stream_def)
qed

lemma hs_wp_stream_handshake:
  assumes keys: "hs_keys s \<noteq> None \<or> so_encryption opt = EncDisabled" and tok: "token_ok opt (hs_sent s)"
    and half: "half_open he s"
    and Q: "\<And>s'. hs_files s' = hs_files s \<Longrightarrow> hs_keys s' = hs_keys s \<Longrightarrow> token_ok opt (hs_sent s')
      \<Longrightarrow> set (hs_sent s) \<subseteq> set (hs_sent s') \<Longrightarrow> stream_pinned he (hs_stream s') \<Longrightarrow> Q () s'"
    and E: "\<And>s'. hs_files s' = hs_files s \<Longrightarrow> token_ok opt (hs_sent s') \<Longrightarrow> E s'"
  shows "hs_wp (stream_handshake he port) Q E s"
proof -
  have tok1: "token_ok opt (xs @ [(hs_keys s \<noteq> None, ToHandshake i tk)]) \<longleftrightarrow> token_ok opt xs" for xs i tk
    using keys by (auto simp: token_ok_def)
  have connect: "hs_wp (connect_stream he port') (\<lambda>_. hs_wp (hs_send he (ToHandshake port (he_token he))) Q E) E s1"
    if "hs_files s1 = hs_files s" "hs_keys s1 = hs_keys s" "token_ok opt (hs_sent s1)" "set (hs_sent s) \<subseteq> set (hs_sent s1)"
      "half_open he s1" for s1 port'
  proof (rule hs_wp_connect_stream)
    fix st
    assume "stream_pinned he st"
    then show "hs_wp (hs_send he (ToHandshake port (he_token he))) Q E (s1\<lparr>hs_stream := st\<rparr>)"
      using that tok1 [of "hs_sent s1" port "he_token he"] unfolding hs_wp_send by (auto intro!: Q E simp: that(2))
  qed (use that E in simp_all)
  show ?thesis
    unfolding stream_handshake_def hs_wp_bind
    by (rule hs_wp_receive)
      (use keys tok half E tok1 [of "hs_sent s"] in
        \<open>auto intro!: hs_wp_receive connect split: hs_packet.splits simp: half_open_def\<close>)
qed

section \<open>The whole handshake\<close>

lemma hs_wp_handshake:
  fixes he :: "('m, 's) hs_env" and ts :: "('m, 'i) turn list"
  assumes Q: "\<And>s' info pk name known.
      known \<longleftrightarrow> is_key_known (he_reader he) (he_dir he) fs (clean_key pk)
      \<Longrightarrow> admitted he opt ts (hs_sent s') pk known (hs_keys s') \<Longrightarrow> token_ok opt (hs_sent s')
      \<Longrightarrow> stream_pinned he (hs_stream s')
      \<Longrightarrow> (if so_encryption opt = EncPairing \<and> \<not> known
           then pair_headset (he_reader he) (he_writer he) (he_dir he) (he_key_pem he pk, name) fs = Some (hs_files s')
           else hs_files s' = fs)
      \<Longrightarrow> hears_packet ts (FromCrypto (he_version he) pk name) \<Longrightarrow> Q (info, pk, name, known) s'"
    and E: "\<And>s'. token_ok opt (hs_sent s') \<Longrightarrow> hs_files s' = fs \<Longrightarrow> E s'"
  shows "hs_wp (session_handshake he opt) Q E (hs_new ts fs)"
proof -
  let ?s0 = "hs_new ts fs"
  have E0: "E ?s0" by (rule E) (simp_all add: hs_new_def token_ok_def)
  have rest: "hs_wp (stream_handshake he port) (\<lambda>_. hs_wp (finish_handshake he opt (pk, name, known)) Q E) E s2"
    if s2: "half_open he s2" "no_token (hs_sent s2)" "hs_files s2 = fs"
      and known: "known \<longleftrightarrow> is_key_known (he_reader he) (he_dir he) fs (clean_key pk)"
      and adm: "admitted he opt ts (hs_sent s2) pk known (hs_keys s2)"
      and pkt: "hears_packet ts (FromCrypto (he_version he) pk name)" for port pk name known s2
  proof (rule hs_wp_stream_handshake)
    show "hs_keys s2 \<noteq> None \<or> so_encryption opt = EncDisabled" using adm by (auto simp: admitted_def split: if_splits)
    show "token_ok opt (hs_sent s2)" using s2(2) by (rule no_token_ok)
    fix s3 :: "('m, 'i, 's) hs"
    assume s3: "hs_files s3 = hs_files s2" "hs_keys s3 = hs_keys s2" "token_ok opt (hs_sent s3)"
      "set (hs_sent s2) \<subseteq> set (hs_sent s3)" "stream_pinned he (hs_stream s3)"
    have "pin_proved he opt ts (hs_sent s2) \<Longrightarrow> pin_proved he opt ts (hs_sent s3)"
      using s3(4) unfolding pin_proved_def by blast
    then have adm3: "admitted he opt ts (hs_sent s3) pk known (hs_keys s3)"
      using adm s3(2) by (auto simp: admitted_def split: if_splits)
    have keep: "hs_wp (remember_key he opt pk name known) (\<lambda>_. Q (info, pk, name, known)) E s4"
      if "hs_files s4 = fs" "hs_keys s4 = hs_keys s3" "hs_sent s4 = hs_sent s3" "hs_stream s4 = hs_stream s3" for s4 info
      using that s3 adm3 known pkt
      by (auto simp: hs_wp_def remember_key_def intro!: Q E split: option.splits)
    show "hs_wp (finish_handshake he opt (pk, name, known)) Q E s3"
      unfolding finish_handshake_def hs_wp_bind prod.case
    proof (rule hs_wp_receive)
      fix p :: "('m, 'i) hs_packet" and ts' n and port :: "u16 option"
      have "E (s3\<lparr>hs_turns := ts', hs_dropped := n\<rparr>)" using s3 s2(3) by (intro E) simp_all
      moreover have "hs_wp (remember_key he opt pk name known) (\<lambda>_. Q (info, pk, name, known)) E
          (s3\<lparr>hs_turns := ts', hs_dropped := n\<rparr>)" for info
        using s3 s2(3) by (intro keep) simp_all
      ultimately show "hs_wp (case (p, port) of (p, _) \<Rightarrow> case p of FromInfo info \<Rightarrow> hs_bind (remember_key he opt pk name known)
          (\<lambda>_. hs_return (info, pk, name, known)) | _ \<Rightarrow> hs_throw BadVariant) Q E (s3\<lparr>hs_turns := ts', hs_dropped := n\<rparr>)"
        by (simp split: hs_packet.split)
    qed (use s3 s2(3) in \<open>simp add: E\<close>)
  qed (use s2 E in auto)
  have crypto: "hs_wp (crypto_handshake he opt) (\<lambda>who. hs_wp (stream_handshake he port)
      (\<lambda>_. hs_wp (finish_handshake he opt who) Q E) E) E s1"
    if s1: "hs_keys s1 = None" "hs_sent s1 = []" "hs_files s1 = fs" "hs_turns s1 = ts" "half_open he s1" for port s1
  proof (rule hs_wp_crypto_handshake)
    fix s' :: "('m, 'i, 's) hs" and pk name known
    assume s': "hs_quiet s1 s'" "known \<longleftrightarrow> is_key_known (he_reader he) (he_dir he) (hs_files s1) (clean_key pk)"
      "admitted he opt (hs_turns s1) (hs_sent s') pk known (hs_keys s')"
      "hears_packet (hs_turns s1) (FromCrypto (he_version he) pk name)"
    have "half_open he s'" "no_token (hs_sent s')" "hs_files s' = fs"
      using s'(1) s1 by (simp_all add: hs_quiet_def half_open_def)
    from rest [OF this, of known pk name port] s' s1
    show "hs_wp (stream_handshake he port) (\<lambda>_. hs_wp (finish_handshake he opt (pk, name, known)) Q E) E s'" by simp
  qed (use s1 E in \<open>auto simp: hs_quiet_def intro: no_token_ok\<close>)
  show ?thesis
    unfolding session_handshake_def hs_wp_bind
    unfolding hs_wp_def [of "open_stream he opt"] open_stream_def
    using E0 by (auto intro!: crypto simp: hs_new_def half_open_def)
qed

text \<open>
  C14. With encryption on, a session is only established with a headset that
  was paired before, or, in pairing mode, with one that has just shown that it
  knows the PIN: both of its proof messages were received, both answers went
  out and the proof came out equal. The control socket then encrypts with the
  keys derived for that very public key.
\<close>

theorem headset_authenticated:
  assumes "session_handshake he opt (hs_new ts fs) = (Done (info, pk, name, known), s')" and "so_encryption opt \<noteq> EncDisabled"
  shows "(known \<longleftrightarrow> is_key_known (he_reader he) (he_dir he) fs (clean_key pk))
    \<and> (known \<or> so_encryption opt = EncPairing \<and> pin_proved he opt ts (hs_sent s'))
    \<and> hs_keys s' = Some (he_secrets he pk (if known then ''000000'' else so_pin opt))
    \<and> hears_packet ts (FromCrypto (he_version he) pk name)"
proof -
  have "hs_wp (session_handshake he opt) (\<lambda>(info, pk, name, known) s'.
      (known \<longleftrightarrow> is_key_known (he_reader he) (he_dir he) fs (clean_key pk))
      \<and> admitted he opt ts (hs_sent s') pk known (hs_keys s')
      \<and> hears_packet ts (FromCrypto (he_version he) pk name)) (\<lambda>_. True) (hs_new ts fs)"
    by (rule hs_wp_handshake) simp_all
  with assms show ?thesis unfolding hs_wp_def admitted_def by auto
qed

text \<open>
  C24. However a handshake ends, no packet that carries the session token has
  left before the control socket was encrypting, unless encryption was switched
  off on the command line.
\<close>

theorem token_not_in_clear: "token_ok opt (hs_sent (snd (session_handshake he opt (hs_new ts fs))))"
proof -
  have "hs_wp (session_handshake he opt) (\<lambda>_ s'. token_ok opt (hs_sent s')) (\<lambda>s'. token_ok opt (hs_sent s')) (hs_new ts fs)"
    by (rule hs_wp_handshake) simp_all
  then show ?thesis by (auto simp: hs_wp_def split: prod.splits outcome.splits)
qed

lemma only_pairing_aux:
  "hs_wp (session_handshake he opt) (\<lambda>(info, pk, name, known) s'.
      if so_encryption opt = EncPairing \<and> \<not> known
      then pair_headset (he_reader he) (he_writer he) (he_dir he) (he_key_pem he pk, name) fs = Some (hs_files s')
      else hs_files s' = fs) (\<lambda>s'. hs_files s' = fs) (hs_new ts fs)"
  by (rule hs_wp_handshake) simp_all

text \<open>
  The key file changes only when a handshake runs to its end in pairing
  mode with a headset that was not known, and then by exactly that headset; a
  failed or unfinished handshake leaves every file as it was.
\<close>

theorem only_pairing_writes_keys:
  "case session_handshake he opt (hs_new ts fs) of
     (Done (info, pk, name, known), s') \<Rightarrow>
       (if so_encryption opt = EncPairing \<and> \<not> known
        then pair_headset (he_reader he) (he_writer he) (he_dir he) (he_key_pem he pk, name) fs = Some (hs_files s')
        else hs_files s' = fs)
   | (Failed e, s') \<Rightarrow> hs_files s' = fs
   | (Waiting, s') \<Rightarrow> hs_files s' = fs"
  using only_pairing_aux [of he opt fs ts] unfolding hs_wp_def by (auto split: prod.splits outcome.splits if_splits)

text \<open>
  When a session is established with a stream socket, that socket is bound
  to the address and port the headset dialed and connected to the address the
  control connection came from, in the address family of the headset.
\<close>

theorem stream_socket_pinned:
  assumes "session_handshake he opt (hs_new ts fs) = (Done r, s')" and "hs_stream s' = Some st"
  shows "st_local st = endpoint_of (he_client he) (he_server he) (ad_port (he_server he))
    \<and> (\<exists>port. st_peer st = Some (endpoint_of (he_client he) (he_client he) port))"
proof -
  have "hs_wp (session_handshake he opt) (\<lambda>_ s'. stream_pinned he (hs_stream s')) (\<lambda>_. True) (hs_new ts fs)"
    by (rule hs_wp_handshake) simp_all
  with assms show ?thesis by (simp add: hs_wp_def stream_pinned_def)
qed


section \<open>A pairing\<close>

text \<open>
  A run with a one-message proof system: the messages are numbers and the proof
  succeeds when the second is the successor of the first. The disk is the one
  of the pairing store's example.
\<close>

definition pairing_env :: "(nat, string) hs_env" where
  "pairing_env = \<lparr>he_server = \<lparr>ad_bytes = replicate 10 0 @ [0xFF, 0xFF, 192, 168, 1, 2], ad_port = 9757, ad_scope = 0\<rparr>,
     he_client = \<lparr>ad_bytes = replicate 10 0 @ [0xFF, 0xFF, 192, 168, 1, 7], ad_port = 5000, ad_scope = 0\<rparr>,
     he_names_ok = True, he_socket_ok = True, he_bind_ok = True, he_connect_ok = True, he_send_ok = (\<lambda>n. True),
     he_token = [7, 7], he_version = 42, he_key_ok = (\<lambda>k. True), he_key_pem = (\<lambda>k. k), he_server_key = ''S'',
     he_step2 = (\<lambda>m pin. Some m), he_step4 = (\<lambda>m1 pin m3. Some (m3, m3 = Suc m1)), he_secrets = (\<lambda>k pin. k @ pin),
     he_reader = whole_reads, he_writer = whole_writes, he_dir = ''C:''\<rparr>"

definition hears :: "('m, 'i) hs_packet \<Rightarrow> ('m, 'i) turn" where
  "hears p = \<lparr>tn_stop = False, tn_poll_fails = False, tn_stream_error = False, tn_control_error = False,
     tn_stream = None, tn_control = Some (CrPacket p), tn_late = False\<rparr>"

definition pairing_turns :: "(nat, nat) turn list" where
  "pairing_turns = [hears (FromCrypto 42 ''K'' ''Pico''), hears (FromPin1 3), hears (FromPin3 4),
     hears (FromCrypto 42 [] []), (hears FromOther)\<lparr>tn_control := None, tn_stream := Some (Datagram FromHandshake 6000)\<rparr>,
     hears (FromInfo 1)]"

definition pairing_options :: server_options where
  "pairing_options = \<lparr>so_encryption = EncPairing, so_pin = ''123456'', so_tcp_only = False\<rparr>"

lemma clean_K: "clean_key ''K'' = ''K''"
  by (rule clean_key_one_line) (simp add: is_blank_def)

lemma not_known_K: "\<not> is_key_known whole_reads ''C:'' Map.empty ''K''"
  by (simp add: is_key_known_def known_keys_def read_file_def)

lemma pairing_stored: "\<exists>fs'. pair_headset whole_reads whole_writes ''C:'' (''K'', ''Pico'') Map.empty = Some fs'"
proof -
  have "key_list ''C:'' Map.empty []" by (simp add: key_list_def)
  moreover have "48 + list_size [] + pairing_size (''K'', ''Pico'') < 2 ^ 32"
    by (simp add: list_size_def pairing_size_def clean_K)
  moreover have "reliable_reader whole_reads" "reliable_writer whole_writes" "''C:'' \<noteq> []"
    by (simp_all add: reliable_reader_def reliable_writer_def whole_reads_def whole_writes_def)
  ultimately show ?thesis using pair_headset_step by blast
qed

lemma pairing_run:
  "\<exists>s'. session_handshake pairing_env pairing_options (hs_new pairing_turns Map.empty) = (Done (1, ''K'', ''Pico'', False), s')
     \<and> hs_stream s' = Some \<lparr>st_local = V4 [192, 168, 1, 2] 9757, st_peer = Some (V4 [192, 168, 1, 7] 6000), st_keyed = True\<rparr>"
proof -
  obtain fs' where fs': "pair_headset whole_reads whole_writes ''C:'' (''K'', ''Pico'') Map.empty = Some fs'"
    using pairing_stored by blast
  show ?thesis
    by (simp add: session_handshake_def hs_bind_def open_stream_def crypto_handshake_def admit_headset_def crypto_switch_def
        agree_keys_def pin_check_def pin_answer_def pin_verdict_def set_keys_def hs_send_def hs_return_def
        stream_handshake_def connect_stream_def finish_handshake_def remember_key_def receive_one_def
        pairing_env_def pairing_options_def pairing_turns_def hears_def hs_new_def clean_K not_known_K fs' Let_def
        endpoint_of_def v4_mapped_def)
qed

theorem headset_authenticated_witness:
  "\<exists>s'. session_handshake pairing_env pairing_options (hs_new pairing_turns Map.empty) = (Done (1, ''K'', ''Pico'', False), s')
     \<and> pin_proved pairing_env pairing_options pairing_turns (hs_sent s') \<and> hs_keys s' = Some ''K123456''"
proof -
  obtain s' where s': "session_handshake pairing_env pairing_options (hs_new pairing_turns Map.empty)
      = (Done (1, ''K'', ''Pico'', False), s')" using pairing_run by blast
  have "so_encryption pairing_options \<noteq> EncDisabled" by (simp add: pairing_options_def)
  from headset_authenticated [OF s' this] s' show ?thesis
    by (auto simp: pairing_env_def pairing_options_def)
qed

theorem stream_socket_pinned_witness:
  "\<exists>s' st. session_handshake pairing_env pairing_options (hs_new pairing_turns Map.empty) = (Done (1, ''K'', ''Pico'', False), s')
     \<and> hs_stream s' = Some st \<and> st_local st = V4 [192, 168, 1, 2] 9757"
proof -
  obtain s' st where s': "session_handshake pairing_env pairing_options (hs_new pairing_turns Map.empty)
      = (Done (1, ''K'', ''Pico'', False), s')" and st: "hs_stream s' = Some st" using pairing_run by blast
  have "st_local st = V4 [192, 168, 1, 2] 9757"
    using stream_socket_pinned [OF s' st] by (simp add: pairing_env_def endpoint_of_def v4_mapped_def)
  with s' st show ?thesis by blast
qed

definition closed_options :: server_options where
  "closed_options = pairing_options\<lparr>so_encryption := EncEnabled\<rparr>"


text \<open>A handshake answers at the latest on the first turn after its deadline: it does not wait for ever.\<close>

lemma receive_deadline: "list_ex tn_late ts \<Longrightarrow> fst (receive_turns watch ts) \<noteq> Waiting"
  by (induction ts)
    (auto simp: Let_def split: option.splits datagram.splits control_read.splits prod.splits)

end
