(* ===== verification/Server_Loop.thy ===== *)
theory Server_Loop
  imports Session_Loop Session_Handshake
begin

text \<open>
  The WiVRn thread of the helper, \<^verbatim>\<open>helper/src/wivrn/server.{h,cpp}\<close>: it opens a
  dual-stack listening socket, accepts one headset at a time, and gives each
  the life of a session: the handshake of the constructor, the loop, the
  destructor. The theorems compose the handshake, the session loop, the bridge
  and the video bridge over any number of headsets.
\<close>

section \<open>The listening socket\<close>

text \<open>Which of the system calls succeed; a socket has a descriptor, and the option decides what it serves.\<close>

record listen_env =
  le_socket :: "int option"
  le_reuse_ok :: bool
  le_v6only_ok :: bool
  le_bind_ok :: bool
  le_listen_ok :: bool

record listen_socket =
  ls_fd :: int
  ls_v6only :: bool
  ls_port :: "int option"
  ls_listening :: bool

datatype listen_error = LeSocket | LeReuse | LeV6only | LeBind | LeListen

text \<open>The socket as Winsock makes it; the calls in the order of the source, each of which may throw.\<close>

definition fresh_socket :: "int \<Rightarrow> listen_socket" where
  "fresh_socket fd = \<lparr>ls_fd = fd, ls_v6only = True, ls_port = None, ls_listening = False\<rparr>"

definition configure_socket :: "listen_env \<Rightarrow> int \<Rightarrow> listen_socket \<Rightarrow> listen_error + listen_socket" where
  "configure_socket le port k =
     (if \<not> le_reuse_ok le then Inl LeReuse
      else if \<not> le_v6only_ok le then Inl LeV6only
      else let k = k\<lparr>ls_v6only := False\<rparr> in
        if \<not> le_bind_ok le then Inl LeBind
        else let k = k\<lparr>ls_port := Some port\<rparr> in
          if \<not> le_listen_ok le then Inl LeListen
          else Inr (k\<lparr>ls_listening := True\<rparr>))"

text \<open>A listener: its socket, and the descriptors it has closed.\<close>

record listener =
  li_socket :: "listen_socket option"
  li_closed :: "int list"

definition listener_new :: listener where
  "listener_new = \<lparr>li_socket = None, li_closed = []\<rparr>"

definition close_socket :: "listener \<Rightarrow> listener" where
  "close_socket l = (case li_socket l of None \<Rightarrow> l
     | Some k \<Rightarrow> l\<lparr>li_socket := None, li_closed := li_closed l @ [ls_fd k]\<rparr>)"

definition listener_open :: "listen_env \<Rightarrow> int \<Rightarrow> listener \<Rightarrow> listen_error option \<times> listener" where
  "listener_open le port l =
     (let l = close_socket l
      in case le_socket le of None \<Rightarrow> (Some LeSocket, l)
         | Some fd \<Rightarrow> (case configure_socket le port (fresh_socket fd) of
               Inl e \<Rightarrow> (Some e, l\<lparr>li_closed := li_closed l @ [fd]\<rparr>)
             | Inr k \<Rightarrow> (None, l\<lparr>li_socket := Some k\<rparr>)))"

text \<open>The retry loop: each attempt is preceded by a look at the stop flag. None: still trying.\<close>

fun open_until :: "int \<Rightarrow> (bool \<times> listen_env) list \<Rightarrow> listener \<Rightarrow> bool option \<times> listener" where
  "open_until port [] l = (None, l)"
| "open_until port ((stop, le) # tries) l =
     (if stop then (Some False, l)
      else case listener_open le port l of
          (None, l1) \<Rightarrow> (Some True, l1)
        | (Some e, l1) \<Rightarrow> open_until port tries l1)"

section \<open>Accepting\<close>

datatype accept_event = AePollFails | AeNothing | AeAcceptFails | AeAccepted

datatype accept_result = ArConnected | ArNone | ArWaiting

fun accept_connection :: "(bool \<times> accept_event) list \<Rightarrow> accept_result" where
  "accept_connection [] = ArWaiting"
| "accept_connection ((stop, e) # es) =
     (if stop then ArNone
      else case e of AePollFails \<Rightarrow> ArNone | AeAcceptFails \<Rightarrow> ArNone | AeAccepted \<Rightarrow> ArConnected
        | AeNothing \<Rightarrow> accept_connection es)"

section \<open>One headset after the other\<close>

text \<open>What the sessions leave to each other: the bridge, the video bridge and the paired keys on disk.\<close>

record shared =
  sh_bridge :: bridge
  sh_video :: video_bridge
  sh_files :: files

text \<open>
  A round of the outer loop: the stop flag at its head, the turns of the accept
  loop, the handshake's environment and what it receives, and the turns of the
  session's loop.
\<close>

record ('m, 's) visit =
  vs_stop :: bool
  vs_accept :: "(bool \<times> accept_event) list"
  vs_handshake :: "('m, 's) hs_env"
  vs_received :: "('m, headset_info) turn list"
  vs_turns :: "loop_turn list"

text \<open>
  The life of a session. None: it is still going on when the script ends. An
  exception of the constructor leaves no object to destroy, so only the video
  bridge is cleared; an exception of \<^verbatim>\<open>run\<close> destroys the session first.
\<close>

definition session_over :: "('g, 'p) headset_session \<Rightarrow> shared \<Rightarrow> shared" where
  "session_over s sh = (case session_end s of (b, v) \<Rightarrow> sh\<lparr>sh_bridge := b, sh_video := clear_client v\<rparr>)"

definition session_run ::
    "session_env \<Rightarrow> (view_info, timing_info, 'g, 'p) wire_env \<Rightarrow> loop_turn list \<Rightarrow> ('g, 'p) headset_session \<Rightarrow> bool \<times> ('g, 'p) headset_session" where
  "session_run sv we ts s =
     (case run_setup sv s of (ok, s1) \<Rightarrow> if ok then run_turns sv we ts s1 else (False, s1))"

definition session_life ::
    "session_env \<Rightarrow> (view_info, timing_info, 'g, 'p) wire_env \<Rightarrow> 'g \<Rightarrow> server_options \<Rightarrow> ('m, 's) visit \<Rightarrow> shared \<Rightarrow> shared option" where
  "session_life sv we g opt c sh =
     (case session_handshake (vs_handshake c) opt (hs_new (vs_received c) (sh_files sh)) of
        (Waiting, h) \<Rightarrow> None
      | (Failed e, h) \<Rightarrow> Some (sh\<lparr>sh_files := hs_files h, sh_video := clear_client (sh_video sh)\<rparr>)
      | (Done (info, _), h) \<Rightarrow>
          (case session_run sv we (vs_turns c)
              (session_begin sv g (hs_stream h \<noteq> None) info (sh_bridge sh) (sh_video sh)) of
             (True, s) \<Rightarrow> None
           | (False, s) \<Rightarrow> Some (session_over s (sh\<lparr>sh_files := hs_files h\<rparr>))))"

datatype server_result = Serving | Returned

fun server_loop ::
    "session_env \<Rightarrow> (view_info, timing_info, 'g, 'p) wire_env \<Rightarrow> 'g \<Rightarrow> server_options \<Rightarrow> ('m, 's) visit list \<Rightarrow> shared
     \<Rightarrow> server_result \<times> shared" where
  "server_loop sv we g opt [] sh = (Serving, sh)"
| "server_loop sv we g opt (c # cs) sh =
     (if vs_stop c then (Returned, sh)
      else case accept_connection (vs_accept c) of
          ArWaiting \<Rightarrow> (Serving, sh)
        | ArNone \<Rightarrow> (Returned, sh)
        | ArConnected \<Rightarrow> (case session_life sv we g opt c sh of
              None \<Rightarrow> (Serving, sh)
            | Some sh1 \<Rightarrow> server_loop sv we g opt cs sh1))"

definition run_wivrn_server ::
    "session_env \<Rightarrow> (view_info, timing_info, 'g, 'p) wire_env \<Rightarrow> 'g \<Rightarrow> server_options \<Rightarrow> int \<Rightarrow> (bool \<times> listen_env) list
     \<Rightarrow> ('m, 's) visit list \<Rightarrow> shared \<Rightarrow> server_result \<times> shared" where
  "run_wivrn_server sv we g opt port tries cs sh =
     (case open_until port tries listener_new of
        (None, l) \<Rightarrow> (Serving, sh)
      | (Some False, l) \<Rightarrow> (Returned, sh)
      | (Some True, l) \<Rightarrow> server_loop sv we g opt cs sh)"

section \<open>The socket serves both families, and none is lost\<close>

text \<open>The descriptors the first attempts of a list were given.\<close>

definition sockets_of :: "(bool \<times> listen_env) list \<Rightarrow> int list" where
  "sockets_of tries = List.map_filter (\<lambda>(stop, le). le_socket le) tries"

definition held_fds :: "listener \<Rightarrow> int list" where
  "held_fds l = li_closed l @ (case li_socket l of None \<Rightarrow> [] | Some k \<Rightarrow> [ls_fd k])"

definition serves_all :: "int \<Rightarrow> listen_socket \<Rightarrow> bool" where
  "serves_all port k \<longleftrightarrow> ls_listening k \<and> \<not> ls_v6only k \<and> ls_port k = Some port"

lemma listener_open_result:
  assumes "listener_open le port l = (r, l1)" and "li_socket l = None"
  shows "held_fds l1 = held_fds l @ (case le_socket le of None \<Rightarrow> [] | Some fd \<Rightarrow> [fd])
    \<and> (case r of None \<Rightarrow> \<exists>k. li_socket l1 = Some k \<and> serves_all port k | Some e \<Rightarrow> li_socket l1 = None)"
  using assms
  by (auto simp: listener_open_def close_socket_def configure_socket_def fresh_socket_def held_fds_def serves_all_def Let_def
      split: option.splits if_splits)

lemma open_until_result:
  "li_socket l = None \<Longrightarrow> open_until port tries l = (r, l') \<Longrightarrow>
     (\<exists>n \<le> length tries. held_fds l' = held_fds l @ sockets_of (take n tries))
     \<and> (if r = Some True then \<exists>k. li_socket l' = Some k \<and> serves_all port k else li_socket l' = None)"
proof (induction tries arbitrary: l)
  case Nil
  then show ?case by (simp add: sockets_of_def map_filter_simps)
next
  case (Cons t tries)
  obtain stop le where t: "t = (stop, le)" by (cases t)
  obtain e l1 where o: "listener_open le port l = (e, l1)" by fastforce
  note one = listener_open_result [OF o Cons.prems(1)]
  have more: "sockets_of (take (Suc n) (t # tries)) = (case le_socket le of None \<Rightarrow> [] | Some fd \<Rightarrow> [fd]) @ sockets_of (take n tries)" for n
    by (simp add: sockets_of_def t map_filter_simps split: option.split)
  show ?case
  proof (cases "stop \<or> e = None")
    case True
    then show ?thesis using Cons.prems o one more [of 0]
      by (cases stop) (auto simp: t sockets_of_def map_filter_simps intro: exI [of _ 0] exI [of _ 1])
  next
    case False
    then have r: "open_until port tries l1 = (r, l')" and "li_socket l1 = None"
      using Cons.prems(2) o one by (auto simp: t split: option.splits)
    from Cons.IH [OF this(2,1)] obtain n where "n \<le> length tries" "held_fds l' = held_fds l1 @ sockets_of (take n tries)"
      and "if r = Some True then \<exists>k. li_socket l' = Some k \<and> serves_all port k else li_socket l' = None" by blast
    then show ?thesis using one more [of n] by (intro conjI exI [of _ "Suc n"]) simp_all
  qed
qed

text \<open>
  However often the port is taken, opening loses no socket: every
  descriptor the system handed out, in order, has been closed or is the one the
  listener holds. When the loop succeeds that one listens on the port for IPv4
  and IPv6 headsets alike; when it was stopped first there is none.
\<close>

theorem listener_dual_stack:
  assumes "open_until port tries listener_new = (r, l)"
  shows "(\<exists>n. held_fds l = sockets_of (take n tries))
    \<and> (if r = Some True then \<exists>k. li_socket l = Some k \<and> serves_all port k else li_socket l = None)"
  using open_until_result [OF _ assms] by (auto simp: listener_new_def held_fds_def)

section \<open>Between headsets\<close>

lemma clear_client_quiet: "headset_away b v \<Longrightarrow> headset_away b (clear_client v)"
  by (simp add: headset_away_def clear_client_def)

definition settled :: "shared \<Rightarrow> bool" where
  "settled sh \<longleftrightarrow> headset_away (sh_bridge sh) (sh_video sh) \<and> bridge_ok (sh_bridge sh)"

lemma session_run_inv:
  assumes "\<And>x. sv_is_finite sv x \<Longrightarrow> is_num x" and "list_all float_turn ts" and "loop_inv s"
  shows "loop_inv (snd (session_run sv we ts s))"
proof -
  have "loop_inv (snd (run_setup sv s))" using assms(3) by (rule run_setup_inv)
  then show ?thesis using run_turns_inv [of sv ts "snd (run_setup sv s)" we, OF assms(1,2)] by (simp add: session_run_def split_beta)
qed

lemma session_over_settled: "loop_inv s \<Longrightarrow> settled (session_over s sh)"
  using session_end_quiet [of s] by (simp add: settled_def session_over_def split_beta clear_client_quiet)

lemma session_life_settled:
  fixes we :: "(view_info, timing_info, 'g, 'p) wire_env"
  assumes "\<And>x. sv_is_finite sv x \<Longrightarrow> is_num x" and "list_all float_turn (vs_turns c)" and "settled sh"
    and "session_life sv we g opt c sh = Some sh1"
  shows "settled sh1"
proof -
  obtain hr h where hs: "session_handshake (vs_handshake c) opt (hs_new (vs_received c) (sh_files sh)) = (hr, h)" by fastforce
  show ?thesis
  proof (cases hr)
    case (Done x)
    obtain info y where x: "x = (info, y)" by (cases x)
    define s0 :: "('g, 'p) headset_session" where "s0 = session_begin sv g (hs_stream h \<noteq> None) info (sh_bridge sh) (sh_video sh)"
    obtain ok s where r: "session_run sv we (vs_turns c) s0 = (ok, s)" by fastforce
    have "loop_inv s0" unfolding s0_def using assms(3) by (intro session_begin_inv assms(1)) (simp_all add: settled_def)
    then have "loop_inv s" using session_run_inv [of sv "vs_turns c" s0 we, OF assms(1,2)] r by simp
    then show ?thesis using assms(4) hs Done x r session_over_settled [of s]
      by (cases ok) (auto simp: session_life_def s0_def)
  next
    case (Failed e)
    then show ?thesis using assms(3,4) hs by (auto simp: session_life_def settled_def clear_client_quiet)
  next
    case Waiting
    then show ?thesis using assms(4) hs by (simp add: session_life_def)
  qed
qed


section \<open>When the server returns\<close>

lemma accept_none: "accept_connection es = ArNone \<Longrightarrow> \<exists>(stop, e) \<in> set es. stop \<or> e = AePollFails \<or> e = AeAcceptFails"
  by (induction es rule: accept_connection.induct) (force split: if_splits accept_event.splits)+


text \<open>One failed \<^verbatim>\<open>accept\<close> is such a failure: the thread is over although nobody wanted it to stop.\<close>

lemma failed_accept_ends_server:
  "\<not> vs_stop c \<Longrightarrow> vs_accept c = (False, AeAcceptFails) # es \<Longrightarrow> server_loop sv we g opt (c # cs) sh = (Returned, sh)"
  by simp

section \<open>Examples\<close>

text \<open>The port is taken once; then a headset connects and hangs up in the middle of the handshake, and stop is set.\<close>

definition taken :: listen_env where
  "taken = \<lparr>le_socket = Some 7, le_reuse_ok = True, le_v6only_ok = True, le_bind_ok = False, le_listen_ok = True\<rparr>"

theorem listener_dual_stack_witness:
  "\<exists>l. open_until 9757 [(False, taken), (False, taken\<lparr>le_socket := Some 8, le_bind_ok := True\<rparr>)] listener_new = (Some True, l)
    \<and> li_closed l = [7] \<and> (\<exists>k. li_socket l = Some k \<and> serves_all 9757 k)"
proof -
  let ?o = "open_until 9757 [(False, taken), (False, taken\<lparr>le_socket := Some 8, le_bind_ok := True\<rparr>)] listener_new"
  have r: "?o = (Some True, snd ?o)" "li_closed (snd ?o) = [7]"
    by (simp_all add: listener_open_def configure_socket_def close_socket_def fresh_socket_def taken_def listener_new_def Let_def)
  from listener_dual_stack [OF r(1)] r show ?thesis by auto
qed

definition hang_up :: "(nat, string) visit" where
  "hang_up = \<lparr>vs_stop = False, vs_accept = [(False, AeNothing), (False, AeAccepted)], vs_handshake = pairing_env,
     vs_received = [\<lparr>tn_stop = False, tn_poll_fails = False, tn_stream_error = False, tn_control_error = True, tn_stream = None,
        tn_control = None, tn_late = False\<rparr>], vs_turns = []\<rparr>"

definition fresh_shared :: shared where
  "fresh_shared = \<lparr>sh_bridge = bridge_new demo_config, sh_video = video_bridge_new, sh_files = Map.empty\<rparr>"

lemma fresh_settled: "settled fresh_shared"
  using bridge_new_ok [OF demo_config_ok]
  by (simp add: settled_def fresh_shared_def headset_away_def) (simp add: bridge_new_def video_bridge_new_def video_request_new_def)

lemma hang_up_served:
  "server_loop input_env plain_wire () pairing_options [hang_up, hang_up\<lparr>vs_stop := True\<rparr>] fresh_shared = (Returned, fresh_shared)"
proof -
  let ?h = "session_handshake pairing_env pairing_options (hs_new (vs_received hang_up) Map.empty)"
  have "fst ?h = Failed ControlError" "hs_files (snd ?h) = Map.empty"
    by (simp_all add: session_handshake_def hs_bind_def open_stream_def crypto_handshake_def receive_one_def hang_up_def hs_new_def
        pairing_env_def pairing_options_def)
  then obtain h where h: "?h = (Failed ControlError, h)" "hs_files h = Map.empty" by (metis prod.collapse)
  have "clear_client video_bridge_new = video_bridge_new"
    by (simp add: clear_client_def video_bridge_new_def video_request_new_def)
  then have "session_life input_env plain_wire () pairing_options hang_up fresh_shared = Some fresh_shared"
    using h by (simp add: session_life_def fresh_shared_def) (simp add: hang_up_def)
  moreover have "accept_connection (vs_accept hang_up) = ArConnected" "\<not> vs_stop hang_up" by (simp_all add: hang_up_def)
  ultimately show ?thesis by simp
qed



end
