(* ===== verification/Direct_Geometry.thy ===== *)
theory Direct_Geometry
  imports Pose_Sanitize
begin

text \<open>
  The arithmetic of the direct-mode component: which pixels of a submitted
  texture are copied, the staging format, the vsync interval
  (\<^verbatim>\<open>shim/src/direct_mode.cpp\<close>) and the conversions between rotations and pose
  matrices (\<^verbatim>\<open>shim/src/vr_util.h\<close>). Floats are binary32 values, the texel and
  interval computations binary64 as in the source. Values of \<^verbatim>\<open>DXGI_FORMAT\<close> are
  the numbers Microsoft documents.
\<close>

section \<open>Sub-rectangles\<close>

record texture_bounds =
  tb_uMin :: fp
  tb_vMin :: fp
  tb_uMax :: fp
  tb_vMax :: fp

record sub_rect =
  sr_x :: u32
  sr_y :: u32
  sr_w :: u32
  sr_h :: u32

definition clamp01 :: "fp \<Rightarrow> fp" where
  "clamp01 v = (if fp_lt (Num 1) v then Num 1 else if fp_lt (Num 0) v then v else Num 0)"

definition to_texels :: "fp \<Rightarrow> u32 \<Rightarrow> u32" where
  "to_texels normalised extent =
     (let texel = fp_mul F64 (fp_convert F64 normalised) (fp_of_int F64 (uint extent))
      in if \<not> fp_lt (Num 0) texel then 0
         else let rounded = word_of_int (fp_to_u32 (fp_add F64 texel (Num (1 / 2))))
              in if extent < rounded then extent else rounded)"

definition kEpsilon :: rat where "kEpsilon = 1 / 4096"

text \<open>The rectangle, whether the bounds were not the whole texture, and whether they were inverted.\<close>

definition rect_from_bounds :: "texture_bounds \<Rightarrow> u32 \<Rightarrow> u32 \<Rightarrow> sub_rect \<times> bool \<times> bool" where
  "rect_from_bounds bounds texture_width texture_height =
     (let u_min = clamp01 (tb_uMin bounds); u_max = clamp01 (tb_uMax bounds);
          v_min = clamp01 (tb_vMin bounds); v_max = clamp01 (tb_vMax bounds);
          flipped = (fp_lt (tb_vMax bounds) (tb_vMin bounds) \<or> fp_lt (tb_uMax bounds) (tb_uMin bounds));
          u0 = fp_min u_min u_max; u1 = fp_max u_min u_max;
          v0 = fp_min v_min v_max; v1 = fp_max v_min v_max;
          partial = (fp_lt (Num kEpsilon) u0 \<or> fp_lt (Num kEpsilon) v0
            \<or> fp_lt u1 (Num (1 - kEpsilon)) \<or> fp_lt v1 (Num (1 - kEpsilon)));
          x = to_texels u0 texture_width; y = to_texels v0 texture_height;
          x1 = to_texels u1 texture_width; y1 = to_texels v1 texture_height
      in (\<lparr>sr_x = x, sr_y = y, sr_w = (if x < x1 then x1 - x else 0), sr_h = (if y < y1 then y1 - y else 0)\<rparr>,
          partial, flipped))"

section \<open>Staging format\<close>

definition staging_format_for :: "u32 \<Rightarrow> u32 \<times> bool" where
  "staging_format_for submitted =
     (if submitted = 27 then (28, True)
      else if submitted = 90 then (87, True)
      else if submitted = 92 then (88, True)
      else if submitted = 23 then (24, True)
      else if submitted = 9 then (10, True)
      else (submitted, False))"

section \<open>Vsync interval\<close>

definition kMinRefreshHz :: fp where "kMinRefreshHz = Num 30"
definition kMaxRefreshHz :: fp where "kMaxRefreshHz = Num 240"

text \<open>The argument is the configured \<^verbatim>\<open>refresh_hz\<close>, or \<open>None\<close> without an owner.\<close>

definition frame_interval_seconds :: "fp option \<Rightarrow> fp" where
  "frame_interval_seconds refresh =
     (let hz = (case refresh of Some r \<Rightarrow> fp_convert F64 r | None \<Rightarrow> Num 90);
          hz = (if \<not> fp_lt (Num 0) hz then Num 90 else hz);
          hz = fp_clamp hz kMinRefreshHz kMaxRefreshHz
      in fp_div F64 (Num 1) hz)"

section \<open>Pose matrices\<close>

text \<open>\<^verbatim>\<open>vr::HmdMatrix34_t\<close>, by row and column.\<close>

record mat34 =
  m00 :: fp  m01 :: fp  m02 :: fp  m03 :: fp
  m10 :: fp  m11 :: fp  m12 :: fp  m13 :: fp
  m20 :: fp  m21 :: fp  m22 :: fp  m23 :: fp

type_synonym rotation = "fp \<times> fp \<times> fp \<times> fp"
type_synonym position = "fp \<times> fp \<times> fp"

abbreviation f_add :: "fp \<Rightarrow> fp \<Rightarrow> fp" where "f_add \<equiv> fp_add F32"
abbreviation f_sub :: "fp \<Rightarrow> fp \<Rightarrow> fp" where "f_sub \<equiv> fp_sub F32"
abbreviation f_mul :: "fp \<Rightarrow> fp \<Rightarrow> fp" where "f_mul \<equiv> fp_mul F32"
abbreviation f_div :: "fp \<Rightarrow> fp \<Rightarrow> fp" where "f_div \<equiv> fp_div F32"

definition make_matrix34 :: "rotation \<Rightarrow> position \<Rightarrow> mat34" where
  "make_matrix34 = (\<lambda>(w, x, y, z) (p0, p1, p2).
     \<lparr>m00 = f_sub (Num 1) (f_mul (Num 2) (f_add (f_mul y y) (f_mul z z))),
      m01 = f_mul (Num 2) (f_sub (f_mul x y) (f_mul w z)),
      m02 = f_mul (Num 2) (f_add (f_mul x z) (f_mul w y)),
      m03 = p0,
      m10 = f_mul (Num 2) (f_add (f_mul x y) (f_mul w z)),
      m11 = f_sub (Num 1) (f_mul (Num 2) (f_add (f_mul x x) (f_mul z z))),
      m12 = f_mul (Num 2) (f_sub (f_mul y z) (f_mul w x)),
      m13 = p1,
      m20 = f_mul (Num 2) (f_sub (f_mul x z) (f_mul w y)),
      m21 = f_mul (Num 2) (f_add (f_mul y z) (f_mul w x)),
      m22 = f_sub (Num 1) (f_mul (Num 2) (f_add (f_mul x x) (f_mul y y))),
      m23 = p2\<rparr>)"

definition mat_entries :: "mat34 \<Rightarrow> fp list" where
  "mat_entries m = [m00 m, m01 m, m02 m, m03 m, m10 m, m11 m, m12 m, m13 m, m20 m, m21 m, m22 m, m23 m]"

text \<open>The quaternion before normalisation: the branch with the largest divisor.\<close>

definition shepperd :: "mat34 \<Rightarrow> rotation" where
  "shepperd m =
     (let trace = f_add (f_add (m00 m) (m11 m)) (m22 m) in
      if fp_lt (Num 0) trace then
        let s = f_mul (fp_sqrt F32 (f_add trace (Num 1))) (Num 2)
        in (f_mul (Num (1 / 4)) s, f_div (f_sub (m21 m) (m12 m)) s, f_div (f_sub (m02 m) (m20 m)) s,
            f_div (f_sub (m10 m) (m01 m)) s)
      else if fp_lt (m11 m) (m00 m) \<and> fp_lt (m22 m) (m00 m) then
        let s = f_mul (fp_sqrt F32 (f_sub (f_sub (f_add (Num 1) (m00 m)) (m11 m)) (m22 m))) (Num 2)
        in (f_div (f_sub (m21 m) (m12 m)) s, f_mul (Num (1 / 4)) s, f_div (f_add (m01 m) (m10 m)) s,
            f_div (f_add (m02 m) (m20 m)) s)
      else if fp_lt (m22 m) (m11 m) then
        let s = f_mul (fp_sqrt F32 (f_sub (f_sub (f_add (Num 1) (m11 m)) (m00 m)) (m22 m))) (Num 2)
        in (f_div (f_sub (m02 m) (m20 m)) s, f_div (f_add (m01 m) (m10 m)) s, f_mul (Num (1 / 4)) s,
            f_div (f_add (m12 m) (m21 m)) s)
      else
        let s = f_mul (fp_sqrt F32 (f_sub (f_sub (f_add (Num 1) (m22 m)) (m00 m)) (m11 m))) (Num 2)
        in (f_div (f_sub (m10 m) (m01 m)) s, f_div (f_add (m02 m) (m20 m)) s, f_div (f_add (m12 m) (m21 m)) s,
            f_mul (Num (1 / 4)) s))"

definition rot_norm :: "rotation \<Rightarrow> fp" where
  "rot_norm = (\<lambda>(w, x, y, z).
     fp_sqrt F32 (f_add (f_add (f_add (f_mul w w) (f_mul x x)) (f_mul y y)) (f_mul z z)))"

definition decompose_matrix34 :: "mat34 \<Rightarrow> rotation \<times> position" where
  "decompose_matrix34 m =
     (let identity = (Num 1, Num 0, Num 0, Num 0) in
      if \<not> list_all is_num (mat_entries m) then (identity, (Num 0, Num 0, Num 0))
      else let p = (m03 m, m13 m, m23 m); q = shepperd m; norm = rot_norm q in
        if \<not> is_num norm \<or> fp_lt norm (round_fp F32 (1 / 1000000)) then (identity, p)
        else case q of (w, x, y, z) \<Rightarrow> ((f_div w norm, f_div x norm, f_div y norm, f_div z norm), p))"


section \<open>Rectangles stay inside the texture\<close>

lemma clamp01_num: obtains a where "clamp01 v = Num a" and "0 \<le> a" and "a \<le> 1"
proof (cases v)
  case (Num b)
  then show ?thesis
    using that [of 1] that [of 0] that [of b] by (cases "1 < b"; cases "0 < b") (simp_all add: clamp01_def)
next
  case (Inf s)
  then show ?thesis using that [of 1] that [of 0] by (cases s) (simp_all add: clamp01_def)
qed (use that [of 0] in \<open>simp add: clamp01_def\<close>)

lemma round_fp_num: "\<bar>rn f x\<bar> \<le> fmax f \<Longrightarrow> round_fp f x = Num (rn f x)"
  by (simp add: round_fp_def Let_def)

definition texels :: "rat \<Rightarrow> int \<Rightarrow> int" where
  "texels a n = \<lfloor>rn F64 (rn F64 (rn F64 a * of_int n) + 1 / 2)\<rfloor>"

lemma rn_half: "rn F64 (1 / 2) = 1 / 2"
  using rn_half_int [of 1 F64] by simp

lemma floor_half: "\<lfloor>1 / 2 :: rat\<rfloor> = 0"
  by (simp add: floor_eq_iff)

lemma texels_range:
  assumes "0 \<le> a" "a \<le> 1" "0 \<le> n" "n < 2 ^ 32"
  shows "0 \<le> rn F64 a" "rn F64 a \<le> 1" "0 \<le> rn F64 (rn F64 a * of_int n)" "rn F64 (rn F64 a * of_int n) \<le> of_int n"
    "0 \<le> texels a n" "texels a n \<le> n"
proof -
  show a: "0 \<le> rn F64 a" "rn F64 a \<le> 1" using rn_int_bounds [of 0 a 1 F64] assms by simp_all
  have "rn F64 a * of_int n \<le> of_int n" using mult_right_mono [OF a(2), of "of_int n"] assms(3) by simp
  then show t: "0 \<le> rn F64 (rn F64 a * of_int n)" "rn F64 (rn F64 a * of_int n) \<le> of_int n"
    using rn_int_bounds [of 0 "rn F64 a * of_int n" n F64] assms a by simp_all
  have "rn F64 (rn F64 (rn F64 a * of_int n) + 1 / 2) \<le> rn F64 (of_int (2 * n + 1) / 2)"
    using t by (intro rn_mono) simp
  also have "\<dots> = of_int n + 1 / 2" using rn_half_int [of "2 * n + 1" F64] assms by simp
  finally show "texels a n \<le> n" by (simp add: texels_def floor_le_iff)
  have "rn F64 (1 / 2) \<le> rn F64 (rn F64 (rn F64 a * of_int n) + 1 / 2)" using t by (intro rn_mono) simp
  then show "0 \<le> texels a n" by (simp add: texels_def rn_half le_floor_iff)
qed

lemma to_texels_exact:
  assumes "0 \<le> a" "a \<le> 1"
  shows "uint (to_texels (Num a) n) = texels a (uint n)"
proof -
  have n: "0 \<le> uint n" "uint n < 2 ^ 32" using uint_lt2p [of n] by simp_all
  note r = texels_range [OF assms n]
  have c: "fp_convert F64 (Num a) = Num (rn F64 a)" using r(1,2) by (simp add: round_fp_num)
  have e: "fp_of_int F64 (uint n) = Num (of_int (uint n))" by (rule fp_of_int_exact) (use n in simp)
  define t where "t = rn F64 (rn F64 a * of_int (uint n))"
  have big: "(of_int (uint n) :: rat) + 1 \<le> fmax F64" using n rat_succ_le_power [of "uint n" 32] by simp
  have t: "0 \<le> t" "t \<le> of_int (uint n)" using r by (simp_all add: t_def)
  have m: "fp_mul F64 (fp_convert F64 (Num a)) (fp_of_int F64 (uint n)) = Num t"
    unfolding c e using t big by (simp add: round_fp_num t_def)
  show ?thesis
  proof (cases "0 < t")
    case True
    define s where "s = rn F64 (t + 1 / 2)"
    have s: "\<lfloor>s\<rfloor> = texels a (uint n)" by (simp add: s_def t_def texels_def)
    have s0: "0 \<le> s" using t by (simp add: s_def rn_nonneg)
    have s1: "s < of_int (uint n) + 1" using r(6) unfolding s [symmetric] by (simp only: floor_le_iff)
    have "fp_add F64 (Num t) (Num (1 / 2)) = Num s" using s0 s1 big by (simp add: round_fp_num s_def)
    moreover have "trunc s = texels a (uint n)" using s0 s by (simp add: trunc_def)
    moreover have "texels a (uint n) < 2 ^ 32" using r(6) n by simp
    ultimately have "to_texels (Num a) n = (let q = word_of_int (texels a (uint n)) in if n < q then n else q)"
      using True r(5) unfolding to_texels_def m by (simp add: Let_def)
    moreover have "uint (word_of_int (texels a (uint n)) :: u32) = texels a (uint n)"
      using r(5) \<open>texels a (uint n) < 2 ^ 32\<close> by (simp add: uint_word_of_int)
    ultimately show ?thesis using r(6) by (simp add: word_less_def)
  next
    case False
    then have "t = 0" using t by simp
    then have "texels a (uint n) = 0" unfolding texels_def t_def [symmetric] by (simp add: rn_half floor_half)
    then show ?thesis using False unfolding to_texels_def m by simp
  qed
qed

lemma texels_mono: "a \<le> b \<Longrightarrow> 0 \<le> n \<Longrightarrow> texels a n \<le> texels b n"
  unfolding texels_def by (intro floor_mono rn_mono add_right_mono mult_right_mono) simp_all

lemma texels_ends: "0 \<le> n \<Longrightarrow> n < 2 ^ 32 \<Longrightarrow> texels 0 n = 0 \<and> texels 1 n = n"
  using rn_int [of 1 F64] rn_int [of n F64] rn_half_int [of "2 * n + 1" F64]
  by (simp add: texels_def rn_half add_divide_distrib floor_half floor_add_int)

lemma fp_min_max_num: "fp_min (Num a) (Num b) = Num (min a b)" "fp_max (Num a) (Num b) = Num (max a b)"
  by (simp_all add: fp_min_def fp_max_def min_def max_def)

text \<open>One axis: from where, and how far.\<close>

lemma axis_inside:
  fixes n :: u32
  assumes "x = to_texels (fp_min (clamp01 lo) (clamp01 hi)) n" and "x1 = to_texels (fp_max (clamp01 lo) (clamp01 hi)) n"
  shows "uint x + uint (if x < x1 then x1 - x else 0) = uint x1" "uint x1 \<le> uint n"
proof -
  obtain a where a: "clamp01 lo = Num a" "0 \<le> a" "a \<le> 1" by (rule clamp01_num)
  obtain b where b: "clamp01 hi = Num b" "0 \<le> b" "b \<le> 1" by (rule clamp01_num)
  have e: "uint x = texels (min a b) (uint n)" "uint x1 = texels (max a b) (uint n)"
    using assms a b by (simp_all add: fp_min_max_num to_texels_exact)
  have "min a b \<le> max a b" by simp
  then have le: "uint x \<le> uint x1" unfolding e by (intro texels_mono) simp_all
  then have "uint (x1 - x) = uint x1 - uint x" by (simp add: uint_sub_if')
  then show "uint x + uint (if x < x1 then x1 - x else 0) = uint x1" using le by (auto simp: word_less_def)
  show "uint x1 \<le> uint n" unfolding e using a b uint_lt2p [of n] by (intro texels_range) simp_all
qed

lemma rect_inside:
  assumes "rect_from_bounds b w h = (r, partial, flipped)"
  shows "uint (sr_x r) + uint (sr_w r) \<le> uint w" "uint (sr_y r) + uint (sr_h r) \<le> uint h"
  using assms axis_inside [OF refl refl, of "tb_uMin b" "tb_uMax b" w] axis_inside [OF refl refl, of "tb_vMin b" "tb_vMax b" h]
  by (auto simp: rect_from_bounds_def Let_def)

lemma to_texels_ends [simp]: "to_texels (Num 0) n = 0" "to_texels (Num 1) n = n"
  using to_texels_exact [of 0 n] to_texels_exact [of 1 n] texels_ends [of "uint n"] uint_lt2p [of n]
  by (simp_all add: word_uint_eq_iff)

definition full_bounds :: texture_bounds where
  "full_bounds = \<lparr>tb_uMin = Num 0, tb_vMin = Num 0, tb_uMax = Num 1, tb_vMax = Num 1\<rparr>"

lemma rect_full:
  "rect_from_bounds full_bounds w h = (\<lparr>sr_x = 0, sr_y = 0, sr_w = w, sr_h = h\<rparr>, False, False)"
  by (simp add: rect_from_bounds_def full_bounds_def Let_def clamp01_def fp_min_def fp_max_def kEpsilon_def word_neq_0_conv [symmetric])

section \<open>The vsync interval\<close>

lemma rn_interval: "1 / 241 < rn F64 (1 / 240)" "rn F64 (1 / 30) < 1 / 29"
  by code_simp+

lemma interval_bounds:
  obtains y where "frame_interval_seconds refresh = Num y" and "1 / 241 < y" and "y < 1 / 29"
proof -
  define hz where "hz = (case refresh of Some r \<Rightarrow> fp_convert F64 r | None \<Rightarrow> Num 90)"
  obtain v where v: "fp_clamp (if \<not> fp_lt (Num 0) hz then Num 90 else hz) kMinRefreshHz kMaxRefreshHz = Num v"
    "30 \<le> v" "v \<le> 240"
  proof (cases hz)
    case (Num a)
    then show ?thesis
      using that [of "if \<not> 0 < a then 90 else if a < 30 then 30 else if 240 < a then 240 else a"]
      by (simp add: fp_clamp_def kMinRefreshHz_def kMaxRefreshHz_def)
  next
    case (Inf s)
    then show ?thesis
      using that [of 90] that [of 240] by (cases s) (simp_all add: fp_clamp_def kMinRefreshHz_def kMaxRefreshHz_def)
  qed (use that [of 90] in \<open>simp add: fp_clamp_def kMinRefreshHz_def kMaxRefreshHz_def\<close>)
  have "1 / 240 \<le> 1 / v" "1 / v \<le> 1 / 30" using v(2,3) by (simp_all add: field_simps)
  then have b: "1 / 241 < rn F64 (1 / v)" "rn F64 (1 / v) < 1 / 29"
    using rn_mono [of "1 / 240" "1 / v" F64] rn_mono [of "1 / v" "1 / 30" F64] rn_interval by linarith+
  moreover have "(1 :: rat) \<le> fmax F64" by simp
  ultimately have "round_fp F64 (1 / v) = Num (rn F64 (1 / v))" by (simp add: round_fp_def)
  then have "frame_interval_seconds refresh = Num (rn F64 (1 / v))"
    using v by (simp add: frame_interval_seconds_def hz_def [symmetric] Let_def)
  then show ?thesis using that b by blast
qed

section \<open>Poses are finite\<close>

lemma num_parts:
  "is_num (fp_add f a b) \<Longrightarrow> is_num a \<and> is_num b" "is_num (fp_mul f a b) \<Longrightarrow> is_num a \<and> is_num b"
  "is_num (fp_sqrt f a) \<Longrightarrow> is_num a"
  by (cases a; cases b; simp split: if_splits)+

lemma square_num:
  assumes "is_num (f_mul (Num a) (Num a))"
  shows "\<bar>a\<bar> \<le> two 64"
proof (rule ccontr)
  assume n: "\<not> \<bar>a\<bar> \<le> two 64"
  have p: "two 64 * two 64 = two 128" unfolding two_add [symmetric] by simp
  have "two 64 * two 64 \<le> \<bar>a\<bar> * \<bar>a\<bar>" using n by (intro mult_mono) simp_all
  then have a: "two 128 \<le> a * a" unfolding p by simp
  then have "rn F32 (two 128) \<le> rn F32 (a * a)" by (rule rn_mono)
  moreover have "fmax F32 < rn F32 (two 128)" by code_simp
  ultimately have "fmax F32 < \<bar>rn F32 (a * a)\<bar>" by linarith
  then show False using assms by (simp add: round_fp_def)
qed

lemma norm_floor: "round_fp F32 (1 / 1000000) = Num (rn F32 (1 / 1000000))" "two (- 20) \<le> rn F32 (1 / 1000000)"
  by code_simp+

lemma quotient_num:
  assumes "is_num (f_mul x x)" and "\<not> fp_lt (Num n) (round_fp F32 (1 / 1000000))"
  shows "is_num (f_div x (Num n))"
proof -
  obtain a where a: "x = Num a" using num_parts(2) [OF assms(1)] by (cases x) auto
  have n: "two (- 20) \<le> n" using assms(2) norm_floor by simp
  have pos: "(0 :: rat) < two (- 20)" by simp
  have n0: "0 < n" using n pos by (rule less_le_trans [rotated])
  have "\<bar>a / n\<bar> = \<bar>a\<bar> / n" using n0 by simp
  also have "\<dots> \<le> two 64 / two (- 20)"
    by (rule frac_le) (use square_num assms(1) a n pos in \<open>auto simp del: power_int_minus\<close>)
  also have "\<dots> = two 84"
  proof -
    have "two 64 = two 84 * two (- 20)" unfolding two_add [symmetric] by simp
    then show ?thesis using pos by (metis less_irrefl nonzero_mult_div_cancel_right)
  qed
  finally have q: "\<bar>a / n\<bar> \<le> two 84" .
  have "a / n \<le> two 84" "- (a / n) \<le> two 84" using q by linarith+
  then have up: "rn F32 (a / n) \<le> two 84" "rn F32 (- (a / n)) \<le> two 84" by (simp_all only: rn_le_two emin.simps)
  then have "\<bar>rn F32 (a / n)\<bar> \<le> two 84" unfolding rn_minus by linarith
  moreover have "two 84 \<le> fmax F32" by (simp add: power_int_def)
  ultimately have "\<not> fmax F32 < \<bar>rn F32 (a / n)\<bar>" by linarith
  then show ?thesis using n0 by (simp add: a round_fp_def)
qed

lemma decompose_finite:
  assumes "decompose_matrix34 m = ((w, x, y, z), (a, b, c))"
  shows "list_all is_num [w, x, y, z, a, b, c]"
proof (cases "list_all is_num (mat_entries m)")
  case False
  then show ?thesis using assms by (auto simp: decompose_matrix34_def Let_def)
next
  case True
  obtain q0 q1 q2 q3 where q: "shepperd m = (q0, q1, q2, q3)" by (cases "shepperd m")
  define n where "n = rot_norm (q0, q1, q2, q3)"
  show ?thesis
  proof (cases "\<not> is_num n \<or> fp_lt n (round_fp F32 (1 / 1000000))")
    case out: True
    then show ?thesis using assms True by (auto simp: decompose_matrix34_def Let_def q n_def [symmetric] mat_entries_def)
  next
    case False
    then obtain k where k: "n = Num k" "\<not> fp_lt (Num k) (round_fp F32 (1 / 1000000))" by (cases n) auto
    have "is_num (fp_sqrt F32 (f_add (f_add (f_add (f_mul q0 q0) (f_mul q1 q1)) (f_mul q2 q2)) (f_mul q3 q3)))"
      using False by (simp add: n_def rot_norm_def q)
    from num_parts(1) [OF num_parts(3) [OF this]]
    have "is_num (f_mul q0 q0)" "is_num (f_mul q1 q1)" "is_num (f_mul q2 q2)" "is_num (f_mul q3 q3)"
      by (meson num_parts(1))+
    then have "is_num (f_div q0 n)" "is_num (f_div q1 n)" "is_num (f_div q2 n)" "is_num (f_div q3 n)"
      using quotient_num [OF _ k(2)] unfolding k(1) by blast+
    then show ?thesis
      using assms True False by (auto simp: decompose_matrix34_def Let_def q n_def [symmetric] mat_entries_def)
  qed
qed

text \<open>
  A matrix of zeros is not a rotation. It takes the last branch, whose divisor
  is 2, and comes out as a half turn about the z axis.
\<close>

definition zero_matrix :: mat34 where
  "zero_matrix = \<lparr>m00 = Num 0, m01 = Num 0, m02 = Num 0, m03 = Num 0, m10 = Num 0, m11 = Num 0, m12 = Num 0,
     m13 = Num 0, m20 = Num 0, m21 = Num 0, m22 = Num 0, m23 = Num 0\<rparr>"

lemma zero_matrix_half_turn:
  "decompose_matrix34 zero_matrix = ((Num 0, Num 0, Num 0, Num 1), (Num 0, Num 0, Num 0))"
  by code_simp

end
