(* ===== verification/Direct_Mode.thy ===== *)
theory Direct_Mode
  imports Direct_Geometry Float_Bits Frame_Staging Ipc_Client
begin

text \<open>
  The direct-mode component the compositor calls: \<^verbatim>\<open>shim/src/direct_mode.h\<close> and
  \<^verbatim>\<open>direct_mode.cpp\<close>. It owns the swap textures, keeps the last submitted layer,
  and on \<^verbatim>\<open>Present\<close> flattens the two eyes into a slot of the staging ring and
  announces it through the pipe client. Direct3D is a parameter (\<open>gpu\<close>) over a
  state \<open>'w\<close>; \<open>None\<close> is a failed \<^verbatim>\<open>HRESULT\<close> or a null result, which the code treats
  alike, and \<^verbatim>\<open>device_\<close> and \<^verbatim>\<open>context_\<close>, created and released together, are one
  truth value. Entry points are atomic, except that \<^verbatim>\<open>Present\<close> queues its message
  after it has dropped the device lock, so it is two steps. Memory is assumed
  to suffice: the handlers for a failed allocation, the null elements of the
  vector of sets, the breadcrumbs and the counters only they print are left out.
\<close>

section \<open>Direct3D\<close>

record tex_desc =
  td_width :: u32
  td_height :: u32
  td_format :: u32
  td_samples :: u32
  td_bind :: u32

record d3d_box =
  bx_left :: u32
  bx_top :: u32
  bx_right :: u32
  bx_bottom :: u32

text \<open>\<^verbatim>\<open>CopySubresourceRegion\<close>: destination texture and column, source texture and box.\<close>

record region_copy =
  rc_dst :: nat
  rc_dst_x :: u32
  rc_src :: nat
  rc_box :: d3d_box

datatype device_result = DeviceOk | DeviceInvalidArg | DeviceFailed

record 'w gpu =
  g_ring :: "'w d3d"
  g_create_device :: "bool \<Rightarrow> 'w \<Rightarrow> device_result \<times> 'w"
  g_release_device :: "'w \<Rightarrow> 'w"
  g_open_shared :: "u64 \<Rightarrow> 'w \<Rightarrow> nat option \<times> 'w"
  g_create_texture :: "tex_desc \<Rightarrow> 'w \<Rightarrow> nat option \<times> 'w"
  g_query_resource :: "nat \<Rightarrow> 'w \<Rightarrow> bool \<times> 'w"
  g_shared_handle :: "nat \<Rightarrow> 'w \<Rightarrow> u64 option \<times> 'w"
  g_get_desc :: "nat \<Rightarrow> 'w \<Rightarrow> tex_desc"
  g_add_ref :: "nat \<Rightarrow> 'w \<Rightarrow> 'w"
  g_release :: "nat \<Rightarrow> 'w \<Rightarrow> 'w"
  g_query_mutex :: "nat \<Rightarrow> 'w \<Rightarrow> nat option \<times> 'w"
  g_acquire_sync :: "nat \<Rightarrow> 'w \<Rightarrow> bool \<times> 'w"
  g_release_sync :: "nat \<Rightarrow> 'w \<Rightarrow> 'w"
  g_release_mutex :: "nat \<Rightarrow> 'w \<Rightarrow> 'w"
  g_copy :: "region_copy \<Rightarrow> 'w \<Rightarrow> 'w"
  g_flush :: "'w \<Rightarrow> 'w"
  g_query_qpc :: "'w \<Rightarrow> u64 \<times> 'w"
  g_start_thread :: "'w \<Rightarrow> bool \<times> 'w"

section \<open>State\<close>

definition kMaxDeviceAttempts :: nat where "kMaxDeviceAttempts = 3"
definition kMaxTextureSets :: nat where "kMaxTextureSets = 64"
definition kStagingSlots :: u32 where "kStagingSlots = 3"
definition kMaxRingAttempts :: nat where "kMaxRingAttempts = 3"

text \<open>One swap chain: three textures, their handles, and the index handed out last.\<close>

record texture_set =
  ts_pid :: u32
  ts_textures :: "nat option list"
  ts_handles :: "u64 list"
  ts_index :: u32
  ts_width :: u32
  ts_height :: u32
  ts_format :: u32
  ts_sample_count :: u32

record layer_eye =
  le_texture :: u64
  le_bounds :: texture_bounds
  le_pose :: mat34
  le_predict :: fp

text \<open>\<^verbatim>\<open>FrameSnapshot\<close>: the last layer and when \<^verbatim>\<open>Present\<close> ran.\<close>

record frame_snapshot =
  fs_texture :: "u64 \<times> u64"
  fs_bounds :: "texture_bounds \<times> texture_bounds"
  fs_pose :: mat34
  fs_predict :: fp
  fs_qpc :: u64
  fs_layers :: u32

text \<open>
  \<open>dm_outgoing\<close> is the FrameReady that \<^verbatim>\<open>Present\<close> still has to queue when it has
  left the device lock. \<open>dm_told\<close> is a history variable: the generation of the
  last StagingConfig queued since the helper was last lost. No operation reads it.
\<close>

record direct_mode =
  dm_device :: bool
  dm_device_attempts :: nat
  dm_shared :: "(u64 \<times> nat) list"
  dm_sets :: "texture_set list"
  dm_layer :: frame_snapshot
  dm_ipc :: bool
  dm_ring :: ring
  dm_ring_attempts :: nat
  dm_resend :: bool
  dm_outgoing :: "frame_ready option"
  dm_vsync_counter :: u64
  dm_vsync_started :: bool
  dm_vsync_running :: bool
  dm_vsync_exited :: bool
  dm_shut_down :: bool
  dm_frame_id :: u64
  dm_sent :: u64
  dm_dropped :: u64
  dm_acquire_failures :: u64
  dm_done_stale :: u64
  dm_told :: "u32 option"

definition zero_bounds :: texture_bounds where
  "zero_bounds = \<lparr>tb_uMin = Num 0, tb_vMin = Num 0, tb_uMax = Num 0, tb_vMax = Num 0\<rparr>"

definition no_layer :: frame_snapshot where
  "no_layer = \<lparr>fs_texture = (0, 0), fs_bounds = (zero_bounds, zero_bounds), fs_pose = zero_matrix,
     fs_predict = Num 0, fs_qpc = 0, fs_layers = 0\<rparr>"

definition direct_new :: direct_mode where
  "direct_new = \<lparr>dm_device = False, dm_device_attempts = 0, dm_shared = [], dm_sets = [], dm_layer = no_layer,
     dm_ipc = False, dm_ring = ring_new, dm_ring_attempts = 0, dm_resend = False, dm_outgoing = None,
     dm_vsync_counter = 0, dm_vsync_started = False, dm_vsync_running = False, dm_vsync_exited = True,
     dm_shut_down = False, dm_frame_id = 0, dm_sent = 0, dm_dropped = 0, dm_acquire_failures = 0,
     dm_done_stale = 0, dm_told = None\<rparr>"

section \<open>The device and the opened textures\<close>

definition ensure_device_locked :: "'w gpu \<Rightarrow> direct_mode \<times> 'w \<Rightarrow> bool \<times> direct_mode \<times> 'w" where
  "ensure_device_locked env = (\<lambda>(d, w).
     if dm_device d then (True, d, w)
     else if kMaxDeviceAttempts \<le> dm_device_attempts d then (False, d, w)
     else let d = d\<lparr>dm_device_attempts := dm_device_attempts d + 1\<rparr>;
              (hr, w) = g_create_device env True w;
              (hr, w) = (if hr = DeviceInvalidArg then g_create_device env False w else (hr, w))
          in if hr = DeviceOk then (True, d\<lparr>dm_device := True\<rparr>, w) else (False, d, w))"

definition shared_texture_locked :: "'w gpu \<Rightarrow> u64 \<Rightarrow> direct_mode \<times> 'w \<Rightarrow> nat option \<times> direct_mode \<times> 'w" where
  "shared_texture_locked env h = (\<lambda>(d, w).
     if h = 0 then (None, d, w)
     else case ensure_device_locked env (d, w) of
       (False, d, w) \<Rightarrow> (None, d, w)
     | (True, d, w) \<Rightarrow>
         (case map_of (dm_shared d) h of
            Some t \<Rightarrow> (Some t, d, w)
          | None \<Rightarrow>
              (case g_open_shared env h w of
                 (None, w) \<Rightarrow> (None, d, w)
               | (Some t, w) \<Rightarrow> (Some t, d\<lparr>dm_shared := dm_shared d @ [(h, t)]\<rparr>, w))))"

definition release_device_locked :: "'w gpu \<Rightarrow> direct_mode \<times> 'w \<Rightarrow> direct_mode \<times> 'w" where
  "release_device_locked env = (\<lambda>(d, w).
     let w = foldl (\<lambda>w (h, t). g_release env t w) w (dm_shared d);
         w = (if dm_device d then g_release_device env w else w)
     in (d\<lparr>dm_shared := [], dm_device := False\<rparr>, w))"

section \<open>Swap texture sets\<close>

fun index_of :: "u64 \<Rightarrow> u64 list \<Rightarrow> nat option" where
  "index_of h [] = None"
| "index_of h (x # xs) = (if x = h then Some 0 else map_option Suc (index_of h xs))"

text \<open>Position in the vector of the set a handle belongs to.\<close>

fun find_index :: "u64 \<Rightarrow> texture_set list \<Rightarrow> nat option" where
  "find_index h [] = None"
| "find_index h (s # ss) = (if h \<in> set (ts_handles s) then Some 0 else map_option Suc (find_index h ss))"

definition find_set_locked :: "u64 \<Rightarrow> texture_set list \<Rightarrow> nat option" where
  "find_set_locked h sets = (if h = 0 then None else find_index h sets)"

definition find_texture_locked :: "u64 \<Rightarrow> texture_set list \<Rightarrow> nat option" where
  "find_texture_locked h sets =
     (case find_set_locked h sets of
        None \<Rightarrow> None
      | Some i \<Rightarrow> (case index_of h (ts_handles (sets ! i)) of None \<Rightarrow> None | Some j \<Rightarrow> ts_textures (sets ! i) ! j))"

definition safe_release :: "'w gpu \<Rightarrow> nat option \<Rightarrow> 'w \<Rightarrow> 'w" where
  "safe_release env p w = (case p of Some t \<Rightarrow> g_release env t w | None \<Rightarrow> w)"

definition release_all :: "'w gpu \<Rightarrow> nat option list \<Rightarrow> 'w \<Rightarrow> 'w" where
  "release_all env ts w = foldl (\<lambda>w p. safe_release env p w) w ts"

definition destroy_set_locked :: "'w gpu \<Rightarrow> nat \<Rightarrow> texture_set list \<times> 'w \<Rightarrow> texture_set list \<times> 'w" where
  "destroy_set_locked env i = (\<lambda>(sets, w).
     if length sets \<le> i then (sets, w)
     else (take i sets @ drop (i + 1) sets, release_all env (ts_textures (sets ! i)) w))"

record swap_desc =
  sd_width :: u32
  sd_height :: u32
  sd_format :: u32
  sd_sample_count :: u32

record swap_set =
  so_handles :: "u64 list"
  so_flags :: u32

text \<open>
  \<^verbatim>\<open>D3D11_BIND_SHADER_RESOURCE\<close> and \<^verbatim>\<open>RENDER_TARGET\<close> are 8 and 32, \<^verbatim>\<open>DEPTH_STENCIL\<close> is
  64; \<^verbatim>\<open>R32G8X24_TYPELESS\<close> and \<^verbatim>\<open>R32_TYPELESS\<close> are formats 19 and 39.
\<close>

definition texture_desc :: "swap_desc \<Rightarrow> tex_desc" where
  "texture_desc sd = \<lparr>td_width = sd_width sd, td_height = sd_height sd, td_format = sd_format sd,
     td_samples = (if sd_sample_count sd = 0 then 1 else sd_sample_count sd),
     td_bind = (if sd_format sd = 19 \<or> sd_format sd = 39 then 64 else 40)\<rparr>"

text \<open>The loop over the three textures: on a failure everything created is released again.\<close>

fun create_textures ::
    "'w gpu \<Rightarrow> tex_desc \<Rightarrow> nat list \<Rightarrow> texture_set \<times> swap_set \<times> 'w \<Rightarrow> bool \<times> texture_set \<times> swap_set \<times> 'w" where
  "create_textures env desc [] (s, out, w) = (True, s, out, w)"
| "create_textures env desc (i # is) (s, out, w) =
     (case g_create_texture env desc w of
        (None, w) \<Rightarrow> (False, s, out, release_all env (ts_textures s) w)
      | (Some t, w) \<Rightarrow>
          let s = s\<lparr>ts_textures := (ts_textures s)[i := Some t]\<rparr>
          in case g_query_resource env t w of
               (False, w) \<Rightarrow> (False, s, out, release_all env (ts_textures s) w)
             | (True, w) \<Rightarrow>
                 (case g_shared_handle env t w of
                    (None, w) \<Rightarrow> (False, s, out, release_all env (ts_textures s) w)
                  | (Some h, w) \<Rightarrow>
                      if h = 0 then (False, s, out, release_all env (ts_textures s) w)
                      else create_textures env desc is
                        (s\<lparr>ts_handles := (ts_handles s)[i := h]\<rparr>, out\<lparr>so_handles := (so_handles out)[i := h]\<rparr>, w)))"

definition start_vsync_thread :: "'w gpu \<Rightarrow> direct_mode \<times> 'w \<Rightarrow> direct_mode \<times> 'w" where
  "start_vsync_thread env = (\<lambda>(d, w).
     if dm_shut_down d \<or> dm_vsync_started d then (d, w)
     else case g_start_thread env w of
       (True, w) \<Rightarrow> (d\<lparr>dm_vsync_started := True, dm_vsync_running := True, dm_vsync_exited := False\<rparr>, w)
     | (False, w) \<Rightarrow> (d\<lparr>dm_vsync_started := True, dm_vsync_running := False, dm_vsync_exited := True\<rparr>, w))"

definition empty_set :: "u32 \<Rightarrow> tex_desc \<Rightarrow> texture_set" where
  "empty_set pid desc = \<lparr>ts_pid = pid, ts_textures = [None, None, None], ts_handles = [0, 0, 0], ts_index = 0,
     ts_width = td_width desc, ts_height = td_height desc, ts_format = td_format desc,
     ts_sample_count = td_samples desc\<rparr>"

definition CreateSwapTextureSet ::
    "'w gpu \<Rightarrow> u32 \<Rightarrow> swap_desc option \<Rightarrow> swap_set option \<Rightarrow> direct_mode \<times> 'w \<Rightarrow> swap_set option \<times> direct_mode \<times> 'w" where
  "CreateSwapTextureSet env pid sd out = (\<lambda>(d, w).
     case (sd, out) of
       (Some sd, Some out) \<Rightarrow>
         let out = out\<lparr>so_handles := [0, 0, 0], so_flags := 0\<rparr>;
             (d, w) = start_vsync_thread env (d, w)
         in (case ensure_device_locked env (d, w) of
               (False, d, w) \<Rightarrow> (Some out, d, w)
             | (True, d, w) \<Rightarrow>
                 let desc = texture_desc sd
                 in if kMaxTextureSets \<le> length (dm_sets d) then (Some out, d, w)
                    else case create_textures env desc [0, 1, 2] (empty_set pid desc, out, w) of
                           (False, s, out, w) \<Rightarrow> (Some out, d, w)
                         | (True, s, out, w) \<Rightarrow> (Some out, d\<lparr>dm_sets := dm_sets d @ [s]\<rparr>, w))
     | _ \<Rightarrow> (out, d, w))"

definition DestroySwapTextureSet :: "'w gpu \<Rightarrow> u64 \<Rightarrow> direct_mode \<times> 'w \<Rightarrow> direct_mode \<times> 'w" where
  "DestroySwapTextureSet env h = (\<lambda>(d, w).
     case find_index h (dm_sets d) of
       None \<Rightarrow> (d, w)
     | Some i \<Rightarrow> (case destroy_set_locked env i (dm_sets d, w) of (sets, w) \<Rightarrow> (d\<lparr>dm_sets := sets\<rparr>, w)))"

text \<open>The vector is walked from its end, so erasing does not move what is still to come.\<close>

fun destroy_down :: "'w gpu \<Rightarrow> u32 \<Rightarrow> nat \<Rightarrow> texture_set list \<times> 'w \<Rightarrow> texture_set list \<times> 'w" where
  "destroy_down env pid 0 sw = sw"
| "destroy_down env pid (Suc i) (sets, w) =
     destroy_down env pid i (if ts_pid (sets ! i) = pid then destroy_set_locked env i (sets, w) else (sets, w))"

definition DestroyAllSwapTextureSets :: "'w gpu \<Rightarrow> u32 \<Rightarrow> direct_mode \<times> 'w \<Rightarrow> direct_mode \<times> 'w" where
  "DestroyAllSwapTextureSets env pid = (\<lambda>(d, w).
     case destroy_down env pid (length (dm_sets d)) (dm_sets d, w) of (sets, w) \<Rightarrow> (d\<lparr>dm_sets := sets\<rparr>, w))"

definition next_index :: "u64 \<Rightarrow> texture_set list \<Rightarrow> u32 option \<times> texture_set list" where
  "next_index h sets =
     (case find_set_locked h sets of
        None \<Rightarrow> (None, sets)
      | Some i \<Rightarrow> let n = (ts_index (sets ! i) + 1) mod 3 in (Some n, sets[i := (sets ! i)\<lparr>ts_index := n\<rparr>]))"

text \<open>The two handles, or null; the two out parameters, or null.\<close>

definition GetNextSwapTextureSetIndex ::
    "(u64 \<times> u64) option \<Rightarrow> (u32 \<times> u32) option \<Rightarrow> direct_mode \<Rightarrow> (u32 \<times> u32) option \<times> direct_mode" where
  "GetNextSwapTextureSetIndex handles indices d =
     (case handles of
        None \<Rightarrow> (indices, d)
      | Some (h0, h1) \<Rightarrow>
          let (n0, sets) = next_index h0 (dm_sets d);
              (n1, sets) = next_index h1 sets
          in (map_option (\<lambda>(i0, i1). (case n0 of Some n \<Rightarrow> n | None \<Rightarrow> i0, case n1 of Some n \<Rightarrow> n | None \<Rightarrow> i1)) indices,
              d\<lparr>dm_sets := sets\<rparr>))"

section \<open>Layers\<close>

definition SubmitLayer :: "layer_eye \<times> layer_eye \<Rightarrow> direct_mode \<Rightarrow> direct_mode" where
  "SubmitLayer = (\<lambda>(l, r) d. d\<lparr>dm_layer := (dm_layer d)\<lparr>fs_texture := (le_texture l, le_texture r),
     fs_bounds := (le_bounds l, le_bounds r), fs_pose := le_pose l, fs_predict := le_predict l,
     fs_layers := fs_layers (dm_layer d) + 1\<rparr>\<rparr>)"

definition count_drop :: "direct_mode \<Rightarrow> direct_mode" where
  "count_drop d = d\<lparr>dm_dropped := dm_dropped d + 1\<rparr>"

definition send_staging_config :: "direct_mode \<times> client \<Rightarrow> direct_mode \<times> client" where
  "send_staging_config = (\<lambda>(d, c).
     case describe (dm_ring d) of
       None \<Rightarrow> (d, c)
     | Some config \<Rightarrow>
         if \<not> dm_ipc d then (d, c)
         else case queue_staging_config config c of
           (False, c) \<Rightarrow> (d, c)
         | (True, c) \<Rightarrow> (d\<lparr>dm_told := Some (sc_generation config)\<rparr>, c))"


section \<open>Video transport\<close>

text \<open>The ring of the right size and format, announced to the helper: created, announced again, or as it is.\<close>

definition ensure_ring ::
    "'w gpu \<Rightarrow> u32 \<Rightarrow> u32 \<Rightarrow> u32 \<Rightarrow> direct_mode \<times> client \<times> 'w \<Rightarrow> bool \<times> direct_mode \<times> client \<times> 'w" where
  "ensure_ring env staging_width eye_height staging_format = (\<lambda>(d, c, w).
     if \<not> ring_matches staging_width eye_height staging_format (dm_ring d) then
       if kMaxRingAttempts \<le> dm_ring_attempts d then (False, count_drop d, c, w)
       else let d = d\<lparr>dm_ring_attempts := dm_ring_attempts d + 1\<rparr>
            in case ring_create (g_ring env) (dm_device d) staging_width eye_height staging_format kStagingSlots
                      (dm_ring d, w) of
                 (False, r, w) \<Rightarrow> (False, count_drop (d\<lparr>dm_ring := r\<rparr>), c, w)
               | (True, r, w) \<Rightarrow>
                   (case send_staging_config (d\<lparr>dm_ring := r, dm_ring_attempts := 0, dm_resend := False\<rparr>, c) of
                      (d, c) \<Rightarrow> (True, d, c, w))
     else if dm_resend d then
       (case send_staging_config (d\<lparr>dm_resend := False\<rparr>, c) of (d, c) \<Rightarrow> (True, d, c, w))
     else (True, d, c, w))"

definition eye_copy :: "nat \<Rightarrow> u32 \<Rightarrow> nat \<Rightarrow> sub_rect \<Rightarrow> region_copy" where
  "eye_copy dst dst_x src r = \<lparr>rc_dst = dst, rc_dst_x = dst_x, rc_src = src,
     rc_box = \<lparr>bx_left = sr_x r, bx_top = sr_y r, bx_right = sr_x r + sr_w r, bx_bottom = sr_y r + sr_h r\<rparr>\<rparr>"

definition frame_message :: "frame_snapshot \<Rightarrow> u64 \<Rightarrow> u32 \<Rightarrow> nat \<Rightarrow> frame_ready" where
  "frame_message frame frame_id generation index =
     (case decompose_matrix34 (fs_pose frame) of ((qw, qx, qy, qz), (px, py, pz)) \<Rightarrow>
        \<lparr>fr_frame_id = frame_id, fr_sample_time_qpc = fs_qpc frame, fr_generation = generation,
         fr_staging_index = of_nat index, fr_qw = f32_bits qw, fr_qx = f32_bits qx, fr_qy = f32_bits qy,
         fr_qz = f32_bits qz, fr_px = f32_bits px, fr_py = f32_bits py, fr_pz = f32_bits pz,
         fr_predict_s = f32_bits (if is_num (fs_predict frame) then fs_predict frame else Num 0)\<rparr>)"

text \<open>A slot is leased, the eyes are copied side by side, and the slot goes to the helper.\<close>

definition fill_slot ::
    "'w gpu \<Rightarrow> frame_snapshot \<Rightarrow> (nat \<times> sub_rect) \<times> (nat \<times> sub_rect) \<Rightarrow> direct_mode \<times> 'w
       \<Rightarrow> frame_ready option \<times> direct_mode \<times> 'w" where
  "fill_slot env frame = (\<lambda>((t0, r0), (t1, r1)) (d, w).
     case acquire_slot (g_ring env) (dm_ring d, w) of
       (None, r, w) \<Rightarrow> (None, count_drop (d\<lparr>dm_ring := r\<rparr>), w)
     | (Some (index, texture), r, w) \<Rightarrow>
         let w = g_copy env (eye_copy texture 0 t0 r0) w;
             w = g_copy env (eye_copy texture (sr_w r0) t1 r1) w;
             frame_id = dm_frame_id d + 1;
             (r, w) = release_to_helper (g_ring env) (Some (index, texture)) frame_id (r, w);
             w = g_flush env w
         in (Some (frame_message frame frame_id (rg_generation r) index),
             d\<lparr>dm_ring := r, dm_frame_id := frame_id, dm_sent := dm_sent d + 1\<rparr>, w))"

text \<open>The checks on the two textures, with both of them held.\<close>

definition transport_eyes ::
    "'w gpu \<Rightarrow> frame_snapshot \<Rightarrow> nat option \<times> nat option \<Rightarrow> direct_mode \<times> client \<times> 'w
       \<Rightarrow> frame_ready option \<times> direct_mode \<times> client \<times> 'w" where
  "transport_eyes env frame eyes = (\<lambda>(d, c, w).
     case eyes of
       (Some t0, Some t1) \<Rightarrow>
         let desc0 = g_get_desc env t0 w; desc1 = g_get_desc env t1 w
         in if 1 < td_samples desc0 \<or> 1 < td_samples desc1 then (None, count_drop d, c, w)
            else if td_format desc0 \<noteq> td_format desc1 then (None, count_drop d, c, w)
            else let r0 = fst (rect_from_bounds (fst (fs_bounds frame)) (td_width desc0) (td_height desc0));
                     r1 = fst (rect_from_bounds (snd (fs_bounds frame)) (td_width desc1) (td_height desc1))
                 in if sr_w r0 = 0 \<or> sr_h r0 = 0 \<or> sr_w r1 = 0 \<or> sr_h r1 = 0 then (None, count_drop d, c, w)
                    else let eye_width = sr_w r0; eye_height = sr_h r0;
                             r1 = r1\<lparr>sr_w := min (sr_w r1) eye_width, sr_h := min (sr_h r1) eye_height\<rparr>;
                             staging_format = fst (staging_format_for (td_format desc0))
                         in case ensure_ring env (eye_width * 2) eye_height staging_format (d, c, w) of
                              (False, d, c, w) \<Rightarrow> (None, d, c, w)
                            | (True, d, c, w) \<Rightarrow>
                                (case fill_slot env frame ((t0, r0), (t1, r1)) (d, w) of
                                   (out, d, w) \<Rightarrow> (out, d, c, w))
     | _ \<Rightarrow> (None, count_drop d, c, w))"

definition add_ref :: "'w gpu \<Rightarrow> nat option \<Rightarrow> 'w \<Rightarrow> 'w" where
  "add_ref env p w = (case p of Some t \<Rightarrow> g_add_ref env t w | None \<Rightarrow> w)"

definition transport_frame_locked ::
    "'w gpu \<Rightarrow> frame_snapshot \<Rightarrow> direct_mode \<times> client \<times> 'w \<Rightarrow> frame_ready option \<times> direct_mode \<times> client \<times> 'w" where
  "transport_frame_locked env frame = (\<lambda>(d, c, w).
     if \<not> dm_ipc d \<or> \<not> cl_connected c then (None, count_drop d, c, w)
     else case ensure_device_locked env (d, w) of
       (False, d, w) \<Rightarrow> (None, count_drop d, c, w)
     | (True, d, w) \<Rightarrow>
         let e0 = find_texture_locked (fst (fs_texture frame)) (dm_sets d);
             w = add_ref env e0 w;
             e1 = find_texture_locked (snd (fs_texture frame)) (dm_sets d);
             w = add_ref env e1 w
         in case transport_eyes env frame (e0, e1) (d, c, w) of
              (out, d, c, w) \<Rightarrow> (out, d, c, safe_release env e1 (safe_release env e0 w)))"

section \<open>Present\<close>

text \<open>Up to the end of the device lock.\<close>

definition present_frame :: "'w gpu \<Rightarrow> u64 \<Rightarrow> direct_mode \<times> client \<times> 'w \<Rightarrow> direct_mode \<times> client \<times> 'w" where
  "present_frame env sync = (\<lambda>(d, c, w).
     let (qpc, w) = g_query_qpc env w;
         frame = (dm_layer d)\<lparr>fs_qpc := qpc\<rparr>;
         d = d\<lparr>dm_layer := (dm_layer d)\<lparr>fs_layers := 0\<rparr>\<rparr>
     in if fs_layers frame = 0 then (d, c, w)
        else if sync = 0 then (count_drop d, c, w)
        else case shared_texture_locked env sync (d, w) of
          (None, d, w) \<Rightarrow> (d, c, w)
        | (Some t, d, w) \<Rightarrow>
            (case g_query_mutex env t w of
               (None, w) \<Rightarrow>
                 (case transport_frame_locked env frame (d, c, w) of
                    (out, d, c, w) \<Rightarrow> (d\<lparr>dm_outgoing := out\<rparr>, c, w))
             | (Some m, w) \<Rightarrow>
                 (case g_acquire_sync env m w of
                    (True, w) \<Rightarrow>
                      (case transport_frame_locked env frame (d, c, w) of
                         (out, d, c, w) \<Rightarrow> (d\<lparr>dm_outgoing := out\<rparr>, c, g_release_mutex env m (g_release_sync env m w)))
                  | (False, w) \<Rightarrow>
                      (count_drop (d\<lparr>dm_acquire_failures := dm_acquire_failures d + 1\<rparr>), c, g_release_mutex env m w))))"

text \<open>Outside it.\<close>

definition present_queue :: "direct_mode \<times> client \<Rightarrow> direct_mode \<times> client" where
  "present_queue = (\<lambda>(d, c).
     case dm_outgoing d of
       None \<Rightarrow> (d, c)
     | Some ready \<Rightarrow>
         let d = d\<lparr>dm_outgoing := None\<rparr>;
             (ok, c) = (if dm_ipc d then queue_frame_ready ready c else (False, c))
         in if ok then (d, c) else ((count_drop d)\<lparr>dm_ring := mark_stale (dm_ring d)\<rparr>, c))"

definition Present :: "'w gpu \<Rightarrow> u64 \<Rightarrow> direct_mode \<times> client \<times> 'w \<Rightarrow> direct_mode \<times> client \<times> 'w" where
  "Present env sync dcw =
     (case present_frame env sync dcw of (d, c, w) \<Rightarrow> (case present_queue (d, c) of (d, c) \<Rightarrow> (d, c, w)))"

section \<open>From the pipe client\<close>

definition attach_ipc :: "bool \<Rightarrow> direct_mode \<Rightarrow> direct_mode" where
  "attach_ipc ipc d = d\<lparr>dm_ipc := ipc\<rparr>"

definition on_ipc_connected :: "direct_mode \<Rightarrow> direct_mode" where
  "on_ipc_connected d = d\<lparr>dm_resend := True\<rparr>"

definition on_ipc_disconnected :: "direct_mode \<Rightarrow> direct_mode" where
  "on_ipc_disconnected d = d\<lparr>dm_resend := False, dm_ring := mark_stale (dm_ring d), dm_told := None\<rparr>"

definition direct_frame_done :: "frame_done \<Rightarrow> direct_mode \<Rightarrow> direct_mode" where
  "direct_frame_done fd d =
     (case on_frame_done fd (dm_ring d) of
        (True, r) \<Rightarrow> d\<lparr>dm_ring := r\<rparr>
      | (False, r) \<Rightarrow> d\<lparr>dm_ring := r, dm_done_stale := dm_done_stale d + 1\<rparr>)"

section \<open>Vsync\<close>

text \<open>\<^verbatim>\<open>PostPresent\<close> makes sure the thread runs and waits until this holds, or two intervals.\<close>

definition PostPresent :: "'w gpu \<Rightarrow> direct_mode \<times> 'w \<Rightarrow> direct_mode \<times> 'w" where
  "PostPresent env = start_vsync_thread env"

definition post_present_wakes :: "u64 \<Rightarrow> direct_mode \<Rightarrow> bool" where
  "post_present_wakes seen d \<longleftrightarrow> dm_vsync_counter d \<noteq> seen \<or> \<not> dm_vsync_running d"

text \<open>The interval as a \<^verbatim>\<open>steady_clock\<close> duration, and one round of the loop's pacing.\<close>

definition interval_ns :: "fp option \<Rightarrow> time_ns" where
  "interval_ns refresh = fp_to_i64 (fp_mul F64 (frame_interval_seconds refresh) (Num 1000000000))"

definition vsync_next :: "fp option \<Rightarrow> time_ns \<Rightarrow> time_ns \<Rightarrow> time_ns" where
  "vsync_next refresh now nxt =
     (let nxt = nxt + interval_ns refresh in if nxt < now then now + interval_ns refresh else nxt)"

text \<open>The rest of the round: leave when told to, or count the tick.\<close>

definition vsync_tick :: "direct_mode \<Rightarrow> direct_mode" where
  "vsync_tick d =
     (if \<not> dm_vsync_running d then d\<lparr>dm_vsync_exited := True\<rparr>
      else d\<lparr>dm_vsync_counter := dm_vsync_counter d + 1\<rparr>)"

record frame_timing =
  ft_size :: u32
  ft_presents :: u32
  ft_mis_presented :: u32
  ft_dropped :: u32
  ft_reprojection :: u32

definition GetFrameTiming :: "frame_timing option \<Rightarrow> frame_timing option" where
  "GetFrameTiming ft = map_option (\<lambda>t.
     let t = (if 8 \<le> ft_size t then t\<lparr>ft_presents := 1\<rparr> else t);
         t = (if 12 \<le> ft_size t then t\<lparr>ft_mis_presented := 0\<rparr> else t);
         t = (if 16 \<le> ft_size t then t\<lparr>ft_dropped := 0\<rparr> else t)
     in if 20 \<le> ft_size t then t\<lparr>ft_reprojection := 0\<rparr> else t) ft"

section \<open>Teardown\<close>

fun destroy_every :: "'w gpu \<Rightarrow> nat \<Rightarrow> texture_set list \<times> 'w \<Rightarrow> texture_set list \<times> 'w" where
  "destroy_every env 0 sw = sw"
| "destroy_every env (Suc n) sw = destroy_every env n (destroy_set_locked env n sw)"

definition direct_shutdown :: "'w gpu \<Rightarrow> direct_mode \<times> 'w \<Rightarrow> direct_mode \<times> 'w" where
  "direct_shutdown env = (\<lambda>(d, w).
     if dm_shut_down d then (d, w)
     else let d = d\<lparr>dm_shut_down := True, dm_ipc := False, dm_vsync_running := False, dm_vsync_exited := True\<rparr>;
              (sets, w) = destroy_every env (length (dm_sets d)) (dm_sets d, w);
              (r, w) = destroy_locked (g_ring env) (dm_ring d, w)
          in release_device_locked env (d\<lparr>dm_sets := sets, dm_ring := r\<rparr>, w))"

section \<open>The component as a machine\<close>

text \<open>
  A step of the pipe client's thread delivers the callbacks it makes at once,
  as the driver provider wires them.
\<close>

fun direct_callback :: "direct_mode \<Rightarrow> callback \<Rightarrow> direct_mode" where
  "direct_callback d (CbFrameDone fd) = direct_frame_done fd d"
| "direct_callback d CbSessionReady = on_ipc_connected d"
| "direct_callback d CbDisconnect = on_ipc_disconnected d"
| "direct_callback d _ = d"

definition new_callbacks :: "client \<Rightarrow> client \<Rightarrow> callback list" where
  "new_callbacks c c' = drop (length (cl_callbacks c)) (cl_callbacks c')"

datatype direct_event =
  CreateSet u32 swap_desc
| DestroySet u64
| DestroyAll u32
| NextIndex u64 u64
| Submit layer_eye layer_eye
| PresentFrame u64
| PresentQueue
| Posted
| VsyncTick
| AttachIpc
| ClientEvent client_event
| Shutdown

fun direct_step :: "'w gpu \<Rightarrow> direct_mode \<times> client \<times> 'w \<Rightarrow> direct_event \<Rightarrow> direct_mode \<times> client \<times> 'w" where
  "direct_step env (d, c, w) (CreateSet pid sd) =
     (case CreateSwapTextureSet env pid (Some sd) (Some \<lparr>so_handles = [0, 0, 0], so_flags = 0\<rparr>) (d, w) of
        (out, d, w) \<Rightarrow> (d, c, w))"
| "direct_step env (d, c, w) (DestroySet h) = (case DestroySwapTextureSet env h (d, w) of (d, w) \<Rightarrow> (d, c, w))"
| "direct_step env (d, c, w) (DestroyAll pid) = (case DestroyAllSwapTextureSets env pid (d, w) of (d, w) \<Rightarrow> (d, c, w))"
| "direct_step env (d, c, w) (NextIndex h0 h1) = (snd (GetNextSwapTextureSetIndex (Some (h0, h1)) None d), c, w)"
| "direct_step env (d, c, w) (Submit l r) = (SubmitLayer (l, r) d, c, w)"
| "direct_step env (d, c, w) (PresentFrame sync) =
     (if dm_outgoing d = None then present_frame env sync (d, c, w) else (d, c, w))"
| "direct_step env (d, c, w) PresentQueue = (case present_queue (d, c) of (d, c) \<Rightarrow> (d, c, w))"
| "direct_step env (d, c, w) Posted = (case PostPresent env (d, w) of (d, w) \<Rightarrow> (d, c, w))"
| "direct_step env (d, c, w) VsyncTick = (vsync_tick d, c, w)"
| "direct_step env (d, c, w) AttachIpc = (attach_ipc True d, c, w)"
| "direct_step env (d, c, w) (ClientEvent e) =
     (let c' = client_step c e in (foldl direct_callback d (new_callbacks c c'), c', w))"
| "direct_step env (d, c, w) Shutdown = (case direct_shutdown env (d, w) of (d, w) \<Rightarrow> (d, c, w))"


section \<open>What the helpers leave alone\<close>

lemma ensure_device_fields:
  assumes "ensure_device_locked env (d, w) = (ok, d', w')"
  shows "\<exists>n v. d' = d\<lparr>dm_device_attempts := n, dm_device := v\<rparr> \<and> (ok \<longrightarrow> v) \<and> (\<not> ok \<longrightarrow> v = dm_device d)"
  using assms
  by (auto simp: ensure_device_locked_def Let_def split: if_splits prod.splits
      intro: exI [of _ "dm_device_attempts d"] exI [of _ "dm_device_attempts d + 1"])
    (metis direct_mode.surjective direct_mode.update_convs(1,2))+

lemma start_vsync_fields:
  assumes "start_vsync_thread env (d, w) = (d', w')"
  shows "\<exists>a b v. d' = d\<lparr>dm_vsync_started := a, dm_vsync_running := b, dm_vsync_exited := v\<rparr>"
proof (cases "dm_shut_down d \<or> dm_vsync_started d")
  case True
  then show ?thesis
    using assms by (intro exI [of _ "dm_vsync_started d"] exI [of _ "dm_vsync_running d"] exI [of _ "dm_vsync_exited d"])
      (simp add: start_vsync_thread_def)
next
  case False
  then show ?thesis using assms by (auto simp: start_vsync_thread_def split: prod.splits bool.splits)
qed

lemma shared_texture_fields:
  assumes "shared_texture_locked env h (d, w) = (p, d', w')"
  shows "\<exists>n v sh. d' = d\<lparr>dm_device_attempts := n, dm_device := v, dm_shared := sh\<rparr>"
proof -
  obtain ok d1 w1 where e: "ensure_device_locked env (d, w) = (ok, d1, w1)" by (cases "ensure_device_locked env (d, w)")
  from ensure_device_fields [OF this] obtain n v where d1: "d1 = d\<lparr>dm_device_attempts := n, dm_device := v\<rparr>" by blast
  have "d' = d \<or> d' = d1 \<or> (\<exists>sh. d' = d1\<lparr>dm_shared := sh\<rparr>)"
    using assms e by (auto simp: shared_texture_locked_def split: if_splits bool.splits option.splits prod.splits)
  moreover have "d = d\<lparr>dm_device_attempts := dm_device_attempts d, dm_device := dm_device d, dm_shared := dm_shared d\<rparr>"
    "d1 = d\<lparr>dm_device_attempts := n, dm_device := v, dm_shared := dm_shared d\<rparr>" by (cases d, simp add: d1)+
  ultimately show ?thesis unfolding d1 by blast
qed

lemma queue_config:
  obtains q where "queue_staging_config x c = (cl_connected c, c\<lparr>cl_pending := q\<rparr>)"
proof (cases "cl_connected c")
  case True
  have "enc_staging_config x \<noteq> []" using staging_config_codec.length_enc [of x] by (metis list.size(3) zero_neq_numeral)
  with True show ?thesis
    using that [of "(if kMaxPendingMessages \<le> length (cl_pending c) then tl (cl_pending c) else cl_pending c)
        @ [\<lparr>pm_type = MT_staging_config, pm_payload = enc_staging_config x\<rparr>]"]
    by (simp add: queue_staging_config_def queue_message_def queue_check_def queue_push_def kMaxPendingPayload_def)
next
  case False
  then show ?thesis
    using that [of "cl_pending c"] by (simp add: queue_staging_config_def queue_message_def queue_check_def)
qed

lemma send_config_fields:
  assumes "send_staging_config (d, c) = (d', c')"
  shows "\<exists>g. d' = d\<lparr>dm_told := g\<rparr> \<and> (g = dm_told d \<or> g = Some (rg_generation (dm_ring d)))"
    "cl_connected c' = cl_connected c"
    "dm_ipc d \<Longrightarrow> cl_connected c \<Longrightarrow> rg_count (dm_ring d) \<noteq> 0 \<Longrightarrow> dm_told d' = Some (rg_generation (dm_ring d))"
proof -
  have none: "dm_told d = dm_told d \<and> d = d\<lparr>dm_told := dm_told d\<rparr>" by simp
  have g: "describe (dm_ring d) = None \<longleftrightarrow> rg_count (dm_ring d) = 0"
    "describe (dm_ring d) = Some x \<Longrightarrow> sc_generation x = rg_generation (dm_ring d)" for x
    by (auto simp: describe_def Let_def split: if_splits)
  show "\<exists>g. d' = d\<lparr>dm_told := g\<rparr> \<and> (g = dm_told d \<or> g = Some (rg_generation (dm_ring d)))"
    "cl_connected c' = cl_connected c"
    "dm_ipc d \<Longrightarrow> cl_connected c \<Longrightarrow> rg_count (dm_ring d) \<noteq> 0 \<Longrightarrow> dm_told d' = Some (rg_generation (dm_ring d))"
  proof (atomize (full), cases "describe (dm_ring d)")
    case None
    then show "(\<exists>g. d' = d\<lparr>dm_told := g\<rparr> \<and> (g = dm_told d \<or> g = Some (rg_generation (dm_ring d)))) \<and>
      cl_connected c' = cl_connected c \<and> (dm_ipc d \<longrightarrow> cl_connected c \<longrightarrow> rg_count (dm_ring d) \<noteq> 0 \<longrightarrow>
      dm_told d' = Some (rg_generation (dm_ring d)))"
      using assms g(1) by (auto simp: send_staging_config_def intro: exI [of _ "dm_told d"])
  next
    case (Some x)
    obtain q where "queue_staging_config x c = (cl_connected c, c\<lparr>cl_pending := q\<rparr>)" by (rule queue_config)
    then show "(\<exists>g. d' = d\<lparr>dm_told := g\<rparr> \<and> (g = dm_told d \<or> g = Some (rg_generation (dm_ring d)))) \<and>
      cl_connected c' = cl_connected c \<and> (dm_ipc d \<longrightarrow> cl_connected c \<longrightarrow> rg_count (dm_ring d) \<noteq> 0 \<longrightarrow>
      dm_told d' = Some (rg_generation (dm_ring d)))"
      using assms Some g(2) [OF Some]
      by (auto simp: send_staging_config_def split: if_splits bool.splits intro: exI [of _ "dm_told d"])
  qed
qed

section \<open>Invariant\<close>

definition set_ok :: "texture_set \<Rightarrow> bool" where
  "set_ok s \<longleftrightarrow> length (ts_textures s) = 3 \<and> None \<notin> set (ts_textures s)
     \<and> length (ts_handles s) = 3 \<and> 0 \<notin> set (ts_handles s) \<and> ts_index s < 3"

text \<open>
  A usable ring was announced to the helper the component is connected to; the
  ring and the sets are well formed, and the numbers of sets and of attempts
  are bounded.
\<close>

definition told_inv :: "direct_mode \<Rightarrow> bool" where
  "told_inv d \<longleftrightarrow> ring_wf (dm_ring d) \<and> (usable (dm_ring d) \<longrightarrow> dm_told d = Some (rg_generation (dm_ring d)))"

definition sets_inv :: "texture_set list \<Rightarrow> bool" where
  "sets_inv sets \<longleftrightarrow> length sets \<le> kMaxTextureSets \<and> (\<forall>s \<in> set sets. set_ok s)"

definition direct_inv :: "direct_mode \<Rightarrow> bool" where
  "direct_inv d \<longleftrightarrow> told_inv d \<and> sets_inv (dm_sets d)"

lemma direct_inv_new: "direct_inv direct_new"
  using ring_wf_new by (simp add: direct_inv_def told_inv_def sets_inv_def direct_new_def usable_def) (simp add: ring_new_def)

subsection \<open>Sets\<close>

lemma create_textures_fields:
  assumes "create_textures env desc is (s, out, w) = (ok, s', out', w')"
  shows "\<exists>ts hs. s' = s\<lparr>ts_textures := ts, ts_handles := hs\<rparr> \<and> length ts = length (ts_textures s)
    \<and> length hs = length (ts_handles s) \<and> length (so_handles out') = length (so_handles out)
    \<and> (\<forall>j. j \<notin> set is \<longrightarrow> ts ! j = ts_textures s ! j \<and> hs ! j = ts_handles s ! j \<and> so_handles out' ! j = so_handles out ! j)
    \<and> (ok \<and> distinct is \<and> (\<forall>j \<in> set is. j < length (ts_textures s) \<and> j < length (ts_handles s) \<and> j < length (so_handles out))
        \<longrightarrow> (\<forall>j \<in> set is. ts ! j \<noteq> None \<and> hs ! j \<noteq> 0 \<and> so_handles out' ! j = hs ! j))"
  using assms
proof (induction "is" arbitrary: s out w)
  case Nil
  then show ?case by (intro exI [of _ "ts_textures s"] exI [of _ "ts_handles s"]) simp
next
  case (Cons i "is")
  obtain p w1 where c: "g_create_texture env desc w = (p, w1)" by fastforce
  show ?case
  proof (cases p)
    case None
    then show ?thesis
      using Cons.prems c by (intro exI [of _ "ts_textures s"] exI [of _ "ts_handles s"]) simp
  next
    case (Some t)
    define s1 where "s1 = s\<lparr>ts_textures := (ts_textures s)[i := Some t]\<rparr>"
    obtain q w2 where q: "g_query_resource env t w1 = (q, w2)" by fastforce
    obtain hp w3 where h: "g_shared_handle env t w2 = (hp, w3)" by fastforce
    show ?thesis
    proof (cases "q \<and> hp \<noteq> None \<and> hp \<noteq> Some 0")
      case False
      then have "\<not> ok \<and> s' = s1 \<and> out' = out"
        using Cons.prems c Some q h by (auto simp: s1_def Let_def split: option.splits bool.splits if_splits)
      then show ?thesis
        by (intro exI [of _ "(ts_textures s)[i := Some t]"] exI [of _ "ts_handles s"]) (auto simp: s1_def)
    next
      case True
      then obtain hh where hh: "hp = Some hh" "hh \<noteq> 0" by auto
      let ?s = "s1\<lparr>ts_handles := (ts_handles s1)[i := hh]\<rparr>" and ?out = "out\<lparr>so_handles := (so_handles out)[i := hh]\<rparr>"
      have rec: "create_textures env desc is (?s, ?out, w3) = (ok, s', out', w')"
        using Cons.prems c Some q h hh True by (simp add: s1_def)
      from Cons.IH [OF rec] obtain ts hs where ih: "s' = ?s\<lparr>ts_textures := ts, ts_handles := hs\<rparr>" "length ts = length (ts_textures ?s)"
        "length hs = length (ts_handles ?s)" "length (so_handles out') = length (so_handles ?out)"
        "\<And>j. j \<notin> set is \<Longrightarrow> ts ! j = ts_textures ?s ! j \<and> hs ! j = ts_handles ?s ! j \<and> so_handles out' ! j = so_handles ?out ! j"
        "ok \<and> distinct is \<and> (\<forall>j \<in> set is. j < length (ts_textures ?s) \<and> j < length (ts_handles ?s) \<and> j < length (so_handles ?out))
          \<Longrightarrow> (\<forall>j \<in> set is. ts ! j \<noteq> None \<and> hs ! j \<noteq> 0 \<and> so_handles out' ! j = hs ! j)"
        by auto
      show ?thesis
        using ih hh(2) by (intro exI [of _ ts] exI [of _ hs]) (auto simp: s1_def)
    qed
  qed
qed


lemma created_set_ok:
  assumes "create_textures env desc [0, 1, 2] (empty_set pid desc, out, w) = (True, s, out', w')" and "length (so_handles out) = 3"
  shows "set_ok s \<and> ts_pid s = pid \<and> so_handles out' = ts_handles s"
proof -
  from create_textures_fields [OF assms(1)] obtain ts hs where f:
    "s = (empty_set pid desc)\<lparr>ts_textures := ts, ts_handles := hs\<rparr>" "length ts = 3" "length hs = 3"
    "length (so_handles out') = 3" "\<forall>j \<in> {0, 1, 2}. ts ! j \<noteq> None \<and> hs ! j \<noteq> 0 \<and> so_handles out' ! j = hs ! j"
    using assms(2) by (auto simp: empty_set_def)
  have all: "(\<forall>x \<in> set xs. P x) \<longleftrightarrow> P (xs ! 0) \<and> P (xs ! 1) \<and> P (xs ! 2)" if "length xs = 3" for xs :: "'b list" and P
    using that by (auto simp: numeral_3_eq_3 length_Suc_conv)
  have "so_handles out' = hs"
    using f(3,4,5) by (auto simp: list_eq_iff_nth_eq less_Suc_eq numeral_3_eq_3 numeral_2_eq_2)
  moreover have "\<forall>x \<in> set ts. x \<noteq> None" "\<forall>x \<in> set hs. x \<noteq> 0" using f by (simp_all add: all)
  ultimately show ?thesis using f by (auto simp: set_ok_def empty_set_def)
qed

lemma find_index_Some: "find_index h sets = Some i \<Longrightarrow> i < length sets \<and> h \<in> set (ts_handles (sets ! i))"
  by (induction sets arbitrary: i) (auto split: if_splits)

lemma destroy_set_sets:
  "fst (destroy_set_locked env i (sets, w)) = take i sets @ drop (i + 1) sets"
  by (simp add: destroy_set_locked_def)

lemma sets_inv_take_drop: "sets_inv sets \<Longrightarrow> sets_inv (take i sets @ drop (i + 1) sets)"
  by (auto simp: sets_inv_def dest: in_set_takeD in_set_dropD)

lemma destroy_set_inv: "sets_inv sets \<Longrightarrow> destroy_set_locked env i (sets, w) = (sets', w') \<Longrightarrow> sets_inv sets'"
  using destroy_set_sets [of env i sets w] sets_inv_take_drop [of sets i] by simp

lemma destroy_down_inv: "sets_inv (fst sw) \<Longrightarrow> sets_inv (fst (destroy_down env pid n sw))"
proof (induction env pid n sw rule: destroy_down.induct)
  case (2 env pid i sets w)
  obtain sets' w' where d: "destroy_set_locked env i (sets, w) = (sets', w')" by fastforce
  then have "sets_inv sets'" using "2.prems" destroy_set_inv by auto
  with 2 d show ?case by auto
qed simp

lemma destroy_every_nil: "destroy_every env n (sets, w) = (sets', w') \<Longrightarrow> length sets \<le> n \<Longrightarrow> sets' = []"
proof (induction n arbitrary: sets w)
  case (Suc n)
  obtain s1 w1 where d: "destroy_set_locked env n (sets, w) = (s1, w1)" by fastforce
  have "length s1 \<le> n" using destroy_set_sets [of env n sets w] d Suc.prems(2) by auto
  with Suc d show ?case by simp
qed simp

lemma next_index_inv: "sets_inv sets \<Longrightarrow> next_index h sets = (n, sets') \<Longrightarrow> sets_inv sets'"
proof -
  assume inv: "sets_inv sets" and n: "next_index h sets = (n, sets')"
  have m: "(x + 1) mod 3 < (3 :: u32)" for x by (rule word_mod_less_divisor) simp
  show ?thesis
  proof (cases "find_set_locked h sets")
    case (Some i)
    then have i: "i < length sets" using find_index_Some by (simp add: find_set_locked_def split: if_splits)
    then have "set_ok (sets ! i)" using inv by (simp add: sets_inv_def)
    then have "set_ok ((sets ! i)\<lparr>ts_index := (ts_index (sets ! i) + 1) mod 3\<rparr>)" using m by (simp add: set_ok_def)
    then show ?thesis
      using inv n Some by (auto simp: next_index_def Let_def sets_inv_def dest!: subsetD [OF set_update_subset_insert])
  qed (use inv n in \<open>simp add: next_index_def\<close>)
qed


subsection \<open>The ring\<close>

definition same_ring :: "ring \<Rightarrow> ring \<Rightarrow> bool" where
  "same_ring r r' \<longleftrightarrow> rg_count r' = rg_count r \<and> rg_width r' = rg_width r \<and> rg_height r' = rg_height r
     \<and> rg_format r' = rg_format r \<and> rg_generation r' = rg_generation r \<and> rg_stale r' = rg_stale r"

lemma same_ring_refl [simp]: "same_ring r r"
  by (simp add: same_ring_def)

lemma same_ring_trans: "same_ring a b \<Longrightarrow> same_ring b c \<Longrightarrow> same_ring a c"
  by (simp add: same_ring_def)

lemma same_ring_set_slot: "same_ring r ((set_slot i s r)\<lparr>rg_next := n\<rparr>)" "same_ring r (set_slot i s r)"
  by (simp_all add: same_ring_def set_slot_def)

lemma same_ring_usable: "same_ring r r' \<Longrightarrow> usable r' = usable r"
  by (simp add: same_ring_def usable_def)

lemma same_ring_told: "told_inv d \<Longrightarrow> same_ring (dm_ring d) r \<Longrightarrow> ring_wf r \<Longrightarrow> told_inv (d\<lparr>dm_ring := r\<rparr>)"
  by (simp add: told_inv_def same_ring_def usable_def)

lemma acquire_slot_Some:
  assumes "acquire_slot env (r, w) = (Some (i, t), r', w')"
  shows "usable r" "i < rg_count r" "slot_free (rg_slots r ! i)" "st_texture (rg_slots r ! i) = Some t"
    "r' = (set_slot i ((rg_slots r ! i)\<lparr>st_leased := True\<rparr>) r)\<lparr>rg_next := (i + 1) mod rg_count r\<rparr>"
proof -
  have u: "\<not> (rg_count r = 0 \<or> rg_stale r)" using assms by (auto simp: acquire_slot_def split: if_splits)
  then have "acquire_from env 0 (r, w) = (Some (i, t), r', w')" using assms by (simp add: acquire_slot_def)
  from acquire_from_spec [OF this] u
  show "usable r" "i < rg_count r" "slot_free (rg_slots r ! i)" "st_texture (rg_slots r ! i) = Some t"
    "r' = (set_slot i ((rg_slots r ! i)\<lparr>st_leased := True\<rparr>) r)\<lparr>rg_next := (i + 1) mod rg_count r\<rparr>"
    by (simp_all add: usable_def)
qed

lemma acquire_slot_None:
  assumes "acquire_slot env (r, w) = (None, r', w')"
  shows "r' = r"
proof (cases "rg_count r = 0 \<or> rg_stale r")
  case False
  then have "acquire_from env 0 (r, w) = (None, r', w')" using assms by (simp add: acquire_slot_def)
  from acquire_from_spec [OF this] show ?thesis by simp
qed (use assms in \<open>simp add: acquire_slot_def\<close>)

text \<open>Leasing a slot and giving it to the helper at once.\<close>

lemma lease_and_release:
  assumes "ring_wf r" and "acquire_slot env (r, w) = (Some (i, t), r1, w1)"
    and "release_to_helper env (Some (i, t)) fid (r1, w2) = (r2, w3)"
  shows "same_ring r r2" "ring_wf r2" "i < rg_count r" "\<not> st_helper_owned (rg_slots r ! i)"
    "st_helper_owned (rg_slots r2 ! i)" "st_frame_id (rg_slots r2 ! i) = fid" "st_texture (rg_slots r2 ! i) = Some t"
    "\<exists>m. w3 = d_release env m 1 w2"
proof -
  note a = acquire_slot_Some [OF assms(2)]
  have wf1: "ring_wf r1" using acquire_wf [OF assms(1,2)] .
  have len: "i < length (rg_slots r)" using a(2) assms(1) by (simp add: ring_wf_def)
  have s1: "rg_slots r1 ! i = (rg_slots r ! i)\<lparr>st_leased := True\<rparr>" "rg_count r1 = rg_count r" "length (rg_slots r1) = length (rg_slots r)"
    using a(5) len by (simp_all add: set_slot_def)
  obtain m where m: "st_mutex (rg_slots r ! i) = Some m" using a(3) by (auto simp: slot_free_def)
  let ?s = "(rg_slots r1 ! i)\<lparr>st_leased := False, st_helper_owned := True, st_frame_id := fid\<rparr>"
  have r2: "r2 = set_slot i ?s r1" "w3 = d_release env m 1 w2"
    using assms(3) a(2) m s1 by (auto simp: release_to_helper_def Let_def)
  show "same_ring r r2" using r2(1) a(5) same_ring_set_slot same_ring_trans by metis
  show "ring_wf r2"
    unfolding r2(1) using wf1 a(2) s1 by (intro set_slot_wf) (auto simp: ring_wf_def slot_wf_def)
  show "i < rg_count r" "\<not> st_helper_owned (rg_slots r ! i)" using a by (simp_all add: slot_free_def)
  show "st_helper_owned (rg_slots r2 ! i)" "st_frame_id (rg_slots r2 ! i) = fid" "st_texture (rg_slots r2 ! i) = Some t"
    using r2(1) s1 len a(4) by (simp_all add: set_slot_def)
  show "\<exists>m. w3 = d_release env m 1 w2" using r2(2) by blast
qed

lemma ring_create_result:
  assumes "ring_wf r" and "ring_create env dev wd h f c (r, w) = (ok, r', w')"
  shows "ring_wf r'" "ok \<Longrightarrow> ring_matches wd h f r'" "\<not> ok \<Longrightarrow> r' = r \<or> \<not> usable r'"
proof -
  show "ring_wf r'" by (rule create_wf [OF ring_length [OF assms(1)] assms])
  obtain r1 w1 where d: "destroy_locked env (r, w) = (r1, w1)" by fastforce
  define n where "n = (if c = 0 then 1 else min (unat c) kMaxSlots)"
  have n: "n \<noteq> 0" by (auto simp: n_def kMaxSlots_def unat_gt_0)
  obtain ok1 ss w2 where cs: "create_slots env wd h f n (rg_slots r1) w1 = (ok1, ss, w2)"
    by (cases "create_slots env wd h f n (rg_slots r1) w1")
  obtain r3 w3 where d3: "destroy_locked env (r1\<lparr>rg_slots := ss\<rparr>, w2) = (r3, w3)" by fastforce
  then have "rg_count r3 = 0" by (auto simp: destroy_locked_def split: prod.splits)
  then have "(ok \<longrightarrow> ring_matches wd h f r') \<and> (\<not> ok \<longrightarrow> r' = r \<or> \<not> usable r')"
    using assms(2) d cs d3 n
    by (cases "\<not> dev \<or> wd = 0 \<or> h = 0"; cases ok1)
      (auto simp: ring_create_def Let_def n_def [symmetric] ring_matches_def usable_def)
  then show "ok \<Longrightarrow> ring_matches wd h f r'" "\<not> ok \<Longrightarrow> r' = r \<or> \<not> usable r'" by simp_all
qed

subsection \<open>Transport\<close>

lemma count_drop_simps [simp]:
  "dm_ring (count_drop d) = dm_ring d" "dm_told (count_drop d) = dm_told d" "dm_sets (count_drop d) = dm_sets d"
  "dm_sent (count_drop d) = dm_sent d" "dm_dropped (count_drop d) = dm_dropped d + 1"
  "dm_frame_id (count_drop d) = dm_frame_id d" "dm_outgoing (count_drop d) = dm_outgoing d"
  "dm_shared (count_drop d) = dm_shared d" "dm_ipc (count_drop d) = dm_ipc d"
  "told_inv (count_drop d) = told_inv d"
  by (simp_all add: count_drop_def told_inv_def)

text \<open>What preparing and filling the ring leaves as it was.\<close>

definition transport_frame_cond :: "direct_mode \<Rightarrow> direct_mode \<Rightarrow> bool" where
  "transport_frame_cond d d' \<longleftrightarrow> dm_sets d' = dm_sets d \<and> dm_shared d' = dm_shared d \<and> dm_ipc d' = dm_ipc d
     \<and> dm_outgoing d' = dm_outgoing d"

lemma ensure_ring_spec:
  assumes inv: "told_inv d" and conn: "dm_ipc d" "cl_connected c"
    and e: "ensure_ring env sw h f (d, c, w) = (ok, d', c', w')"
  shows "told_inv d'" "transport_frame_cond d d'" "dm_frame_id d' = dm_frame_id d" "dm_sent d' = dm_sent d"
    "dm_dropped d' = (if ok then dm_dropped d else dm_dropped d + 1)" "cl_connected c' = cl_connected c"
    "ok \<Longrightarrow> ring_matches sw h f (dm_ring d')"
proof -
  have wf: "ring_wf (dm_ring d)" using inv by (simp add: told_inv_def)
  have "told_inv d' \<and> transport_frame_cond d d' \<and> dm_frame_id d' = dm_frame_id d \<and> dm_sent d' = dm_sent d
    \<and> dm_dropped d' = (if ok then dm_dropped d else dm_dropped d + 1) \<and> cl_connected c' = cl_connected c
    \<and> (ok \<longrightarrow> ring_matches sw h f (dm_ring d'))"
  proof (cases "ring_matches sw h f (dm_ring d)")
    case True
    obtain d1 c1 where s: "send_staging_config (d\<lparr>dm_resend := False\<rparr>, c) = (d1, c1)" by fastforce
    from send_config_fields(1) [OF s] obtain g where d1: "d1 = d\<lparr>dm_resend := False, dm_told := g\<rparr>"
      "g = dm_told d \<or> g = Some (rg_generation (dm_ring d))" by auto
    show ?thesis
      using e True s d1 inv send_config_fields(2) [OF s]
      by (auto simp: ensure_ring_def told_inv_def transport_frame_cond_def split: if_splits)
  next
    case False
    define d0 where "d0 = d\<lparr>dm_ring_attempts := dm_ring_attempts d + 1\<rparr>"
    obtain ok1 r w1 where cr: "ring_create (g_ring env) (dm_device d0) sw h f kStagingSlots (dm_ring d, w) = (ok1, r, w1)"
      by (cases "ring_create (g_ring env) (dm_device d0) sw h f kStagingSlots (dm_ring d, w)")
    note res = ring_create_result [OF wf cr]
    obtain d1 c1 where s: "send_staging_config (d0\<lparr>dm_ring := r, dm_ring_attempts := 0, dm_resend := False\<rparr>, c) = (d1, c1)"
      by fastforce
    from send_config_fields(1) [OF s] obtain g where d1: "d1 = d0\<lparr>dm_ring := r, dm_ring_attempts := 0, dm_resend := False, dm_told := g\<rparr>" by auto
    have told: "ok1 \<Longrightarrow> dm_told d1 = Some (rg_generation r)"
      using send_config_fields(3) [OF s] conn res(2) by (simp add: d0_def ring_matches_def)
    consider "kMaxRingAttempts \<le> dm_ring_attempts d" | "\<not> kMaxRingAttempts \<le> dm_ring_attempts d" "ok1"
      | "\<not> kMaxRingAttempts \<le> dm_ring_attempts d" "\<not> ok1" by blast
    then show ?thesis
    proof cases
      case 1
      then show ?thesis using e False inv by (auto simp: ensure_ring_def transport_frame_cond_def)
    next
      case 2
      then have "d' = d1" "c' = c1" "ok" using e False cr s by (auto simp: ensure_ring_def d0_def)
      then show ?thesis
        using told [OF 2(2)] res(1) res(2) [OF 2(2)] send_config_fields(2) [OF s] d1
        by (simp add: told_inv_def transport_frame_cond_def d0_def)
    next
      case 3
      then have "d' = count_drop (d0\<lparr>dm_ring := r\<rparr>)" "c' = c" "\<not> ok" using e False cr by (auto simp: ensure_ring_def d0_def)
      then show ?thesis using res(1) res(3) [OF 3(2)] inv by (auto simp: told_inv_def transport_frame_cond_def d0_def)
    qed
  qed
  then show "told_inv d'" "transport_frame_cond d d'" "dm_frame_id d' = dm_frame_id d" "dm_sent d' = dm_sent d"
    "dm_dropped d' = (if ok then dm_dropped d else dm_dropped d + 1)" "cl_connected c' = cl_connected c"
    "ok \<Longrightarrow> ring_matches sw h f (dm_ring d')" by simp_all
qed


lemma frame_message_simps [simp]:
  "fr_frame_id (frame_message fr fid g i) = fid" "fr_generation (frame_message fr fid g i) = g"
  "fr_staging_index (frame_message fr fid g i) = of_nat i"
  by (simp_all add: frame_message_def split: prod.splits)

lemma fill_slot_cases:
  assumes inv: "told_inv d" and f: "fill_slot env fr ((t0, r0), (t1, r1)) (d, w) = (out, d', w')"
  obtains (full) "out = None" "d' = count_drop d"
      "snd (snd (acquire_slot (g_ring env) (dm_ring d, w))) = w'"
  | (sent) i t r w1 w2 w3 where
      "out = Some (frame_message fr (dm_frame_id d + 1) (rg_generation (dm_ring d)) i)"
      "d' = d\<lparr>dm_ring := r, dm_frame_id := dm_frame_id d + 1, dm_sent := dm_sent d + 1\<rparr>"
      "told_inv d'" "usable r" "same_ring (dm_ring d) r" "i < rg_count r"
      "\<not> st_helper_owned (rg_slots (dm_ring d) ! i)" "st_helper_owned (rg_slots r ! i)"
      "st_frame_id (rg_slots r ! i) = dm_frame_id d + 1" "st_texture (rg_slots r ! i) = Some t"
      "w1 = snd (snd (acquire_slot (g_ring env) (dm_ring d, w)))"
      "w2 = g_copy env (eye_copy t (sr_w r0) t1 r1) (g_copy env (eye_copy t 0 t0 r0) w1)"
      "\<exists>m. w3 = d_release (g_ring env) m 1 w2" "w' = g_flush env w3"
proof -
  have wf: "ring_wf (dm_ring d)" using inv by (simp add: told_inv_def)
  obtain l r1' w1 where a: "acquire_slot (g_ring env) (dm_ring d, w) = (l, r1', w1)"
    by (cases "acquire_slot (g_ring env) (dm_ring d, w)")
  show thesis
  proof (cases l)
    case None
    then show thesis using full f a acquire_slot_None [of "g_ring env" "dm_ring d" w r1' w1] by (simp add: fill_slot_def)
  next
    case (Some it)
    obtain i t where it: "it = (i, t)" by fastforce
    define w2 where "w2 = g_copy env (eye_copy t (sr_w r0) t1 r1) (g_copy env (eye_copy t 0 t0 r0) w1)"
    obtain r w3 where rel: "release_to_helper (g_ring env) (Some (i, t)) (dm_frame_id d + 1) (r1', w2) = (r, w3)"
      by fastforce
    note lr = lease_and_release [OF wf a [unfolded Some it] rel]
    have u: "usable r" using acquire_slot_Some(1) [OF a [unfolded Some it]] same_ring_usable [OF lr(1)] by simp
    have g: "rg_generation r = rg_generation (dm_ring d)" "rg_count r = rg_count (dm_ring d)"
      using lr(1) by (simp_all add: same_ring_def)
    have out: "out = Some (frame_message fr (dm_frame_id d + 1) (rg_generation (dm_ring d)) i)"
      and d': "d' = d\<lparr>dm_ring := r, dm_frame_id := dm_frame_id d + 1, dm_sent := dm_sent d + 1\<rparr>"
      and w': "w' = g_flush env w3"
      using f a Some it rel g(1) by (auto simp: fill_slot_def Let_def w2_def)
    have told: "told_inv d'" using same_ring_told [OF inv lr(1,2)] by (simp add: d' told_inv_def)
    show thesis
      by (rule sent [OF out d' told u lr(1) _ lr(4-7) _ w2_def lr(8) w']) (use lr(3) g a in simp_all)
  qed
qed

text \<open>A FrameReady names a slot of the current ring that the helper owns for that frame.\<close>

definition slot_announced :: "frame_ready \<Rightarrow> ring \<Rightarrow> bool" where
  "slot_announced f r \<longleftrightarrow> usable r \<and> fr_generation f = rg_generation r \<and> unat (fr_staging_index f) < rg_count r
     \<and> st_helper_owned (rg_slots r ! unat (fr_staging_index f))
     \<and> st_frame_id (rg_slots r ! unat (fr_staging_index f)) = fr_frame_id f"

definition frame_outcome :: "direct_mode \<Rightarrow> frame_ready option \<Rightarrow> direct_mode \<Rightarrow> bool" where
  "frame_outcome d out d' =
     (case out of
        None \<Rightarrow> dm_frame_id d' = dm_frame_id d \<and> dm_sent d' = dm_sent d \<and> dm_dropped d' = dm_dropped d + 1
      | Some f \<Rightarrow> dm_frame_id d' = dm_frame_id d + 1 \<and> dm_sent d' = dm_sent d + 1 \<and> dm_dropped d' = dm_dropped d
          \<and> fr_frame_id f = dm_frame_id d' \<and> slot_announced f (dm_ring d'))"

lemma frame_outcome_None [simp]:
  "frame_outcome d None d' \<longleftrightarrow>
     dm_frame_id d' = dm_frame_id d \<and> dm_sent d' = dm_sent d \<and> dm_dropped d' = dm_dropped d + 1"
  by (simp add: frame_outcome_def)

lemma frame_outcome_cong:
  assumes "frame_outcome d1 out d1'"
    and "dm_frame_id d = dm_frame_id d1" "dm_sent d = dm_sent d1" "dm_dropped d = dm_dropped d1"
    and "dm_frame_id d' = dm_frame_id d1'" "dm_sent d' = dm_sent d1'" "dm_dropped d' = dm_dropped d1'"
    "dm_ring d' = dm_ring d1'"
  shows "frame_outcome d out d'"
  using assms by (cases out) (simp_all add: frame_outcome_def)

lemma transport_eyes_spec:
  assumes inv: "told_inv d" and conn: "dm_ipc d" "cl_connected c"
    and e: "transport_eyes env fr eyes (d, c, w) = (out, d', c', w')"
  shows "told_inv d' \<and> transport_frame_cond d d' \<and> cl_connected c' = cl_connected c
    \<and> frame_outcome d out d'"
    (is "?P out d' c'")
proof (cases "\<exists>t0 t1. eyes = (Some t0, Some t1)")
  case False
  then have "out = None \<and> d' = count_drop d \<and> c' = c"
    using e by (auto simp: transport_eyes_def split: prod.splits option.splits)
  then show ?thesis using inv by (simp add: transport_frame_cond_def)
next
  case True
  then obtain t0 t1 where eyes: "eyes = (Some t0, Some t1)" by blast
  define d0 where "d0 = g_get_desc env t0 w"
  define d1 where "d1 = g_get_desc env t1 w"
  define r0 where "r0 = fst (rect_from_bounds (fst (fs_bounds fr)) (td_width d0) (td_height d0))"
  define r1 where "r1 = fst (rect_from_bounds (snd (fs_bounds fr)) (td_width d1) (td_height d1))"
  define r1' where "r1' = r1\<lparr>sr_w := min (sr_w r1) (sr_w r0), sr_h := min (sr_h r1) (sr_h r0)\<rparr>"
  note defs = transport_eyes_def eyes d0_def [symmetric] d1_def [symmetric] r0_def [symmetric] r1_def [symmetric]
    r1'_def [symmetric] Let_def
  show ?thesis
  proof (cases "1 < td_samples d0 \<or> 1 < td_samples d1 \<or> td_format d0 \<noteq> td_format d1
      \<or> sr_w r0 = 0 \<or> sr_h r0 = 0 \<or> sr_w r1 = 0 \<or> sr_h r1 = 0")
    case True
    then have "out = None \<and> d' = count_drop d \<and> c' = c" using e by (auto simp: defs split: if_splits)
    then show ?thesis using inv by (simp add: transport_frame_cond_def)
  next
    case False
    obtain ok d2 c2 w2 where er: "ensure_ring env (sr_w r0 * 2) (sr_h r0) (fst (staging_format_for (td_format d0))) (d, c, w)
        = (ok, d2, c2, w2)" by (cases "ensure_ring env (sr_w r0 * 2) (sr_h r0) (fst (staging_format_for (td_format d0))) (d, c, w)")
    note er' = ensure_ring_spec [OF inv conn er]
    show ?thesis
    proof (cases ok)
      case True
      obtain out3 d3 w3 where fs: "fill_slot env fr ((t0, r0), (t1, r1')) (d2, w2) = (out3, d3, w3)"
        by (cases "fill_slot env fr ((t0, r0), (t1, r1')) (d2, w2)")
      have eq: "out = out3" "d' = d3" "c' = c2" using e False er True fs by (auto simp: defs)
      show ?thesis
      proof (rule fill_slot_cases [OF er'(1) fs], goal_cases)
        case 1
        then show ?thesis using er' True eq by (simp add: transport_frame_cond_def)
      next
        case (2 i t r w1' w2' w3')
        have "rg_count r \<le> 3" using 2(3) by (simp add: 2(2) told_inv_def ring_wf_def kMaxSlots_def)
        then have "unat (of_nat i :: u32) = i" using 2(6) by (simp add: unat_of_nat)
        then show ?thesis
          using er' True eq 2 by (simp add: transport_frame_cond_def same_ring_def frame_outcome_def slot_announced_def)
      qed
    next
      case nok: False
      then have "out = None" "d' = d2" "c' = c2" using e False er by (auto simp: defs)
      then show ?thesis using er' nok by simp
    qed
  qed
qed


lemma transport_frame_spec:
  assumes inv: "told_inv d"
    and e: "transport_frame_locked env fr (d, c, w) = (out, d', c', w')"
  shows "told_inv d' \<and> transport_frame_cond d d' \<and> cl_connected c' = cl_connected c
    \<and> frame_outcome d out d'"
proof (cases "dm_ipc d \<and> cl_connected c")
  case False
  then have "out = None \<and> d' = count_drop d \<and> c' = c" using e by (auto simp: transport_frame_locked_def split: if_splits)
  then show ?thesis using inv by (simp add: transport_frame_cond_def)
next
  case True
  obtain ok d1 w1 where dev: "ensure_device_locked env (d, w) = (ok, d1, w1)" by (cases "ensure_device_locked env (d, w)")
  from ensure_device_fields [OF dev] obtain n v where d1: "d1 = d\<lparr>dm_device_attempts := n, dm_device := v\<rparr>" by blast
  have inv1: "told_inv d1" "dm_ipc d1" "dm_sets d1 = dm_sets d" using inv True by (simp_all add: d1 told_inv_def)
  show ?thesis
  proof (cases ok)
    case False
    then have "out = None \<and> d' = count_drop d1 \<and> c' = c" using e True dev by (auto simp: transport_frame_locked_def)
    then show ?thesis using inv1 by (simp add: transport_frame_cond_def d1)
  next
    case ok: True
    define e0 where "e0 = find_texture_locked (fst (fs_texture fr)) (dm_sets d1)"
    define e1 where "e1 = find_texture_locked (snd (fs_texture fr)) (dm_sets d1)"
    obtain out2 d2 c2 w2 where te:
      "transport_eyes env fr (e0, e1) (d1, c, add_ref env e1 (add_ref env e0 w1)) = (out2, d2, c2, w2)"
      by (cases "transport_eyes env fr (e0, e1) (d1, c, add_ref env e1 (add_ref env e0 w1))")
    have "out = out2" "d' = d2" "c' = c2"
      using e True dev ok te by (auto simp: transport_frame_locked_def Let_def e0_def e1_def)
    moreover note t = transport_eyes_spec [OF inv1(1,2) conjunct2 [OF True] te]
    moreover have "frame_outcome d out2 d2" by (rule frame_outcome_cong [of d1 _ d2]) (use t in \<open>simp_all add: d1\<close>)
    ultimately show ?thesis by (simp add: d1 transport_frame_cond_def)
  qed
qed

text \<open>The ways through \<^verbatim>\<open>Present\<close> up to the end of the device lock.\<close>

lemma present_frame_cases:
  assumes p: "present_frame env sync (d, c, w) = (d', c', w')"
    and q: "g_query_qpc env w = (qpc, w1)"
    and s: "shared_texture_locked env sync (d\<lparr>dm_layer := (dm_layer d)\<lparr>fs_layers := 0\<rparr>\<rparr>, w1) = (p2, d2, w2)"
  obtains (no_layer) "fs_layers (dm_layer d) = 0" "d' = d\<lparr>dm_layer := (dm_layer d)\<lparr>fs_layers := 0\<rparr>\<rparr>" "c' = c" "w' = w1"
  | (no_sync) "fs_layers (dm_layer d) \<noteq> 0" "sync = 0"
      "d' = count_drop (d\<lparr>dm_layer := (dm_layer d)\<lparr>fs_layers := 0\<rparr>\<rparr>)" "c' = c" "w' = w1"
  | (unopened) "fs_layers (dm_layer d) \<noteq> 0" "sync \<noteq> 0" "p2 = None" "d' = d2" "c' = c" "w' = w2"
  | (busy) u k z z2 where "fs_layers (dm_layer d) \<noteq> 0" "sync \<noteq> 0" "p2 = Some u"
      "g_query_mutex env u w2 = (Some k, z)" "g_acquire_sync env k z = (False, z2)"
      "d' = count_drop (d2\<lparr>dm_acquire_failures := dm_acquire_failures d2 + 1\<rparr>)" "c' = c" "w' = g_release_mutex env k z2"
  | (plain) u z out d3 where "fs_layers (dm_layer d) \<noteq> 0" "sync \<noteq> 0" "p2 = Some u"
      "g_query_mutex env u w2 = (None, z)"
      "transport_frame_locked env ((dm_layer d)\<lparr>fs_qpc := qpc\<rparr>) (d2, c, z) = (out, d3, c', w')"
      "d' = d3\<lparr>dm_outgoing := out\<rparr>"
  | (locked) u k z z2 out d3 w3 where "fs_layers (dm_layer d) \<noteq> 0" "sync \<noteq> 0" "p2 = Some u"
      "g_query_mutex env u w2 = (Some k, z)" "g_acquire_sync env k z = (True, z2)"
      "transport_frame_locked env ((dm_layer d)\<lparr>fs_qpc := qpc\<rparr>) (d2, c, z2) = (out, d3, c', w3)"
      "d' = d3\<lparr>dm_outgoing := out\<rparr>" "w' = g_release_mutex env k (g_release_sync env k w3)"
proof -
  consider "fs_layers (dm_layer d) = 0" | "fs_layers (dm_layer d) \<noteq> 0" "sync = 0"
    | "fs_layers (dm_layer d) \<noteq> 0" "sync \<noteq> 0" "p2 = None" | u where "fs_layers (dm_layer d) \<noteq> 0" "sync \<noteq> 0" "p2 = Some u"
    by (cases p2) blast+
  then show thesis
  proof cases
    case (4 u)
    obtain m z where m: "g_query_mutex env u w2 = (m, z)" by fastforce
    show thesis
    proof (cases m)
      case None
      obtain out d3 c3 x3 where t: "transport_frame_locked env ((dm_layer d)\<lparr>fs_qpc := qpc\<rparr>) (d2, c, z) = (out, d3, c3, x3)"
        by (metis surj_pair)
      then show thesis using plain [OF 4 _ _] p q s 4 m None by (simp add: present_frame_def)
    next
      case (Some k)
      obtain ok z2 where a: "g_acquire_sync env k z = (ok, z2)" by fastforce
      obtain out d3 c3 x3 where t: "transport_frame_locked env ((dm_layer d)\<lparr>fs_qpc := qpc\<rparr>) (d2, c, z2) = (out, d3, c3, x3)"
        by (metis surj_pair)
      show thesis
        using locked [OF 4] busy [OF 4] p q s 4 m Some a t by (cases ok) (simp_all add: present_frame_def)
    qed
  qed (use no_layer no_sync unopened p q s in \<open>simp_all add: present_frame_def\<close>)
qed

text \<open>One frame: whether the sync texture could be opened, and what became of the layer.\<close>

lemma present_frame_spec:
  assumes inv: "told_inv d" and idle: "dm_outgoing d = None" and p: "present_frame env sync (d, c, w) = (d', c', w')"
  shows "told_inv d'" "dm_sets d' = dm_sets d" "cl_connected c' = cl_connected c" "dm_ipc d' = dm_ipc d"
    and "if fs_layers (dm_layer d) = 0
                \<or> sync \<noteq> 0 \<and> fst (shared_texture_locked env sync
                     (d\<lparr>dm_layer := (dm_layer d)\<lparr>fs_layers := 0\<rparr>\<rparr>, snd (g_query_qpc env w))) = None
      then dm_outgoing d' = None \<and> dm_frame_id d' = dm_frame_id d \<and> dm_sent d' = dm_sent d \<and> dm_dropped d' = dm_dropped d
      else frame_outcome d (dm_outgoing d') d' \<and> (dm_outgoing d' \<noteq> None \<longrightarrow> sync \<noteq> 0)"
proof -
  obtain qpc w1 where q: "g_query_qpc env w = (qpc, w1)" by fastforce
  define fr where "fr = (dm_layer d)\<lparr>fs_qpc := qpc\<rparr>"
  define d1 where "d1 = d\<lparr>dm_layer := (dm_layer d)\<lparr>fs_layers := 0\<rparr>\<rparr>"
  have d1: "told_inv d1" "dm_outgoing d1 = None" "dm_sets d1 = dm_sets d" "dm_ipc d1 = dm_ipc d"
    "dm_frame_id d1 = dm_frame_id d" "dm_sent d1 = dm_sent d" "dm_dropped d1 = dm_dropped d"
    using inv idle by (simp_all add: d1_def told_inv_def)
  obtain p d2 w2 where s: "shared_texture_locked env sync (d1, w1) = (p, d2, w2)" by (cases "shared_texture_locked env sync (d1, w1)")
  from shared_texture_fields [OF s] obtain n v sh where "d2 = d1\<lparr>dm_device_attempts := n, dm_device := v, dm_shared := sh\<rparr>"
    by blast
  then have d2: "told_inv d2" "dm_outgoing d2 = None" "dm_sets d2 = dm_sets d" "dm_ipc d2 = dm_ipc d"
    "dm_frame_id d2 = dm_frame_id d" "dm_sent d2 = dm_sent d" "dm_dropped d2 = dm_dropped d"
    using d1 by (simp_all add: told_inv_def)
  let ?d0 = "d\<lparr>dm_layer := (dm_layer d)\<lparr>fs_layers := 0\<rparr>\<rparr>"
  let ?P = "told_inv d' \<and> dm_sets d' = dm_sets d \<and> cl_connected c' = cl_connected c \<and> dm_ipc d' = dm_ipc d
    \<and> (if fs_layers (dm_layer d) = 0
                \<or> sync \<noteq> 0 \<and> fst (shared_texture_locked env sync (?d0, snd (g_query_qpc env w))) = None
      then dm_outgoing d' = None \<and> dm_frame_id d' = dm_frame_id d \<and> dm_sent d' = dm_sent d \<and> dm_dropped d' = dm_dropped d
      else frame_outcome d (dm_outgoing d') d' \<and> (dm_outgoing d' \<noteq> None \<longrightarrow> sync \<noteq> 0))"
  have via: ?P
    if "transport_frame_locked env fr (d2, c, x) = (out, d3, c3, x3)" "d' = d3\<lparr>dm_outgoing := out\<rparr>" "c' = c3"
      "fs_layers (dm_layer d) \<noteq> 0" "sync \<noteq> 0" "p \<noteq> None" for x out d3 c3 x3
  proof -
    note t = transport_frame_spec [OF d2(1) that(1)]
    have "frame_outcome d out d'" by (rule frame_outcome_cong [of d2 _ d3]) (use t d2 in \<open>simp_all add: that(2)\<close>)
    then show ?thesis using t that(2-) d2 s q by (auto simp: transport_frame_cond_def told_inv_def d1_def)
  qed
  from p q s [unfolded d1_def] have ?P
  proof (cases rule: present_frame_cases)
    case (plain u z out d3)
    show ?thesis by (rule via) (use plain in \<open>simp_all add: fr_def\<close>)
  next
    case (locked u k z z2 out d3 w3)
    show ?thesis by (rule via) (use locked in \<open>simp_all add: fr_def\<close>)
  qed (use d1 d2 q s in \<open>simp_all add: d1_def told_inv_def\<close>)
  then show "told_inv d'" "dm_sets d' = dm_sets d" "cl_connected c' = cl_connected c" "dm_ipc d' = dm_ipc d"
    "if fs_layers (dm_layer d) = 0
                \<or> sync \<noteq> 0 \<and> fst (shared_texture_locked env sync (?d0, snd (g_query_qpc env w))) = None
      then dm_outgoing d' = None \<and> dm_frame_id d' = dm_frame_id d \<and> dm_sent d' = dm_sent d \<and> dm_dropped d' = dm_dropped d
      else frame_outcome d (dm_outgoing d') d' \<and> (dm_outgoing d' \<noteq> None \<longrightarrow> sync \<noteq> 0)" by blast+
qed


subsection \<open>Every step keeps it\<close>

lemma mark_stale_ring: "ring_wf r \<Longrightarrow> ring_wf (mark_stale r) \<and> \<not> usable (mark_stale r)"
  by (simp add: mark_stale_def ring_wf_def usable_def)

lemma on_frame_done_same:
  assumes "ring_wf r" and "on_frame_done fd r = (ok, r')"
  shows "same_ring r r'" "ring_wf r'"
proof -
  show "same_ring r r'" using assms(2) by (cases rule: on_frame_done_cases) (simp_all add: same_ring_set_slot)
  show "ring_wf r'"
    using ring_step_wf [where env = simple_d3d and rw = "(r, undefined)" and e = "FrameDoneArrived fd"] assms by simp
qed

lemma direct_callback_inv:
  assumes "direct_inv d"
  shows "direct_inv (direct_callback d cb)"
proof (cases cb)
  case (CbFrameDone fd)
  obtain ok r where f: "on_frame_done fd (dm_ring d) = (ok, r)" by fastforce
  have wf: "ring_wf (dm_ring d)" using assms by (simp add: direct_inv_def told_inv_def)
  show ?thesis
    using assms CbFrameDone f on_frame_done_same [OF wf f]
    by (cases ok) (simp_all add: direct_frame_done_def direct_inv_def told_inv_def same_ring_def usable_def)
next
  case CbDisconnect
  then show ?thesis
    using assms mark_stale_ring [of "dm_ring d"] by (simp add: on_ipc_disconnected_def direct_inv_def told_inv_def)
qed (use assms in \<open>simp_all add: on_ipc_connected_def direct_inv_def told_inv_def\<close>)

lemma direct_callbacks_inv: "direct_inv d \<Longrightarrow> direct_inv (foldl direct_callback d cbs)"
  by (induction cbs arbitrary: d) (simp_all add: direct_callback_inv)

lemma CreateSwapTextureSet_inv:
  assumes "direct_inv d" and "CreateSwapTextureSet env pid sd out (d, w) = (out', d', w')"
  shows "direct_inv d'"
proof (cases "\<exists>x y. sd = Some x \<and> out = Some y")
  case True
  then obtain x y where xy: "sd = Some x" "out = Some y" by blast
  obtain d1 w1 where v: "start_vsync_thread env (d, w) = (d1, w1)" by fastforce
  obtain ok d2 w2 where e: "ensure_device_locked env (d1, w1) = (ok, d2, w2)" by (cases "ensure_device_locked env (d1, w1)")
  have i2: "direct_inv d2"
    using assms(1) start_vsync_fields [OF v] ensure_device_fields [OF e] by (auto simp: direct_inv_def told_inv_def)
  let ?out = "y\<lparr>so_handles := [0, 0, 0], so_flags := 0\<rparr>"
  obtain ok3 s out3 w3 where c: "create_textures env (texture_desc x) [0, 1, 2] (empty_set pid (texture_desc x), ?out, w2)
      = (ok3, s, out3, w3)"
    by (cases "create_textures env (texture_desc x) [0, 1, 2] (empty_set pid (texture_desc x), ?out, w2)")
  have "d' = d2 \<or> ok3 \<and> \<not> kMaxTextureSets \<le> length (dm_sets d2) \<and> d' = d2\<lparr>dm_sets := dm_sets d2 @ [s]\<rparr>"
    using assms(2) xy v e c
    by (cases ok; cases "kMaxTextureSets \<le> length (dm_sets d2)"; cases ok3) (auto simp: CreateSwapTextureSet_def Let_def)
  then show ?thesis
    using i2 created_set_ok [of env "texture_desc x" pid ?out w2 s out3 w3] c
    by (auto simp: direct_inv_def told_inv_def sets_inv_def)
qed (use assms in \<open>auto simp: CreateSwapTextureSet_def split: option.splits\<close>)

lemma direct_shutdown_inv:
  assumes "direct_inv d" and "direct_shutdown env (d, w) = (d', w')"
  shows "direct_inv d'"
proof (cases "dm_shut_down d")
  case False
  obtain sets w1 where s: "destroy_every env (length (dm_sets d)) (dm_sets d, w) = (sets, w1)" by fastforce
  obtain r w2 where r: "destroy_locked (g_ring env) (dm_ring d, w1) = (r, w2)" by fastforce
  have "length (rg_slots (dm_ring d)) = kMaxSlots" using assms(1) by (simp add: direct_inv_def told_inv_def ring_wf_def)
  from destroy_locked_wf [OF this, of "g_ring env" w1] have r': "r = ring_new\<lparr>rg_generation := rg_generation (dm_ring d)\<rparr>"
    by (simp add: r)
  have "ring_wf r" "\<not> usable r" using ring_wf_new by (simp_all add: r' ring_wf_def usable_def ring_new_def)
  moreover have "dm_ring d' = r" "dm_sets d' = []"
    using assms(2) False s r destroy_every_nil [OF s] by (auto simp: direct_shutdown_def release_device_locked_def Let_def)
  ultimately show ?thesis by (simp add: direct_inv_def told_inv_def sets_inv_def)
qed (use assms in \<open>simp add: direct_shutdown_def\<close>)

lemma present_queue_inv:
  assumes "direct_inv d" and "present_queue (d, c) = (d', c')"
  shows "direct_inv d'"
proof (cases "dm_outgoing d")
  case (Some f)
  obtain ok c1 where q: "(if dm_ipc d then queue_frame_ready f c else (False, c)) = (ok, c1)" by fastforce
  have "d' = d\<lparr>dm_outgoing := None\<rparr> \<or> d' = (count_drop (d\<lparr>dm_outgoing := None\<rparr>))\<lparr>dm_ring := mark_stale (dm_ring d)\<rparr>"
    using assms(2) Some q by (cases ok) (auto simp: present_queue_def Let_def)
  then show ?thesis
    using assms(1) mark_stale_ring [of "dm_ring d"] by (auto simp: direct_inv_def told_inv_def)
qed (use assms in \<open>simp add: present_queue_def\<close>)

lemma direct_step_inv:
  assumes "direct_inv (fst dcw)"
  shows "direct_inv (fst (direct_step env dcw e))"
proof -
  obtain d c w where dcw: "dcw = (d, c, w)" by (cases dcw)
  with assms have inv: "direct_inv d" by simp
  note I = direct_inv_def told_inv_def
  have "direct_inv d'" if "direct_step env (d, c, w) e = (d', c', w')" for d' c' w'
  proof (cases e)
    case (CreateSet pid sd)
    then show ?thesis using that CreateSwapTextureSet_inv [OF inv] by (auto split: prod.splits)
  next
    case (DestroySet h)
    have "dm_sets d' = dm_sets d \<or> (\<exists>i. dm_sets d' = take i (dm_sets d) @ drop (i + 1) (dm_sets d))" "told_inv d'"
      using that DestroySet inv
      by (auto simp: DestroySwapTextureSet_def destroy_set_locked_def I split: option.splits if_splits prod.splits)
    then show ?thesis using inv sets_inv_take_drop by (auto simp: direct_inv_def)
  next
    case (DestroyAll pid)
    have "dm_sets d' = fst (destroy_down env pid (length (dm_sets d)) (dm_sets d, w))" "told_inv d'"
      using that DestroyAll inv by (auto simp: DestroyAllSwapTextureSets_def I split: prod.splits)
    then show ?thesis using inv destroy_down_inv [of "(dm_sets d, w)" env pid] by (simp add: direct_inv_def)
  next
    case (NextIndex h0 h1)
    obtain n0 s0 where n0: "next_index h0 (dm_sets d) = (n0, s0)" by fastforce
    obtain n1 s1 where n1: "next_index h1 s0 = (n1, s1)" by fastforce
    have "d' = d\<lparr>dm_sets := s1\<rparr>" using that NextIndex n0 n1 by (auto simp: GetNextSwapTextureSetIndex_def)
    then show ?thesis using inv next_index_inv [OF next_index_inv [OF _ n0] n1] by (simp add: I)
  next
    case (PresentFrame sync)
    then show ?thesis using that present_frame_spec [of d env sync c w d' c' w'] inv
      by (auto simp: direct_inv_def split: if_splits)
  next
    case PresentQueue
    then show ?thesis using that present_queue_inv [OF inv] by (auto split: prod.splits)
  next
    case Posted
    then show ?thesis
      using that inv start_vsync_fields [of env d w] by (auto simp: PostPresent_def I split: prod.splits)
  next
    case (ClientEvent ev)
    then show ?thesis using that direct_callbacks_inv [OF inv] by (auto simp: Let_def)
  next
    case Shutdown
    then show ?thesis using that direct_shutdown_inv [OF inv] by (auto split: prod.splits)
  qed (use that inv in \<open>auto simp: I SubmitLayer_def vsync_tick_def attach_ipc_def split: if_splits\<close>)
  then show ?thesis unfolding dcw by (metis prod.exhaust_sel fst_conv)
qed

interpretation direct: machine_invariant "direct_step env" "\<lambda>dcw. direct_inv (fst dcw)" for env :: "'w gpu"
  by unfold_locales (rule direct_step_inv)

section \<open>Announced frames\<close>

lemma direct_reach:
  assumes "(d, c, w) = foldl (direct_step env) (direct_new, c0, w0) es"
  shows "direct_inv d"
  using direct.inv_run [of "(direct_new, c0, w0)" env es] direct_inv_new by (simp flip: assms)


text \<open>
  C26. Every frame is accounted for. A Present with no layer changes no
  counter. With a layer, either a frame is sent or exactly one drop is counted,
  with two exceptions: a sync texture that cannot be opened loses the frame
  without counting it, and a frame whose FrameReady the pipe client refuses is
  counted both as sent and as dropped, and makes the ring stale.
\<close>

theorem frames_accounted:
  assumes "(d, c, w) = foldl (direct_step env) (direct_new, c0, w0) es" and "dm_outgoing d = None"
    and "present_frame env sync (d, c, w) = (d', c', w')" and "present_queue (d', c') = (d'', c'')"
  shows "if fs_layers (dm_layer d) = 0
      \<or> sync \<noteq> 0 \<and> fst (shared_texture_locked env sync
           (d\<lparr>dm_layer := (dm_layer d)\<lparr>fs_layers := 0\<rparr>\<rparr>, snd (g_query_qpc env w))) = None
    then dm_sent d'' = dm_sent d \<and> dm_dropped d'' = dm_dropped d
    else case dm_outgoing d' of
      None \<Rightarrow> dm_sent d'' = dm_sent d \<and> dm_dropped d'' = dm_dropped d + 1
    | Some f \<Rightarrow> dm_sent d'' = dm_sent d + 1
        \<and> (if dm_ipc d \<and> fst (queue_frame_ready f c') then dm_dropped d'' = dm_dropped d
           else dm_dropped d'' = dm_dropped d + 1 \<and> \<not> usable (dm_ring d''))"
proof -
  have told: "told_inv d" using direct_reach [OF assms(1)] by (simp add: direct_inv_def)
  note p = present_frame_spec [OF told assms(2,3)]
  show ?thesis
  proof (cases "dm_outgoing d'")
    case None
    then have "d'' = d'" using assms(4) by (simp add: present_queue_def)
    then show ?thesis using p(5) None by (simp split: if_splits)
  next
    case (Some f)
    have "ring_wf (dm_ring d')" using p(1) by (simp add: told_inv_def)
    obtain ok c1 where q: "(if dm_ipc d then queue_frame_ready f c' else (False, c')) = (ok, c1)" by fastforce
    have ok: "ok \<longleftrightarrow> dm_ipc d \<and> fst (queue_frame_ready f c')" using q by (auto split: if_splits)
    have "d'' = (if ok then d'\<lparr>dm_outgoing := None\<rparr>
        else (count_drop (d'\<lparr>dm_outgoing := None\<rparr>))\<lparr>dm_ring := mark_stale (dm_ring d')\<rparr>)"
      using assms(4) Some q p(4) by (cases ok) (auto simp: present_queue_def Let_def)
    then show ?thesis
      using p(5) Some ok mark_stale_ring [OF \<open>ring_wf (dm_ring d')\<close>] by (auto simp: frame_outcome_def split: if_splits)
  qed
qed


section \<open>Poses and pace\<close>


lemma interval_ns_bounds: "4149377 \<le> interval_ns refresh \<and> interval_ns refresh \<le> 34482759"
proof -
  obtain y where y: "frame_interval_seconds refresh = Num y" "1 / 241 < y" "y < 1 / 29" by (rule interval_bounds)
  have "of_int 4149377 \<le> y * 1000000000" "y * 1000000000 \<le> of_int 34482759" using y(2,3) by simp_all
  moreover have "\<bar>4149377 :: int\<bar> < 2 ^ prec F64" "\<bar>34482759 :: int\<bar> < 2 ^ prec F64" by simp_all
  ultimately obtain z where z: "round_fp F64 (y * 1000000000) = Num z" "of_int 4149377 \<le> z" "z \<le> of_int 34482759"
    by (rule round_fp_bounded)
  then have "4149377 \<le> trunc z \<and> trunc z \<le> 34482759" by (intro trunc_bounds)
  then show ?thesis by (simp add: interval_ns_def y(1) z(1))
qed

text \<open>
  C36. The vsync thread neither spins nor stalls. For any configured refresh
  rate, 0, NaN and infinity included, the interval is between 4.1 and 34.5
  milliseconds; after a tick whose time has come the next one is never in the
  past, at most one interval away, and at least one interval after the last.
\<close>

theorem vsync_pace:
  assumes "nxt \<le> now"
  shows "4149377 \<le> interval_ns refresh \<and> interval_ns refresh \<le> 34482759
    \<and> now \<le> vsync_next refresh now nxt \<and> vsync_next refresh now nxt \<le> now + interval_ns refresh
    \<and> nxt + interval_ns refresh \<le> vsync_next refresh now nxt"
  using assms interval_ns_bounds [of refresh] by (simp add: vsync_next_def Let_def)

section \<open>A concrete run\<close>

text \<open>A Direct3D that numbers its textures and never fails; every texture is 2000 by 2000.\<close>

definition simple_gpu :: "(nat \<times> (nat \<Rightarrow> u64 option)) gpu" where
  "simple_gpu = \<lparr>g_ring = simple_d3d, g_create_device = (\<lambda>_ w. (DeviceOk, w)), g_release_device = (\<lambda>w. w),
     g_open_shared = (\<lambda>_ (n, f). (Some n, (n + 1, f))), g_create_texture = (\<lambda>_ (n, f). (Some n, (n + 1, f))),
     g_query_resource = (\<lambda>_ w. (True, w)), g_shared_handle = (\<lambda>t w. (Some (of_nat (100 + t)), w)),
     g_get_desc = (\<lambda>_ _. \<lparr>td_width = 2000, td_height = 2000, td_format = 28, td_samples = 1, td_bind = 40\<rparr>),
     g_add_ref = (\<lambda>_ w. w), g_release = (\<lambda>_ w. w), g_query_mutex = (\<lambda>t w. (Some t, w)),
     g_acquire_sync = (\<lambda>_ w. (True, w)), g_release_sync = (\<lambda>_ w. w), g_release_mutex = (\<lambda>_ w. w),
     g_copy = (\<lambda>_ w. w), g_flush = (\<lambda>w. w), g_query_qpc = (\<lambda>w. (5, w)), g_start_thread = (\<lambda>w. (True, w))\<rparr>"

definition eye_layer :: "u64 \<Rightarrow> layer_eye" where
  "eye_layer h = \<lparr>le_texture = h, le_bounds = full_bounds, le_pose = zero_matrix, le_predict = NaN\<rparr>"

text \<open>With a connected client, the compositor creates a chain and submits a layer of two of its textures.\<close>

definition connected_client :: client where
  "connected_client = client_new\<lparr>cl_connected := True\<rparr>"

definition layer_submitted :: "direct_event list" where
  "layer_submitted = [AttachIpc, ClientEvent QueuePush, CreateSet 7 \<lparr>sd_width = 2000, sd_height = 2000, sd_format = 28, sd_sample_count = 1\<rparr>,
        Submit (eye_layer 100) (eye_layer 101)]"

definition streamed :: "direct_mode \<times> client \<times> nat \<times> (nat \<Rightarrow> u64 option)" where
  "streamed = foldl (direct_step simple_gpu) (direct_new, connected_client, 0, \<lambda>_. None) layer_submitted"

lemma streamed_summary:
  "(case streamed of (d, c, w) \<Rightarrow>
     (dm_outgoing d, dm_frame_id d, fs_layers (dm_layer d), dm_sent d, dm_dropped d, dm_ipc d,
      fst (shared_texture_locked simple_gpu 77 (d\<lparr>dm_layer := (dm_layer d)\<lparr>fs_layers := 0\<rparr>\<rparr>, snd (g_query_qpc simple_gpu w)))))
   = (None, 0, 1, 0, 0, True, Some 3)"
  by code_simp

lemma presented_summary:
  "(case present_frame simple_gpu 77 streamed of (d, c, w) \<Rightarrow>
     (map_option fr_frame_id (dm_outgoing d), map_option fr_generation (dm_outgoing d),
      map_option (\<lambda>f. fst (queue_frame_ready f c)) (dm_outgoing d))) = (Some 1, Some 1, Some True)"
  by code_simp


theorem frames_accounted_witness:
  "dm_sent (fst (Present simple_gpu 77 streamed)) = 1 \<and> dm_dropped (fst (Present simple_gpu 77 streamed)) = 0"
proof -
  obtain d c w where s: "streamed = (d, c, w)" by (metis surj_pair)
  obtain d' c' w' where p: "present_frame simple_gpu 77 (d, c, w) = (d', c', w')" by (metis surj_pair)
  obtain d2 c2 where q: "present_queue (d', c') = (d2, c2)" by (metis surj_pair)
  have r: "(d, c, w) = foldl (direct_step simple_gpu) (direct_new, connected_client, 0, \<lambda>_. None) layer_submitted"
    by (simp flip: s add: streamed_def)
  have st: "dm_outgoing d = None" "fs_layers (dm_layer d) = 1" "dm_sent d = 0" "dm_dropped d = 0" "dm_ipc d"
    "fst (shared_texture_locked simple_gpu 77 (d\<lparr>dm_layer := (dm_layer d)\<lparr>fs_layers := 0\<rparr>\<rparr>, snd (g_query_qpc simple_gpu w))) = Some 3"
    using streamed_summary by (simp_all add: s)
  obtain f where "dm_outgoing d' = Some f" "fst (queue_frame_ready f c')" using presented_summary by (auto simp: s p)
  then show ?thesis using frames_accounted [OF r st(1) p q] st by (simp add: s p q Present_def)
qed

theorem vsync_pace_witness:
  "(100 :: time_ns) \<le> vsync_next (Some NaN) 100 40 \<and> vsync_next (Some NaN) 100 40 \<le> 100 + 34482759"
  using vsync_pace [of 40 100 "Some NaN"] by simp

end
