(* ===== verification/Direct_Textures.thy ===== *)
theory Direct_Textures
  imports Direct_Mode
begin

text \<open>
  What the direct-mode component does with textures, for every Direct3D: the
  calls that take, drop and copy textures are recorded beside the state of an
  arbitrary Direct3D, and the record shows that no reference is lost or dropped
  twice and that every copy stays inside its source and its half of the staging
  texture. The last part gives the swap chains' contract with the compositor.
\<close>

section \<open>Recording\<close>

datatype gpu_call = Took nat | Gave nat | Copied region_copy

definition lift_fun :: "('w \<Rightarrow> 'a \<times> 'w) \<Rightarrow> 'w \<times> 'l \<Rightarrow> 'a \<times> 'w \<times> 'l" where
  "lift_fun f = (\<lambda>(w, l). case f w of (a, w') \<Rightarrow> (a, w', l))"

definition lift_act :: "('w \<Rightarrow> 'w) \<Rightarrow> 'w \<times> 'l \<Rightarrow> 'w \<times> 'l" where
  "lift_act f = (\<lambda>(w, l). (f w, l))"

definition lift_d3d :: "'w d3d \<Rightarrow> ('w \<times> 'l) d3d" where
  "lift_d3d e = \<lparr>d_create_texture = (\<lambda>x y f. lift_fun (d_create_texture e x y f)),
     d_query_resource = (\<lambda>t. lift_fun (d_query_resource e t)),
     d_create_shared_handle = (\<lambda>t. lift_fun (d_create_shared_handle e t)),
     d_query_mutex = (\<lambda>t. lift_fun (d_query_mutex e t)),
     d_acquire = (\<lambda>m k. lift_fun (d_acquire e m k)),
     d_release = (\<lambda>m k. lift_act (d_release e m k)),
     d_release_mutex = (\<lambda>m. lift_act (d_release_mutex e m)),
     d_release_texture = (\<lambda>t. lift_act (d_release_texture e t)),
     d_close_handle = (\<lambda>h. lift_act (d_close_handle e h))\<rparr>"

definition note_taken :: "nat option \<times> 'w \<Rightarrow> gpu_call list \<Rightarrow> nat option \<times> 'w \<times> gpu_call list" where
  "note_taken pw l = (case pw of (None, w) \<Rightarrow> (None, w, l) | (Some t, w) \<Rightarrow> (Some t, w, l @ [Took t]))"

definition traced :: "'w gpu \<Rightarrow> ('w \<times> gpu_call list) gpu" where
  "traced env = \<lparr>g_ring = lift_d3d (g_ring env),
     g_create_device = (\<lambda>b. lift_fun (g_create_device env b)),
     g_release_device = lift_act (g_release_device env),
     g_open_shared = (\<lambda>h (w, l). note_taken (g_open_shared env h w) l),
     g_create_texture = (\<lambda>desc (w, l). note_taken (g_create_texture env desc w) l),
     g_query_resource = (\<lambda>t. lift_fun (g_query_resource env t)),
     g_shared_handle = (\<lambda>t. lift_fun (g_shared_handle env t)),
     g_get_desc = (\<lambda>t (w, l). g_get_desc env t w),
     g_add_ref = (\<lambda>t (w, l). (g_add_ref env t w, l @ [Took t])),
     g_release = (\<lambda>t (w, l). (g_release env t w, l @ [Gave t])),
     g_query_mutex = (\<lambda>t. lift_fun (g_query_mutex env t)),
     g_acquire_sync = (\<lambda>m. lift_fun (g_acquire_sync env m)),
     g_release_sync = (\<lambda>m. lift_act (g_release_sync env m)),
     g_release_mutex = (\<lambda>m. lift_act (g_release_mutex env m)),
     g_copy = (\<lambda>c (w, l). (g_copy env c w, l @ [Copied c])),
     g_flush = lift_act (g_flush env),
     g_query_qpc = lift_fun (g_query_qpc env),
     g_start_thread = lift_fun (g_start_thread env)\<rparr>"

lemma lift_fun_log: "snd (snd (lift_fun f x)) = snd x" "lift_fun f x = (a, y) \<Longrightarrow> snd y = snd x"
  by (auto simp: lift_fun_def split: prod.splits)

lemma lift_act_log [simp]: "snd (lift_act f x) = snd x"
  by (simp add: lift_act_def split: prod.split)

subsection \<open>The ring records nothing\<close>

lemma ring_d3d_log:
  "d_create_texture (lift_d3d e) a b f x = (p, y) \<Longrightarrow> snd y = snd x"
  "d_query_resource (lift_d3d e) t x = (q, y) \<Longrightarrow> snd y = snd x"
  "d_create_shared_handle (lift_d3d e) t x = (h, y) \<Longrightarrow> snd y = snd x"
  "d_query_mutex (lift_d3d e) t x = (m, y) \<Longrightarrow> snd y = snd x"
  "d_acquire (lift_d3d e) mm k x = (hr, y) \<Longrightarrow> snd y = snd x"
  "snd (d_release (lift_d3d e) mm k x) = snd x"
  "snd (d_release_mutex (lift_d3d e) mm x) = snd x"
  "snd (d_release_texture (lift_d3d e) t x) = snd x"
  "snd (d_close_handle (lift_d3d e) hh x) = snd x"
  by (simp_all add: lift_d3d_def lift_fun_log(2))

lemma destroy_slots_log: "snd (snd (destroy_slots (lift_d3d e) ss x)) = snd x"
proof (induction ss arbitrary: x)
  case (Cons s ss)
  have "snd (snd (destroy_slot (lift_d3d e) (s, x))) = snd x"
    by (simp add: destroy_slot_def Let_def ring_d3d_log(6-9) split: option.split)
  with Cons show ?case by (simp add: split_beta)
qed simp

lemma destroy_locked_log: "destroy_locked (lift_d3d e) (r, x) = (r', y) \<Longrightarrow> snd y = snd x"
  using destroy_slots_log [of e "rg_slots r" x] by (auto simp: destroy_locked_def split: prod.splits)

lemma create_slot_log: "create_slot (lift_d3d e) a b f s x = (ok, s', y) \<Longrightarrow> snd y = snd x"
  by (cases x) (auto simp: create_slot_def Let_def lift_d3d_def lift_fun_def split: prod.splits option.splits bool.splits)

lemma create_slots_log: "create_slots (lift_d3d e) a b f n ss x = (ok, ss', y) \<Longrightarrow> snd y = snd x"
proof (induction n arbitrary: ss x ok ss' y)
  case (Suc n)
  show ?case
  proof (cases ss)
    case (Cons s ss1)
    obtain ok1 s1 x1 where c: "create_slot (lift_d3d e) a b f s x = (ok1, s1, x1)" by (metis surj_pair)
    obtain ok2 ss2 x2 where cs: "create_slots (lift_d3d e) a b f n ss1 x1 = (ok2, ss2, x2)" by (metis surj_pair)
    show ?thesis
      using Suc.prems Cons c cs create_slot_log [OF c] Suc.IH [OF cs] by (cases ok1) auto
  qed (use Suc.prems in simp)
qed simp

lemma ring_create_log:
  assumes "ring_create (lift_d3d e) dev a b f n (r, x) = (ok, r', y)"
  shows "snd y = snd x"
proof -
  obtain r1 x1 where d: "destroy_locked (lift_d3d e) (r, x) = (r1, x1)" by (metis surj_pair)
  define k where "k = (if n = 0 then 1 else min (unat n) kMaxSlots)"
  obtain ok1 ss x2 where cs: "create_slots (lift_d3d e) a b f k (rg_slots r1) x1 = (ok1, ss, x2)"
    by (metis surj_pair)
  obtain r3 x3 where d3: "destroy_locked (lift_d3d e) (r1\<lparr>rg_slots := ss\<rparr>, x2) = (r3, x3)" by (metis surj_pair)
  note logs = destroy_locked_log [OF d] create_slots_log [OF cs] destroy_locked_log [OF d3]
  show ?thesis
    using assms d cs d3 logs
    by (cases "\<not> dev \<or> a = 0 \<or> b = 0"; cases ok1) (auto simp: ring_create_def Let_def k_def [symmetric])
qed

lemma acquire_slot_log: "acquire_slot (lift_d3d e) (r, x) = (l, r', y) \<Longrightarrow> snd y = snd x"
proof -
  assume a: "acquire_slot (lift_d3d e) (r, x) = (l, r', y)"
  have "snd (snd (snd (acquire_from (lift_d3d e) 0 (r, x)))) = snd x"
    by (rule acquire_from_frame [where Q = "\<lambda>z. snd z = snd x"])
      (auto intro: ring_d3d_log(5) [THEN trans] prod.collapse [symmetric])
  then show ?thesis using a by (simp add: acquire_slot_def split: if_splits)
qed


section \<open>References\<close>

definition refs :: "nat \<Rightarrow> gpu_call list \<Rightarrow> int" where
  "refs t l = int (count_list l (Took t)) - int (count_list l (Gave t))"

definition copies :: "gpu_call list \<Rightarrow> region_copy list" where
  "copies l = concat (map (\<lambda>x. case x of Copied c \<Rightarrow> [c] | _ \<Rightarrow> []) l)"

lemma refs_simps [simp]:
  "refs t [] = 0" "refs t (l @ l') = refs t l + refs t l'" 
  "refs t (Took u # l) = (if u = t then 1 else 0) + refs t l"
  "refs t (Gave u # l) = (if u = t then - 1 else 0) + refs t l" "refs t (Copied c # l) = refs t l"
  by (simp_all add: refs_def)

lemma copies_simps [simp]:
  "copies [] = []" "copies (l @ l') = copies l @ copies l'" "copies (Took u # l) = copies l"
  "copies (Gave u # l) = copies l" "copies (Copied c # l) = c # copies l"
  by (simp_all add: copies_def)

text \<open>The references the component holds: of its sets, and of the textures it opened.\<close>

definition held_sets :: "texture_set list \<Rightarrow> nat \<Rightarrow> int" where
  "held_sets sets t = sum_list (map (\<lambda>s. int (count_list (ts_textures s) (Some t))) sets)"

definition held_refs :: "direct_mode \<Rightarrow> nat \<Rightarrow> int" where
  "held_refs d t = held_sets (dm_sets d) t + int (count_list (map snd (dm_shared d)) t)"

lemma traced_simps [simp]:
  "g_ring (traced env) = lift_d3d (g_ring env)"
  "g_get_desc (traced env) t x = g_get_desc env t (fst x)"
  "snd (g_add_ref (traced env) t x) = snd x @ [Took t]"
  "snd (g_release (traced env) t x) = snd x @ [Gave t]"
  "snd (g_copy (traced env) c x) = snd x @ [Copied c]"
  "snd (g_flush (traced env) x) = snd x"
  "snd (g_release_sync (traced env) m x) = snd x"
  "snd (g_release_mutex (traced env) m x) = snd x"
  "snd (g_release_device (traced env) x) = snd x"
  by (simp_all add: traced_def split: prod.split)

lemma traced_log:
  "g_create_device (traced env) b x = (hr, y) \<Longrightarrow> snd y = snd x"
  "g_query_resource (traced env) t x = (q, y) \<Longrightarrow> snd y = snd x"
  "g_shared_handle (traced env) t x = (h, y) \<Longrightarrow> snd y = snd x"
  "g_query_mutex (traced env) t x = (m, y) \<Longrightarrow> snd y = snd x"
  "g_acquire_sync (traced env) k x = (ok, y) \<Longrightarrow> snd y = snd x"
  "g_query_qpc (traced env) x = (n, y) \<Longrightarrow> snd y = snd x"
  "g_start_thread (traced env) x = (ok, y) \<Longrightarrow> snd y = snd x"
  by (simp_all add: traced_def lift_fun_log(2))

definition took_refs :: "nat option \<Rightarrow> gpu_call list" where
  "took_refs p = (case p of None \<Rightarrow> [] | Some t \<Rightarrow> [Took t])"

lemma traced_take:
  "g_create_texture (traced env) desc x = (p, y) \<Longrightarrow> snd y = snd x @ took_refs p"
  "g_open_shared (traced env) h x = (p, y) \<Longrightarrow> snd y = snd x @ took_refs p"
  by (auto simp: traced_def note_taken_def took_refs_def split: prod.splits option.splits)

lemma took_refs_simps [simp]: "took_refs None = []" "took_refs (Some t) = [Took t]"
  by (simp_all add: took_refs_def)

subsection \<open>Each operation balances\<close>

definition gives :: "nat option \<Rightarrow> gpu_call list" where
  "gives p = (case p of None \<Rightarrow> [] | Some t \<Rightarrow> [Gave t])"

lemma safe_release_log: "snd (safe_release (traced env) p x) = snd x @ gives p"
  by (cases p) (simp_all add: safe_release_def gives_def)

lemma add_ref_log: "snd (add_ref (traced env) p x) = snd x @ took_refs p"
  by (cases p) (simp_all add: add_ref_def)

lemma gives_simps [simp]: "refs t (gives p) = (if p = Some t then - 1 else 0)" "copies (gives p) = []"
  "refs t (took_refs p) = (if p = Some t then 1 else 0)" "copies (took_refs p) = []"
  by (cases p; simp add: gives_def)+

lemma release_all_log: "snd (release_all (traced env) ts x) = snd x @ concat (map gives ts)"
  by (induction ts arbitrary: x) (simp_all add: release_all_def safe_release_log)

lemma gives_all [simp]: "refs t (concat (map gives ts)) = - int (count_list ts (Some t))" "copies (concat (map gives ts)) = []"
  by (induction ts) simp_all

lemma ensure_device_log: "ensure_device_locked (traced env) (d, x) = (ok, d', y) \<Longrightarrow> snd y = snd x"
  by (auto simp: ensure_device_locked_def Let_def traced_log(1) split: if_splits prod.splits dest: traced_log(1))

lemma start_vsync_log: "start_vsync_thread (traced env) (d, x) = (d', y) \<Longrightarrow> snd y = snd x"
  by (auto simp: start_vsync_thread_def split: if_splits prod.splits bool.splits dest: traced_log(7))

lemma shared_texture_log:
  assumes "shared_texture_locked (traced env) h (d, x) = (p, d', y)"
  shows "refs t (snd y) - held_refs d' t = refs t (snd x) - held_refs d t" "copies (snd y) = copies (snd x)"
proof -
  obtain ok d1 x1 where e: "ensure_device_locked (traced env) (d, x) = (ok, d1, x1)" by (metis surj_pair)
  obtain n v where d1: "d1 = d\<lparr>dm_device_attempts := n, dm_device := v\<rparr>" using ensure_device_fields [OF e] by blast
  have l1: "snd x1 = snd x" by (rule ensure_device_log [OF e])
  obtain q x2 where o: "g_open_shared (traced env) h x1 = (q, x2)" by (metis surj_pair)
  have l2: "snd x2 = snd x1 @ took_refs q" by (rule traced_take(2) [OF o])
  have "refs t (snd y) - held_refs d' t = refs t (snd x) - held_refs d t \<and> copies (snd y) = copies (snd x)"
  proof (cases "h = 0 \<or> \<not> ok \<or> map_of (dm_shared d1) h \<noteq> None \<or> q = None")
    case True
    then show ?thesis
      using assms e o l1 l2 d1
      by (cases ok) (auto simp: shared_texture_locked_def held_refs_def split: if_splits option.splits)
  next
    case False
    then obtain u where "q = Some u" by auto
    then show ?thesis
      using assms e o l1 l2 d1 False by (auto simp: shared_texture_locked_def held_refs_def)
  qed
  then show "refs t (snd y) - held_refs d' t = refs t (snd x) - held_refs d t" "copies (snd y) = copies (snd x)" by simp_all
qed

lemma count_list_put: "i < length xs \<Longrightarrow> xs ! i = None \<Longrightarrow>
    count_list (xs[i := Some u]) (Some t) = count_list xs (Some t) + (if u = t then 1 else 0)"
proof (induction xs arbitrary: i)
  case (Cons y ys)
  then show ?case by (cases i) auto
qed simp

lemma create_textures_log:
  assumes "create_textures (traced env) desc is (s, out, x) = (ok, s', out', y)"
    and "distinct is" and "\<And>i. i \<in> set is \<Longrightarrow> i < length (ts_textures s) \<and> ts_textures s ! i = None"
  shows "refs t (snd y) = refs t (snd x) - int (count_list (ts_textures s) (Some t))
      + (if ok then int (count_list (ts_textures s') (Some t)) else 0)
    \<and> copies (snd y) = copies (snd x)"
  using assms
proof (induction "is" arbitrary: s out x)
  case (Cons i "is")
  obtain p x1 where c: "g_create_texture (traced env) desc x = (p, x1)" by (metis surj_pair)
  note l1 = traced_take(1) [OF c]
  show ?case
  proof (cases p)
    case None
    then show ?thesis using Cons.prems(1) c l1 by (auto simp: release_all_log)
  next
    case (Some u)
    define s1 where "s1 = s\<lparr>ts_textures := (ts_textures s)[i := Some u]\<rparr>"
    have cnt: "count_list (ts_textures s1) (Some t) = count_list (ts_textures s) (Some t) + (if u = t then 1 else 0)"
      using Cons.prems(3) [of i] by (simp add: s1_def count_list_put)
    obtain q x2 where q: "g_query_resource (traced env) u x1 = (q, x2)" by (metis surj_pair)
    obtain hp x3 where h: "g_shared_handle (traced env) u x2 = (hp, x3)" by (metis surj_pair)
    note l2 = traced_log(2) [OF q] and l3 = traced_log(3) [OF h]
    show ?thesis
    proof (cases "q \<and> hp \<noteq> None \<and> hp \<noteq> Some 0")
      case False
      then have "\<not> ok \<and> snd y = snd x1 @ concat (map gives (ts_textures s1))"
        using Cons.prems(1) c Some q h l2 l3
        by (auto simp: s1_def Let_def release_all_log split: option.splits bool.splits if_splits)
      then show ?thesis using l1 Some cnt by simp
    next
      case True
      then obtain hh where hh: "hp = Some hh" "hh \<noteq> 0" by auto
      let ?s = "s1\<lparr>ts_handles := (ts_handles s1)[i := hh]\<rparr>" and ?out = "out\<lparr>so_handles := (so_handles out)[i := hh]\<rparr>"
      have rec: "create_textures (traced env) desc is (?s, ?out, x3) = (ok, s', out', y)"
        using Cons.prems(1) c Some q h hh True by (simp add: s1_def)
      have "refs t (snd y) = refs t (snd x3) - int (count_list (ts_textures ?s) (Some t))
          + (if ok then int (count_list (ts_textures s') (Some t)) else 0) \<and> copies (snd y) = copies (snd x3)"
        by (rule Cons.IH [OF rec]) (use Cons.prems(2,3) in \<open>auto simp: s1_def nth_list_update\<close>)
      then show ?thesis using l1 l2 l3 Some cnt by simp
    qed
  qed
qed simp

lemma held_sets_append [simp]: "held_sets (a @ b) t = held_sets a t + held_sets b t"
  "held_sets (s # b) t = int (count_list (ts_textures s) (Some t)) + held_sets b t" "held_sets [] t = 0"
  by (simp_all add: held_sets_def)

lemma destroy_set_log:
  assumes "destroy_set_locked (traced env) i (sets, x) = (sets', y)"
  shows "refs t (snd y) - held_sets sets' t = refs t (snd x) - held_sets sets t \<and> copies (snd y) = copies (snd x)"
proof (cases "i < length sets")
  case True
  then have "held_sets sets t = held_sets (take i sets @ [sets ! i] @ drop (i + 1) sets) t"
    by (simp add: id_take_nth_drop [symmetric])
  then show ?thesis using assms True by (auto simp: destroy_set_locked_def release_all_log)
qed (use assms in \<open>simp add: destroy_set_locked_def\<close>)

lemma destroy_down_log:
  "destroy_down (traced env) pid n (sets, x) = (sets', y) \<Longrightarrow>
     refs t (snd y) - held_sets sets' t = refs t (snd x) - held_sets sets t \<and> copies (snd y) = copies (snd x)"
proof (induction n arbitrary: sets x)
  case (Suc n)
  obtain s1 x1 where d: "destroy_set_locked (traced env) n (sets, x) = (s1, x1)" by (metis surj_pair)
  show ?case using Suc.prems Suc.IH d destroy_set_log [OF d, of t] by (auto split: if_splits)
qed simp

lemma destroy_every_log:
  "destroy_every (traced env) n (sets, x) = (sets', y) \<Longrightarrow>
     refs t (snd y) - held_sets sets' t = refs t (snd x) - held_sets sets t \<and> copies (snd y) = copies (snd x)"
proof (induction n arbitrary: sets x)
  case (Suc n)
  obtain s1 x1 where d: "destroy_set_locked (traced env) n (sets, x) = (s1, x1)" by (metis surj_pair)
  show ?case using Suc.prems Suc.IH d destroy_set_log [OF d, of t] by auto
qed simp

lemma map_update_same: "f y = f (xs ! i) \<Longrightarrow> map f (xs[i := y]) = map f xs"
  by (cases "i < length xs") (simp_all add: map_update list_update_same_conv list_update_beyond)

lemma next_index_held: "next_index h sets = (n, sets') \<Longrightarrow> held_sets sets' t = held_sets sets t"
  by (auto simp: next_index_def held_sets_def Let_def map_update_same split: option.splits)


section \<open>Copies\<close>

text \<open>A region that is not empty and lies inside a texture.\<close>

definition box_inside :: "tex_desc \<Rightarrow> d3d_box \<Rightarrow> bool" where
  "box_inside desc b \<longleftrightarrow> bx_left b < bx_right b \<and> bx_right b \<le> td_width desc
     \<and> bx_top b < bx_bottom b \<and> bx_bottom b \<le> td_height desc"

definition box_width :: "d3d_box \<Rightarrow> int" where "box_width b = uint (bx_right b) - uint (bx_left b)"
definition box_height :: "d3d_box \<Rightarrow> int" where "box_height b = uint (bx_bottom b) - uint (bx_top b)"

text \<open>The left eye from column 0, the right eye to the right of it, both inside the staging texture.\<close>

definition side_by_side :: "ring \<Rightarrow> region_copy \<Rightarrow> region_copy \<Rightarrow> bool" where
  "side_by_side r L R \<longleftrightarrow> rc_dst L = rc_dst R \<and> rc_dst_x L = 0
     \<and> box_width (rc_box L) \<le> uint (rc_dst_x R) \<and> uint (rc_dst_x R) + box_width (rc_box R) \<le> uint (rg_width r)
     \<and> box_height (rc_box L) \<le> uint (rg_height r) \<and> box_height (rc_box R) \<le> uint (rg_height r)"

lemma eye_box:
  assumes "uint (sr_x r) + uint (sr_w r) \<le> uint (td_width desc)" "uint (sr_y r) + uint (sr_h r) \<le> uint (td_height desc)"
    and "sr_w r \<noteq> 0" "sr_h r \<noteq> 0"
  shows "box_inside desc (rc_box (eye_copy t x s r))" "box_width (rc_box (eye_copy t x s r)) = uint (sr_w r)"
    "box_height (rc_box (eye_copy t x s r)) = uint (sr_h r)"
proof -
  have s: "uint (sr_x r + sr_w r) = uint (sr_x r) + uint (sr_w r)" "uint (sr_y r + sr_h r) = uint (sr_y r) + uint (sr_h r)"
    using assms uint_lt2p [of "td_width desc"] uint_lt2p [of "td_height desc"] by (auto intro!: uint_add_lem [THEN iffD1])
  have p: "0 < uint (sr_w r)" "0 < uint (sr_h r)"
    using assms(3,4) by (metis uint_0_iff uint_ge_0 order_le_less)+
  show "box_inside desc (rc_box (eye_copy t x s r))"
    using s p assms(1,2) by (simp add: box_inside_def eye_copy_def word_less_def word_le_def)
  show "box_width (rc_box (eye_copy t x s r)) = uint (sr_w r)" "box_height (rc_box (eye_copy t x s r)) = uint (sr_h r)"
    using s by (simp_all add: box_width_def box_height_def eye_copy_def)
qed

lemma ensure_ring_log:
  assumes "ensure_ring (traced env) a b f (d, c, x) = (ok, d', c', y)"
  shows "snd y = snd x"
proof -
  obtain ok1 r y1 where cr: "ring_create (lift_d3d (g_ring env)) (dm_device d) a b f kStagingSlots (dm_ring d, x) = (ok1, r, y1)"
    by (metis surj_pair)
  show ?thesis
    using assms cr ring_create_log [OF cr]
    by (cases ok1) (auto simp: ensure_ring_def Let_def split: if_splits prod.splits)
qed

text \<open>What one transport did to the record: nothing, or exactly the two copies of the announced slot.\<close>

definition transported ::
    "'w gpu \<Rightarrow> 'w \<Rightarrow> nat option \<times> nat option \<Rightarrow> frame_ready option \<Rightarrow> ring \<Rightarrow> region_copy list \<Rightarrow> bool" where
  "transported env w eyes out r cs \<longleftrightarrow>
     (case out of
        None \<Rightarrow> cs = []
      | Some f \<Rightarrow> (\<exists>L R. cs = [L, R] \<and> eyes = (Some (rc_src L), Some (rc_src R))
          \<and> box_inside (g_get_desc env (rc_src L) w) (rc_box L) \<and> box_inside (g_get_desc env (rc_src R) w) (rc_box R)
          \<and> side_by_side r L R \<and> st_texture (rg_slots r ! unat (fr_staging_index f)) = Some (rc_dst L)))"

lemma transport_eyes_log:
  assumes inv: "told_inv d" and conn: "dm_ipc d" "cl_connected c"
    and small: "\<And>t w. uint (td_width (g_get_desc env t w)) < 2 ^ 31"
    and e: "transport_eyes (traced env) fr eyes (d, c, x) = (out, d', c', y)"
  shows "\<exists>cs. snd y = snd x @ map Copied cs \<and> transported env (fst x) eyes out (dm_ring d') cs"
proof (cases "\<exists>t0 t1. eyes = (Some t0, Some t1)")
  case False
  then have "out = None \<and> y = x" using e by (auto simp: transport_eyes_def split: prod.splits option.splits)
  then show ?thesis by (simp add: transported_def)
next
  case True
  then obtain t0 t1 where eyes: "eyes = (Some t0, Some t1)" by blast
  define d0 where "d0 = g_get_desc env t0 (fst x)"
  define d1 where "d1 = g_get_desc env t1 (fst x)"
  obtain r0 p0 f0 where r0: "rect_from_bounds (fst (fs_bounds fr)) (td_width d0) (td_height d0) = (r0, p0, f0)"
    by (metis surj_pair)
  obtain r1 p1 f1 where r1: "rect_from_bounds (snd (fs_bounds fr)) (td_width d1) (td_height d1) = (r1, p1, f1)"
    by (metis surj_pair)
  define r1' where "r1' = r1\<lparr>sr_w := min (sr_w r1) (sr_w r0), sr_h := min (sr_h r1) (sr_h r0)\<rparr>"
  note defs = transport_eyes_def eyes d0_def [symmetric] d1_def [symmetric] r0 r1 r1'_def [symmetric] Let_def
  show ?thesis
  proof (cases "1 < td_samples d0 \<or> 1 < td_samples d1 \<or> td_format d0 \<noteq> td_format d1
      \<or> sr_w r0 = 0 \<or> sr_h r0 = 0 \<or> sr_w r1 = 0 \<or> sr_h r1 = 0")
    case True
    then have "out = None \<and> y = x" using e by (auto simp: defs split: if_splits)
    then show ?thesis by (simp add: transported_def)
  next
    case False
    obtain ok d2 c2 x2 where er: "ensure_ring (traced env) (sr_w r0 * 2) (sr_h r0)
        (fst (staging_format_for (td_format d0))) (d, c, x) = (ok, d2, c2, x2)" by (metis surj_pair)
    note er' = ensure_ring_spec [OF inv conn er] and lg = ensure_ring_log [OF er]
    show ?thesis
    proof (cases ok)
      case True
      obtain out3 d3 x3 where fs: "fill_slot (traced env) fr ((t0, r0), (t1, r1')) (d2, x2) = (out3, d3, x3)"
        by (metis surj_pair)
      have eq: "out = out3" "d' = d3" "y = x3" using e False er True fs by (auto simp: defs)
      note in0 = rect_inside [OF r0] and in1 = rect_inside [OF r1]
      have wide: "uint (sr_w r0) < 2 ^ 31"
        using in0(1) small [of t0 "fst x"] uint_ge_0 [of "sr_x r0"] unfolding d0_def by linarith
      have mn: "uint (min a b) = min (uint a) (uint b)" for a b :: u32 by (simp add: min_def word_le_def)
      have in1': "uint (sr_x r1') + uint (sr_w r1') \<le> uint (td_width d1)" "uint (sr_y r1') + uint (sr_h r1') \<le> uint (td_height d1)"
        "sr_w r1' \<noteq> 0" "sr_h r1' \<noteq> 0" "uint (sr_w r1') \<le> uint (sr_w r0)" "uint (sr_h r1') \<le> uint (sr_h r0)"
        using in1 False by (auto simp: r1'_def mn) (auto simp: min_def split: if_splits)
      have m: "rg_width (dm_ring d2) = sr_w r0 * 2" "rg_height (dm_ring d2) = sr_h r0"
        using er'(7) [OF True] by (simp_all add: ring_matches_def)
      have dbl: "uint (sr_w r0 * 2) = 2 * uint (sr_w r0)" using wide uint_mult_lem [of "sr_w r0" 2] by simp
      show ?thesis
      proof (rule fill_slot_cases [OF er'(1) fs], goal_cases)
        case 1
        have "snd y = snd x" using 1(3) acquire_slot_log [of "g_ring env" "dm_ring d2" x2] lg eq
          by (metis prod.collapse traced_simps(1))
        then show ?thesis using 1 eq by (simp add: transported_def)
      next
        case (2 i t r w1 w2 w3)
        let ?L = "eye_copy t 0 t0 r0" and ?R = "eye_copy t (sr_w r0) t1 r1'"
        have "snd w1 = snd x2" using 2(11) acquire_slot_log [of "g_ring env" "dm_ring d2" x2]
          by (metis prod.collapse traced_simps(1))
        then have log: "snd y = snd x @ map Copied [?L, ?R]"
          using 2(12-14) lg eq by (auto simp: ring_d3d_log(6))
        have "rg_count r \<le> 3" using 2(3) by (simp add: 2(2) told_inv_def ring_wf_def kMaxSlots_def)
        then have ix: "unat (of_nat i :: u32) = i" using 2(6) by (simp add: unat_of_nat)
        have sz: "rg_width r = sr_w r0 * 2" "rg_height r = sr_h r0" using m 2(5) by (simp_all add: same_ring_def)
        have "box_inside d0 (rc_box ?L)" "box_inside d1 (rc_box ?R)"
          using eye_box(1) [OF in0] eye_box(1) [OF in1'(1-4)] False by auto
        moreover have "side_by_side r ?L ?R"
          using eye_box(2,3) [OF in0] eye_box(2,3) [OF in1'(1-4)] in1'(5,6) False
          unfolding side_by_side_def sz dbl by (simp add: eye_copy_def)
        ultimately have "transported env (fst x) eyes out (dm_ring d') [?L, ?R]"
          using 2(1,2,10) eq ix by (simp add: transported_def eyes d0_def d1_def eye_copy_def)
        then show ?thesis using log by blast
      qed
    next
      case nok: False
      then have "out = None" "y = x2" using e False er by (auto simp: defs)
      then show ?thesis using lg by (simp add: transported_def)
    qed
  qed
qed


section \<open>The record of a run\<close>

lemma refs_copied [simp]: "refs t (map Copied cs) = 0" "copies (map Copied cs) = cs"
  by (induction cs) simp_all

lemma fill_slot_log:
  assumes "fill_slot (traced env) fr e01 (d, x) = (out, d', y)"
  shows "\<exists>cs. snd y = snd x @ map Copied cs" "dm_sets d' = dm_sets d" "dm_shared d' = dm_shared d"
proof -
  obtain t0 r0 t1 r1 where e: "e01 = ((t0, r0), (t1, r1))" by (metis surj_pair)
  obtain l r x1 where a: "acquire_slot (lift_d3d (g_ring env)) (dm_ring d, x) = (l, r, x1)" by (metis surj_pair)
  note l1 = acquire_slot_log [OF a]
  have "(\<exists>cs. snd y = snd x @ map Copied cs) \<and> dm_sets d' = dm_sets d \<and> dm_shared d' = dm_shared d"
  proof (cases l)
    case None
    then have "y = x1" "d' = count_drop (d\<lparr>dm_ring := r\<rparr>)" using assms a e by (auto simp: fill_slot_def)
    then show ?thesis using l1 by simp
  next
    case (Some it)
    obtain i u where it: "it = (i, u)" by fastforce
    define x2 where "x2 = g_copy (traced env) (eye_copy u (sr_w r0) t1 r1) (g_copy (traced env) (eye_copy u 0 t0 r0) x1)"
    obtain r2 x3 where rel: "release_to_helper (lift_d3d (g_ring env)) (Some (i, u)) (dm_frame_id d + 1) (r, x2) = (r2, x3)"
      by (metis surj_pair)
    have "snd x3 = snd x2" using rel by (cases rule: release_to_helper_cases) (simp_all add: ring_d3d_log(6))
    moreover have "snd x2 = snd x1 @ map Copied [eye_copy u 0 t0 r0, eye_copy u (sr_w r0) t1 r1]" by (simp add: x2_def)
    moreover have "y = g_flush (traced env) x3" "d' = d\<lparr>dm_ring := r2, dm_frame_id := dm_frame_id d + 1, dm_sent := dm_sent d + 1\<rparr>"
      using assms a e Some it rel by (auto simp: fill_slot_def Let_def x2_def)
    ultimately show ?thesis
      using l1 by (intro conjI exI [of _ "[eye_copy u 0 t0 r0, eye_copy u (sr_w r0) t1 r1]"]) simp_all
  qed
  then show "\<exists>cs. snd y = snd x @ map Copied cs" "dm_sets d' = dm_sets d" "dm_shared d' = dm_shared d" by blast+
qed

lemma transport_eyes_copied:
  assumes "transport_eyes (traced env) fr eyes (d, c, x) = (out, d', c', y)"
  shows "\<exists>cs. snd y = snd x @ map Copied cs"
proof (cases "snd y = snd x")
  case True
  then show ?thesis by (metis append_Nil2 list.map_disc_iff)
next
  case False
  then obtain t0 t1 where eyes: "eyes = (Some t0, Some t1)"
    using assms by (auto simp: transport_eyes_def split: prod.splits option.splits)
  define r0 where "r0 = fst (rect_from_bounds (fst (fs_bounds fr)) (td_width (g_get_desc env t0 (fst x)))
    (td_height (g_get_desc env t0 (fst x))))"
  define r1 where "r1 = fst (rect_from_bounds (snd (fs_bounds fr)) (td_width (g_get_desc env t1 (fst x)))
    (td_height (g_get_desc env t1 (fst x))))"
  define r1' where "r1' = r1\<lparr>sr_w := min (sr_w r1) (sr_w r0), sr_h := min (sr_h r1) (sr_h r0)\<rparr>"
  obtain ok d2 c2 x2 where er: "ensure_ring (traced env) (sr_w r0 * 2) (sr_h r0)
      (fst (staging_format_for (td_format (g_get_desc env t0 (fst x))))) (d, c, x) = (ok, d2, c2, x2)" by (metis surj_pair)
  obtain out3 d3 x3 where fs: "fill_slot (traced env) fr ((t0, r0), (t1, r1')) (d2, x2) = (out3, d3, x3)"
    by (metis surj_pair)
  have "y = x3 \<or> y = x2 \<or> y = x"
    using assms er fs by (cases ok)
      (auto simp: transport_eyes_def eyes Let_def r0_def [symmetric] r1_def [symmetric] r1'_def [symmetric] split: if_splits)
  then show ?thesis using ensure_ring_log [OF er] fill_slot_log(1) [OF fs] False by auto
qed

lemma transport_frame_log:
  assumes inv: "told_inv d" and e: "transport_frame_locked (traced env) fr (d, c, x) = (out, d', c', y)"
  shows "refs t (snd y) = refs t (snd x)"
    and "(\<And>t w. uint (td_width (g_get_desc env t w)) < 2 ^ 31) \<Longrightarrow>
      \<exists>cs w. copies (snd y) = copies (snd x) @ cs
        \<and> transported env w (find_texture_locked (fst (fs_texture fr)) (dm_sets d),
            find_texture_locked (snd (fs_texture fr)) (dm_sets d)) out (dm_ring d') cs"
proof -
  obtain ok d1 x1 where dev: "ensure_device_locked (traced env) (d, x) = (ok, d1, x1)" by (metis surj_pair)
  obtain n v where d1: "d1 = d\<lparr>dm_device_attempts := n, dm_device := v\<rparr>" using ensure_device_fields [OF dev] by blast
  note l1 = ensure_device_log [OF dev]
  define e0 where "e0 = find_texture_locked (fst (fs_texture fr)) (dm_sets d)"
  define e1 where "e1 = find_texture_locked (snd (fs_texture fr)) (dm_sets d)"
  define x2 where "x2 = add_ref (traced env) e1 (add_ref (traced env) e0 x1)"
  obtain out3 d3 c3 x3 where te: "transport_eyes (traced env) fr (e0, e1) (d1, c, x2) = (out3, d3, c3, x3)"
    by (metis surj_pair)
  have l2: "snd x2 = snd x1 @ took_refs e0 @ took_refs e1" by (simp add: x2_def add_ref_log)
  consider "dm_ipc d" "cl_connected c" "ok" | "\<not> (dm_ipc d \<and> cl_connected c \<and> ok)" by blast
  then have "refs t (snd y) = refs t (snd x) \<and>
     ((\<forall>t w. uint (td_width (g_get_desc env t w)) < 2 ^ 31) \<longrightarrow>
      (\<exists>cs w. copies (snd y) = copies (snd x) @ cs \<and> transported env w (e0, e1) out (dm_ring d') cs))"
  proof cases
    case 1
    have eq: "out = out3" "d' = d3" "y = safe_release (traced env) e1 (safe_release (traced env) e0 x3)"
      using e 1 dev te d1 by (auto simp: transport_frame_locked_def Let_def e0_def e1_def x2_def)
    obtain cs where cs: "snd x3 = snd x2 @ map Copied cs" using transport_eyes_copied [OF te] by blast
    have "\<exists>cs w. copies (snd y) = copies (snd x) @ cs \<and> transported env w (e0, e1) out (dm_ring d') cs"
      if small: "\<forall>t w. uint (td_width (g_get_desc env t w)) < 2 ^ 31"
    proof -
      have "told_inv d1" "dm_ipc d1" using inv 1 by (simp_all add: d1 told_inv_def)
      from transport_eyes_log [OF this 1(2) _ te] small obtain cs where
        "snd x3 = snd x2 @ map Copied cs" "transported env (fst x2) (e0, e1) out3 (dm_ring d3) cs" by blast
      then show ?thesis
        using eq l1 l2 by (intro exI [of _ cs] exI [of _ "fst x2"]) (simp add: safe_release_log)
    qed
    then show ?thesis using eq l1 l2 cs by (simp add: safe_release_log)
  next
    case 2
    then have "out = None \<and> (y = x \<or> y = x1)" using e dev by (cases ok) (auto simp: transport_frame_locked_def split: if_splits)
    then show ?thesis using l1 by (auto simp: transported_def)
  qed
  then show "refs t (snd y) = refs t (snd x)"
    "(\<And>t w. uint (td_width (g_get_desc env t w)) < 2 ^ 31) \<Longrightarrow>
      \<exists>cs w. copies (snd y) = copies (snd x) @ cs
        \<and> transported env w (find_texture_locked (fst (fs_texture fr)) (dm_sets d),
            find_texture_locked (snd (fs_texture fr)) (dm_sets d)) out (dm_ring d') cs"
    unfolding e0_def e1_def by blast+
qed


lemma present_frame_log:
  assumes inv: "told_inv d" and idle: "dm_outgoing d = None"
    and p: "present_frame (traced env) sync (d, c, x) = (d', c', y)"
  shows "refs t (snd y) - held_refs d' t = refs t (snd x) - held_refs d t"
    and "(\<And>t w. uint (td_width (g_get_desc env t w)) < 2 ^ 31) \<Longrightarrow>
      \<exists>cs w. copies (snd y) = copies (snd x) @ cs
        \<and> transported env w (find_texture_locked (fst (fs_texture (dm_layer d))) (dm_sets d),
            find_texture_locked (snd (fs_texture (dm_layer d))) (dm_sets d)) (dm_outgoing d') (dm_ring d') cs"
proof -
  obtain qpc x1 where q: "g_query_qpc (traced env) x = (qpc, x1)" by (metis surj_pair)
  note l1 = traced_log(6) [OF q]
  define fr where "fr = (dm_layer d)\<lparr>fs_qpc := qpc\<rparr>"
  define d1 where "d1 = d\<lparr>dm_layer := (dm_layer d)\<lparr>fs_layers := 0\<rparr>\<rparr>"
  obtain p2 d2 x2 where s: "shared_texture_locked (traced env) sync (d1, x1) = (p2, d2, x2)" by (metis surj_pair)
  note l2 = shared_texture_log [OF s]
  obtain n v sh where d2: "d2 = d1\<lparr>dm_device_attempts := n, dm_device := v, dm_shared := sh\<rparr>"
    using shared_texture_fields [OF s] by blast
  have inv2: "told_inv d2" using inv by (simp add: d2 d1_def told_inv_def)
  have hd1: "held_refs d1 t = held_refs d t" for t by (simp add: d1_def held_refs_def)
  define e01 where "e01 = (find_texture_locked (fst (fs_texture (dm_layer d))) (dm_sets d),
    find_texture_locked (snd (fs_texture (dm_layer d))) (dm_sets d))"
  let ?P = "refs t (snd y) - held_refs d' t = refs t (snd x) - held_refs d t \<and>
     ((\<forall>t w. uint (td_width (g_get_desc env t w)) < 2 ^ 31) \<longrightarrow>
      (\<exists>cs w. copies (snd y) = copies (snd x) @ cs \<and> transported env w e01 (dm_outgoing d') (dm_ring d') cs))"
  have via: ?P if t3: "transport_frame_locked (traced env) fr (d2, c, z) = (out, d3, c3, x3)"
    and d': "d' = d3\<lparr>dm_outgoing := out\<rparr>" and z: "snd z = snd x2" and y: "snd y = snd x3" for z out d3 c3 x3
  proof -
    have "held_refs d' t = held_refs d2 t" using transport_frame_spec [OF inv2 t3] by (simp add: d' held_refs_def transport_frame_cond_def)
    moreover have "(find_texture_locked (fst (fs_texture fr)) (dm_sets d2),
        find_texture_locked (snd (fs_texture fr)) (dm_sets d2)) = e01" by (simp add: e01_def fr_def d2 d1_def)
    ultimately show ?thesis
      using transport_frame_log(1) [OF inv2 t3, of t] transport_frame_log(2) [OF inv2 t3] l1 l2 hd1 z y by (simp add: d')
  qed
  have none: ?P if "y = x1 \<or> y = x2 \<or> snd y = snd x2" "held_refs d' t = held_refs d t \<and> y = x1 \<or> held_refs d' t = held_refs d2 t \<and> snd y = snd x2"
    "dm_outgoing d' = None"
    using that l1 l2 hd1 by (auto simp: transported_def)
  have out: "dm_outgoing d1 = None" "dm_outgoing d2 = None" using idle by (simp_all add: d1_def d2)
  from p q s [unfolded d1_def] have ?P
  proof (cases rule: present_frame_cases)
    case no_layer
    then show ?thesis using none out(1) hd1 by (simp flip: d1_def)
  next
    case no_sync
    then show ?thesis using none out(1) hd1 by (simp add: held_refs_def flip: d1_def)
  next
    case unopened
    then show ?thesis using none out(2) by simp
  next
    case (busy u k z z2)
    then show ?thesis
      using none out(2) traced_log(4) [OF busy(4)] traced_log(5) [OF busy(5)] by (simp add: held_refs_def)
  next
    case (plain u z out d3)
    show ?thesis by (rule via [OF plain(5) [folded fr_def] plain(6) traced_log(4) [OF plain(4)] refl])
  next
    case (locked u k z z2 out d3 w3)
    show ?thesis
      by (rule via [OF locked(6) [folded fr_def] locked(7) trans [OF traced_log(5) [OF locked(5)] traced_log(4) [OF locked(4)]]])
        (simp add: locked(8))
  qed
  then show "refs t (snd y) - held_refs d' t = refs t (snd x) - held_refs d t"
    "(\<And>t w. uint (td_width (g_get_desc env t w)) < 2 ^ 31) \<Longrightarrow>
      \<exists>cs w. copies (snd y) = copies (snd x) @ cs
        \<and> transported env w (find_texture_locked (fst (fs_texture (dm_layer d))) (dm_sets d),
            find_texture_locked (snd (fs_texture (dm_layer d))) (dm_sets d)) (dm_outgoing d') (dm_ring d') cs"
    unfolding e01_def by blast+
qed

lemma release_shared_log:
  "snd (foldl (\<lambda>w (h, t). g_release (traced env) t w) x shared) = snd x @ map (\<lambda>(h, t). Gave t) shared"
  by (induction shared arbitrary: x) auto

lemma refs_gave [simp]: "refs t (map (\<lambda>(h, u). Gave u) shared) = - int (count_list (map snd shared) t)"
  by (induction shared) auto

text \<open>What a step leaves of the record: an invariant of the component with its record.\<close>

definition balanced :: "direct_mode \<times> client \<times> 'w \<times> gpu_call list \<Rightarrow> bool" where
  "balanced = (\<lambda>(d, c, x). direct_inv d \<and> (\<forall>t. refs t (snd x) = held_refs d t))"

lemma direct_shutdown_log:
  assumes "direct_shutdown (traced env) (d, x) = (d', y)"
  shows "refs t (snd y) - held_refs d' t = refs t (snd x) - held_refs d t"
    "\<not> dm_shut_down d \<Longrightarrow> held_refs d' t = 0"
proof -
  obtain sets x1 where s: "destroy_every (traced env) (length (dm_sets d)) (dm_sets d, x) = (sets, x1)" by (metis surj_pair)
  obtain r x2 where r: "destroy_locked (lift_d3d (g_ring env)) (dm_ring d, x1) = (r, x2)" by (metis surj_pair)
  note l = destroy_every_log [OF s, of t] destroy_locked_log [OF r] destroy_every_nil [OF s]
  have "refs t (snd y) - held_refs d' t = refs t (snd x) - held_refs d t \<and> (\<not> dm_shut_down d \<longrightarrow> held_refs d' t = 0)"
    using assms s r l
    by (cases "dm_shut_down d")
      (auto simp: direct_shutdown_def release_device_locked_def Let_def held_refs_def release_shared_log)
  then show "refs t (snd y) - held_refs d' t = refs t (snd x) - held_refs d t"
    "\<not> dm_shut_down d \<Longrightarrow> held_refs d' t = 0" by simp_all
qed

lemma CreateSwapTextureSet_log:
  assumes "CreateSwapTextureSet (traced env) pid sd out (d, x) = (out', d', y)"
  shows "refs t (snd y) - held_refs d' t = refs t (snd x) - held_refs d t"
proof (cases "\<exists>a b. sd = Some a \<and> out = Some b")
  case True
  then obtain a b where ab: "sd = Some a" "out = Some b" by blast
  obtain d1 x1 where v: "start_vsync_thread (traced env) (d, x) = (d1, x1)" by (metis surj_pair)
  obtain ok d2 x2 where e: "ensure_device_locked (traced env) (d1, x1) = (ok, d2, x2)" by (metis surj_pair)
  have h: "held_refs d2 t = held_refs d t" "dm_sets d2 = dm_sets d"
    using start_vsync_fields [OF v] ensure_device_fields [OF e] by (auto simp: held_refs_def)
  have l: "snd x2 = snd x" using start_vsync_log [OF v] ensure_device_log [OF e] by simp
  let ?out = "b\<lparr>so_handles := [0, 0, 0], so_flags := 0\<rparr>"
  obtain ok3 s out3 x3 where c: "create_textures (traced env) (texture_desc a) [0, 1, 2] (empty_set pid (texture_desc a), ?out, x2)
      = (ok3, s, out3, x3)" by (metis surj_pair)
  have c': "refs t (snd x3) = refs t (snd x2) + (if ok3 then int (count_list (ts_textures s) (Some t)) else 0)"
  proof -
    have "i < length (ts_textures (empty_set pid (texture_desc a))) \<and> ts_textures (empty_set pid (texture_desc a)) ! i = None"
      if "i \<in> set [0, 1, 2]" for i using that by (auto simp: empty_set_def numeral_2_eq_2)
    from create_textures_log [OF c _ this, of t] show ?thesis by (simp add: empty_set_def)
  qed
  have "y = x2 \<and> d' = d2 \<or> y = x3 \<and> (if ok3 then d' = d2\<lparr>dm_sets := dm_sets d2 @ [s]\<rparr> else d' = d2)"
    using assms ab v e c
    by (cases ok; cases "kMaxTextureSets \<le> length (dm_sets d2)"; cases ok3) (auto simp: CreateSwapTextureSet_def Let_def)
  then show ?thesis using h l c' by (auto simp: held_refs_def split: if_splits)
qed (use assms in \<open>auto simp: CreateSwapTextureSet_def split: option.splits\<close>)

lemma callbacks_held: "held_refs (foldl direct_callback d cbs) t = held_refs d t"
proof (induction cbs arbitrary: d)
  case (Cons cb cbs)
  have "held_refs (direct_callback d cb) t = held_refs d t"
    by (cases cb) (auto simp: held_refs_def direct_frame_done_def on_ipc_connected_def on_ipc_disconnected_def split: prod.splits bool.splits)
  with Cons show ?case by simp
qed simp

lemma balanced_step:
  assumes "balanced dcx"
  shows "balanced (direct_step (traced env) dcx e)"
proof -
  obtain d c x where dcx: "dcx = (d, c, x)" by (metis surj_pair)
  obtain d' c' y where st: "direct_step (traced env) (d, c, x) e = (d', c', y)" by (metis surj_pair)
  have inv: "direct_inv d" and bal: "refs t (snd x) = held_refs d t" for t using assms by (simp_all add: dcx balanced_def)
  have "direct_inv d'" using direct_step_inv [of "(d, c, x)" "traced env" e] inv st by simp
  moreover have "refs t (snd y) - held_refs d' t = refs t (snd x) - held_refs d t" for t
  proof (cases e)
    case (CreateSet pid sd)
    obtain out d2 x2 where cr: "CreateSwapTextureSet (traced env) pid (Some sd) (Some \<lparr>so_handles = [0, 0, 0], so_flags = 0\<rparr>) (d, x)
        = (out, d2, x2)" by (metis surj_pair)
    then have "d' = d2" "y = x2" using st CreateSet by simp_all
    then show ?thesis using CreateSwapTextureSet_log [OF cr] by simp
  next
    case (DestroySet h)
    show ?thesis
    proof (cases "find_index h (dm_sets d)")
      case (Some i)
      obtain s1 x1 where ds: "destroy_set_locked (traced env) i (dm_sets d, x) = (s1, x1)" by (metis surj_pair)
      then have "d' = d\<lparr>dm_sets := s1\<rparr>" "y = x1" using st DestroySet Some by (auto simp: DestroySwapTextureSet_def)
      then show ?thesis using destroy_set_log [OF ds, of t] by (simp add: held_refs_def)
    qed (use st DestroySet in \<open>auto simp: DestroySwapTextureSet_def\<close>)
  next
    case (DestroyAll pid)
    obtain s1 x1 where ds: "destroy_down (traced env) pid (length (dm_sets d)) (dm_sets d, x) = (s1, x1)" by (metis surj_pair)
    then have "d' = d\<lparr>dm_sets := s1\<rparr>" "y = x1" using st DestroyAll by (auto simp: DestroyAllSwapTextureSets_def)
    then show ?thesis using destroy_down_log [OF ds, of t] by (simp add: held_refs_def)
  next
    case (NextIndex h0 h1)
    obtain n0 s0 where n0: "next_index h0 (dm_sets d) = (n0, s0)" by fastforce
    obtain n1 s1 where n1: "next_index h1 s0 = (n1, s1)" by fastforce
    have "d' = d\<lparr>dm_sets := s1\<rparr>" "y = x" using st NextIndex n0 n1 by (auto simp: GetNextSwapTextureSetIndex_def)
    then show ?thesis using next_index_held [OF n0] next_index_held [OF n1] by (simp add: held_refs_def)
  next
    case (PresentFrame sync)
    have told: "told_inv d" using inv by (simp add: direct_inv_def)
    show ?thesis using st PresentFrame present_frame_log(1) [OF told, of env sync c x d' c' y t] by (auto split: if_splits)
  next
    case PresentQueue
    then show ?thesis
      using st by (auto simp: present_queue_def held_refs_def Let_def split: option.splits prod.splits if_splits)
  next
    case Posted
    obtain d2 x2 where v: "start_vsync_thread (traced env) (d, x) = (d2, x2)" by (metis surj_pair)
    then have "d' = d2" "y = x2" using st Posted by (simp_all add: PostPresent_def)
    then show ?thesis using start_vsync_fields [OF v] start_vsync_log [OF v] by (auto simp: held_refs_def)
  next
    case (ClientEvent ev)
    then show ?thesis using st callbacks_held [of d _ t] by (auto simp: Let_def)
  next
    case Shutdown
    obtain d2 x2 where sh: "direct_shutdown (traced env) (d, x) = (d2, x2)" by (metis surj_pair)
    then have "d' = d2" "y = x2" using st Shutdown by simp_all
    then show ?thesis using direct_shutdown_log(1) [OF sh] by simp
  qed (use st in \<open>auto simp: held_refs_def SubmitLayer_def vsync_tick_def attach_ipc_def\<close>)
  ultimately show ?thesis using bal by (simp add: dcx st balanced_def)
qed

interpretation traced: machine_invariant "direct_step (traced env)" balanced for env :: "'w gpu"
  by unfold_locales (rule balanced_step)

lemma balanced_reach:
  assumes "(d, c, w, l) = foldl (direct_step (traced env)) (direct_new, c0, w0, []) es"
  shows "direct_inv d" "refs t l = held_refs d t"
proof -
  have "balanced (direct_new, c0, w0, [])"
    using direct_inv_new by (simp add: balanced_def held_refs_def direct_new_def)
  then have "balanced (d, c, w, l)" unfolding assms by (rule traced.inv_run)
  then show "direct_inv d" "refs t l = held_refs d t" by (simp_all add: balanced_def)
qed

text \<open>
  C11. Every copy stays where it belongs. For any Direct3D whose textures are
  narrower than \<open>2 ^ 31\<close> and any sequence of calls, a Present issues no copy at
  all, or exactly two, and then it announces a frame: the sources are the two
  textures the last layer named, the regions are not empty and lie inside them,
  whatever the submitted bounds are (NaN included), and both land side by side
  inside the staging texture of the announced slot.
\<close>

theorem copies_inside:
  assumes "(d, c, w, l) = foldl (direct_step (traced env)) (direct_new, c0, w0, []) es" and "dm_outgoing d = None"
    and "\<And>t w. uint (td_width (g_get_desc env t w)) < 2 ^ 31"
    and "present_frame (traced env) sync (d, c, w, l) = (d', c', w', l')"
  shows "\<exists>cs w1. copies l' = copies l @ cs
    \<and> transported env w1 (find_texture_locked (fst (fs_texture (dm_layer d))) (dm_sets d),
        find_texture_locked (snd (fs_texture (dm_layer d))) (dm_sets d)) (dm_outgoing d') (dm_ring d') cs"
proof -
  have "told_inv d" using balanced_reach(1) [OF assms(1)] by (simp add: direct_inv_def)
  from present_frame_log(2) [OF this assms(2,4) assms(3)] show ?thesis by simp
qed

text \<open>
  C16. No texture is leaked or released twice. For any Direct3D and any
  sequence of calls, failed creations included, the references taken on a
  texture minus those dropped are exactly those its texture set or the cache of
  opened textures holds, and after the shutdown none is left.
\<close>

theorem texture_references:
  assumes "(d, c, w, l) = foldl (direct_step (traced env)) (direct_new, c0, w0, []) es"
    and "direct_shutdown (traced env) (d, w, l) = (d', w', l')"
  shows "refs t l = held_refs d t \<and> 0 \<le> refs t l \<and> (\<not> dm_shut_down d \<longrightarrow> refs t l' = 0)"
proof -
  note b = balanced_reach(2) [OF assms(1)]
  have "0 \<le> held_sets sets t" for sets by (induction sets) simp_all
  then have "0 \<le> held_refs d t" by (simp add: held_refs_def)
  then show ?thesis
    using b direct_shutdown_log [OF assms(2)] by (metis add_0 diff_add_cancel diff_self snd_conv)
qed


section \<open>Swap chains\<close>

text \<open>
  What the compositor sees: a table from texture handles to the process that
  asked for the texture, the three handles of its chain, and the texture.
\<close>

type_synonym chain_entry = "u32 \<times> u64 list \<times> nat option"

definition set_entries :: "texture_set \<Rightarrow> (u64 \<times> chain_entry) list" where
  "set_entries s = zip (ts_handles s) (map (\<lambda>t. (ts_pid s, ts_handles s, t)) (ts_textures s))"

fun chain_table :: "texture_set list \<Rightarrow> u64 \<Rightarrow> chain_entry option" where
  "chain_table [] h = None"
| "chain_table (s # ss) h = (case map_of (set_entries s) h of Some e \<Rightarrow> Some e | None \<Rightarrow> chain_table ss h)"

text \<open>Destroying by any handle of a chain, and everything of a process.\<close>

definition table_destroy :: "u64 \<Rightarrow> (u64 \<Rightarrow> chain_entry option) \<Rightarrow> u64 \<Rightarrow> chain_entry option" where
  "table_destroy h m = (case m h of None \<Rightarrow> m | Some (pid, hs, t) \<Rightarrow> (\<lambda>k. if k \<in> set hs then None else m k))"

definition table_destroy_all :: "u32 \<Rightarrow> (u64 \<Rightarrow> chain_entry option) \<Rightarrow> u64 \<Rightarrow> chain_entry option" where
  "table_destroy_all pid m =
     (\<lambda>k. case m k of None \<Rightarrow> None | Some (p, hs, t) \<Rightarrow> if p = pid then None else Some (p, hs, t))"

definition table_add :: "u32 \<Rightarrow> u64 list \<Rightarrow> nat option list \<Rightarrow> (u64 \<Rightarrow> chain_entry option) \<Rightarrow> u64 \<Rightarrow> chain_entry option" where
  "table_add pid hs ts m = (\<lambda>k. case m k of Some e \<Rightarrow> Some e | None \<Rightarrow> map_of (zip hs (map (\<lambda>t. (pid, hs, t)) ts)) k)"

abbreviation handles :: "texture_set list \<Rightarrow> u64 list" where
  "handles sets \<equiv> concat (map ts_handles sets)"

lemma entries_dom: "set_ok s \<Longrightarrow> map_of (set_entries s) h = None \<longleftrightarrow> h \<notin> set (ts_handles s)"
  by (simp add: set_entries_def set_ok_def map_of_eq_None_iff del: set_map image_set flip: set_map)

lemma entries_Some: "set_ok s \<Longrightarrow> map_of (set_entries s) h = Some e \<Longrightarrow> h \<in> set (ts_handles s)"
  using entries_dom [of s h] by auto

lemma entries_ran: "map_of (set_entries s) h = Some (p, hs, t) \<Longrightarrow> p = ts_pid s \<and> hs = ts_handles s"
  by (auto simp: set_entries_def dest!: map_of_SomeD in_set_zipE set_zip_rightD)

lemma table_None: "\<forall>s \<in> set sets. set_ok s \<Longrightarrow> chain_table sets h = None \<longleftrightarrow> h \<notin> set (handles sets)"
  by (induction sets) (auto simp: entries_dom dest: entries_Some split: option.splits)

lemma table_append: "chain_table (a @ b) h = (case chain_table a h of Some e \<Rightarrow> Some e | None \<Rightarrow> chain_table b h)"
  by (induction a) (auto split: option.splits)

lemma find_index_table:
  assumes "\<forall>s \<in> set sets. set_ok s"
  shows "case find_index h sets of None \<Rightarrow> chain_table sets h = None
    | Some i \<Rightarrow> i < length sets \<and> chain_table sets h = map_of (set_entries (sets ! i)) h \<and> h \<in> set (ts_handles (sets ! i))"
  using assms by (induction sets) (auto simp: entries_dom dest: entries_Some split: option.splits)

lemma index_of_entries: "length hs = length ts \<Longrightarrow>
    (case index_of h hs of None \<Rightarrow> map_of (zip hs (map f ts)) h = None
     | Some j \<Rightarrow> j < length ts \<and> map_of (zip hs (map f ts)) h = Some (f (ts ! j)))"
proof (induction hs arbitrary: ts)
  case (Cons x xs)
  then obtain u us where ts: "ts = u # us" "length xs = length us" by (cases ts) auto
  from Cons.IH [OF ts(2)] show ?case by (simp add: ts(1) split: option.splits)
qed simp

text \<open>The component's lookups are lookups in the table.\<close>

lemma find_texture_table:
  assumes "\<forall>s \<in> set sets. set_ok s" and "h \<noteq> 0"
  shows "find_texture_locked h sets = (case chain_table sets h of None \<Rightarrow> None | Some (p, hs, t) \<Rightarrow> t)"
proof (cases "find_index h sets")
  case None
  then show ?thesis
    using find_index_table [OF assms(1), of h] assms(2) by (simp add: find_texture_locked_def find_set_locked_def)
next
  case (Some i)
  then have i: "i < length sets" "chain_table sets h = map_of (set_entries (sets ! i)) h" "h \<in> set (ts_handles (sets ! i))"
    using find_index_table [OF assms(1), of h] by simp_all
  then have ok: "set_ok (sets ! i)" using assms(1) by simp
  then have "length (ts_handles (sets ! i)) = length (ts_textures (sets ! i))" by (simp add: set_ok_def)
  from index_of_entries [OF this, where h = h and f = "\<lambda>t. (ts_pid (sets ! i), ts_handles (sets ! i), t)"] show ?thesis
    using i entries_dom [OF ok, of h] Some assms(2)
    by (auto simp: find_texture_locked_def find_set_locked_def set_entries_def split: option.splits)
qed

lemma table_destroy_set:
  assumes ok: "\<forall>s \<in> set sets. set_ok s" and d: "distinct (handles sets)" and i: "i < length sets"
  shows "chain_table (take i sets @ drop (i + 1) sets) k = (if k \<in> set (ts_handles (sets ! i)) then None else chain_table sets k)"
proof -
  define a where "a = take i sets"
  define b where "b = drop (i + 1) sets"
  define s where "s = sets ! i"
  have sets: "sets = a @ s # b" using i by (simp add: a_def b_def s_def id_take_nth_drop)
  have oks: "\<forall>s \<in> set a. set_ok s" "\<forall>s \<in> set b. set_ok s" "set_ok s" using ok by (auto simp: sets)
  have disj: "k \<in> set (ts_handles s) \<Longrightarrow> k \<notin> set (handles a) \<and> k \<notin> set (handles b)" using d by (auto simp: sets)
  have "chain_table (a @ b) k = (if k \<in> set (ts_handles s) then None else chain_table (a @ s # b) k)"
  proof (cases "k \<in> set (ts_handles s)")
    case True
    then have "chain_table a k = None" "chain_table b k = None"
      using disj table_None [OF oks(1)] table_None [OF oks(2)] by blast+
    then show ?thesis using True by (simp add: table_append)
  next
    case False
    then show ?thesis using entries_dom [OF oks(3), of k] by (simp add: table_append split: option.split)
  qed
  then show ?thesis unfolding sets [symmetric] unfolding a_def b_def s_def .
qed

lemma table_filter:
  assumes "\<forall>s \<in> set sets. set_ok s" and "distinct (handles sets)"
  shows "chain_table (filter (\<lambda>s. ts_pid s \<noteq> pid) sets) = table_destroy_all pid (chain_table sets)"
proof
  fix k
  show "chain_table (filter (\<lambda>s. ts_pid s \<noteq> pid) sets) k = table_destroy_all pid (chain_table sets) k"
    using assms
  proof (induction sets)
    case (Cons s ss)
    have ok: "set_ok s" "\<forall>x \<in> set ss. set_ok x" using Cons.prems(1) by simp_all
    have ih: "chain_table (filter (\<lambda>s. ts_pid s \<noteq> pid) ss) k = table_destroy_all pid (chain_table ss) k"
      using Cons.IH ok(2) Cons.prems(2) by simp
    show ?case
    proof (cases "map_of (set_entries s) k")
      case None
      then show ?thesis using ih by (simp add: table_destroy_all_def)
    next
      case (Some e)
      obtain p hs t where e: "e = (p, hs, t)" by (cases e)
      have "p = ts_pid s" using entries_ran Some e by simp
      moreover have "k \<in> set (ts_handles s)" using entries_dom [OF ok(1), of k] Some by auto
      then have "chain_table ss k = None" using Cons.prems(2) table_None [OF ok(2), of k] by auto
      ultimately show ?thesis using ih Some e by (auto simp: table_destroy_all_def)
    qed
  qed (simp add: table_destroy_all_def)
qed

lemma destroy_down_filter:
  "n \<le> length sets \<Longrightarrow>
     fst (destroy_down env pid n (sets, w)) = filter (\<lambda>s. ts_pid s \<noteq> pid) (take n sets) @ drop n sets"
proof (induction n arbitrary: sets w)
  case (Suc n)
  have split: "take (Suc n) sets = take n sets @ [sets ! n]" "drop n sets = sets ! n # drop (Suc n) sets"
    using Suc.prems by (simp_all add: take_Suc_conv_app_nth Cons_nth_drop_Suc)
  show ?case
  proof (cases "ts_pid (sets ! n) = pid")
    case True
    obtain w' where d: "destroy_set_locked env n (sets, w) = (take n sets @ drop (Suc n) sets, w')"
      using Suc.prems by (simp add: destroy_set_locked_def)
    then show ?thesis
      using Suc.IH [of "take n sets @ drop (Suc n) sets" w'] Suc.prems True split by (simp add: min_def)
  next
    case False
    then show ?thesis using Suc split by simp
  qed
qed simp

lemma next_index_table: "next_index h sets = (n, sets') \<Longrightarrow> chain_table sets' = chain_table sets"
proof -
  have "chain_table (sets[i := (sets ! i)\<lparr>ts_index := k\<rparr>]) x = chain_table sets x" for i k x
  proof (induction sets arbitrary: i)
    case (Cons s ss)
    then show ?case by (cases i) (auto simp: set_entries_def split: option.split)
  qed simp
  then have "chain_table (sets[i := (sets ! i)\<lparr>ts_index := k\<rparr>]) = chain_table sets" for i k by blast
  then show "next_index h sets = (n, sets') \<Longrightarrow> chain_table sets' = chain_table sets"
    by (auto simp: next_index_def Let_def split: option.splits)
qed

text \<open>Operation by operation.\<close>

lemma swap_chains_ops:
  assumes "sets_inv (dm_sets d)" and "distinct (handles (dm_sets d))"
  shows "chain_table (dm_sets (fst (DestroySwapTextureSet env h (d, w)))) = table_destroy h (chain_table (dm_sets d))"
    and "chain_table (dm_sets (fst (DestroyAllSwapTextureSets env pid (d, w)))) = table_destroy_all pid (chain_table (dm_sets d))"
    and "chain_table (dm_sets (snd (GetNextSwapTextureSetIndex hs ix d))) = chain_table (dm_sets d)"
    and "CreateSwapTextureSet env pid (Some sd) (Some out) (d, w) = (Some out', d', w') \<Longrightarrow>
      dm_sets d' = dm_sets d \<or> (\<exists>ts. length ts = 3 \<and> None \<notin> set ts
        \<and> chain_table (dm_sets d') = table_add pid (so_handles out') ts (chain_table (dm_sets d)))"
    and "h \<noteq> 0 \<Longrightarrow> find_texture_locked h (dm_sets d) =
      (case chain_table (dm_sets d) h of None \<Rightarrow> None | Some (p, hs, t) \<Rightarrow> t)"
proof -
  have ok: "\<forall>s \<in> set (dm_sets d). set_ok s" using assms(1) by (simp add: sets_inv_def)
  note fi = find_index_table [OF ok, of h]
  show "chain_table (dm_sets (fst (DestroySwapTextureSet env h (d, w)))) = table_destroy h (chain_table (dm_sets d))"
  proof (cases "find_index h (dm_sets d)")
    case (Some i)
    then have i: "i < length (dm_sets d)" "h \<in> set (ts_handles (dm_sets d ! i))"
      "chain_table (dm_sets d) h = map_of (set_entries (dm_sets d ! i)) h" using fi by simp_all
    have "set_ok (dm_sets d ! i)" using ok i(1) by simp
    then obtain p hs t where e: "chain_table (dm_sets d) h = Some (p, hs, t)" "hs = ts_handles (dm_sets d ! i)"
      using i(2,3) entries_dom entries_ran by (metis not_None_eq prod_cases3)
    show ?thesis
      using Some i(1) e table_destroy_set [OF ok assms(2) i(1)]
      by (auto simp: DestroySwapTextureSet_def destroy_set_locked_def table_destroy_def fun_eq_iff)
  qed (use fi in \<open>simp add: DestroySwapTextureSet_def table_destroy_def\<close>)
  show "chain_table (dm_sets (fst (DestroyAllSwapTextureSets env pid (d, w)))) = table_destroy_all pid (chain_table (dm_sets d))"
    using destroy_down_filter [of "length (dm_sets d)" "dm_sets d" env pid w] table_filter [OF ok assms(2), of pid]
    by (simp add: DestroyAllSwapTextureSets_def split_beta)
  show "chain_table (dm_sets (snd (GetNextSwapTextureSetIndex hs ix d))) = chain_table (dm_sets d)"
    by (auto simp: GetNextSwapTextureSetIndex_def dest!: next_index_table split: option.split prod.split)
  show "dm_sets d' = dm_sets d \<or> (\<exists>ts. length ts = 3 \<and> None \<notin> set ts
        \<and> chain_table (dm_sets d') = table_add pid (so_handles out') ts (chain_table (dm_sets d)))"
    if cr: "CreateSwapTextureSet env pid (Some sd) (Some out) (d, w) = (Some out', d', w')"
  proof -
    obtain d1 w1 where v: "start_vsync_thread env (d, w) = (d1, w1)" by (metis surj_pair)
    obtain b d2 w2 where e: "ensure_device_locked env (d1, w1) = (b, d2, w2)" by (metis surj_pair)
    have d2: "dm_sets d2 = dm_sets d" using start_vsync_fields [OF v] ensure_device_fields [OF e] by auto
    obtain b3 s out3 w3 where c: "create_textures env (texture_desc sd) [0, 1, 2]
        (empty_set pid (texture_desc sd), out\<lparr>so_handles := [0, 0, 0], so_flags := 0\<rparr>, w2) = (b3, s, out3, w3)"
      by (metis surj_pair)
    have "dm_sets d' = dm_sets d \<or> b3 \<and> dm_sets d' = dm_sets d @ [s] \<and> out' = out3"
      using cr v e c d2
      by (cases b; cases "kMaxTextureSets \<le> length (dm_sets d2)"; cases b3) (auto simp: CreateSwapTextureSet_def Let_def)
    then show ?thesis
    proof (elim disjE conjE)
      assume b3 "dm_sets d' = dm_sets d @ [s]" "out' = out3"
      note dec = this
      have "b3 = True" using dec(1) by simp
      from created_set_ok [OF c [unfolded this]]
      have "set_ok s \<and> ts_pid s = pid \<and> so_handles out3 = ts_handles s" by simp
      moreover from this dec have "chain_table (dm_sets d') = table_add pid (so_handles out') (ts_textures s) (chain_table (dm_sets d))"
        by (simp add: table_add_def set_entries_def table_append fun_eq_iff split: option.split)
      ultimately show ?thesis by (intro disjI2 exI [of _ "ts_textures s"]) (simp add: set_ok_def)
    qed simp
  qed
  show "h \<noteq> 0 \<Longrightarrow> find_texture_locked h (dm_sets d) =
      (case chain_table (dm_sets d) h of None \<Rightarrow> None | Some (p, hs, t) \<Rightarrow> t)" by (rule find_texture_table [OF ok])
qed

text \<open>
  C19. The swap chains refine a table of handles. As long as Direct3D's handles
  are distinct: destroying by any one handle removes exactly the three handles
  of its chain, destroying for a process exactly the chains of that process,
  handing out indices changes nothing, creating adds one chain of three under
  the handles written to the caller or leaves the table as it is, and the
  texture found for a submitted handle is the table's.
\<close>

theorem swap_chains_refine:
  assumes "sets_inv (dm_sets d)" and "distinct (handles (dm_sets d))"
  shows "chain_table (dm_sets (fst (DestroySwapTextureSet env h (d, w)))) = table_destroy h (chain_table (dm_sets d))
    \<and> chain_table (dm_sets (fst (DestroyAllSwapTextureSets env pid (d, w)))) = table_destroy_all pid (chain_table (dm_sets d))
    \<and> chain_table (dm_sets (snd (GetNextSwapTextureSetIndex hs ix d))) = chain_table (dm_sets d)
    \<and> (case CreateSwapTextureSet env pid (Some sd) (Some out) (d, w) of (out', d', w') \<Rightarrow>
         dm_sets d' = dm_sets d \<or> (\<exists>ts. length ts = 3 \<and> None \<notin> set ts
           \<and> chain_table (dm_sets d') = table_add pid (so_handles (the out')) ts (chain_table (dm_sets d))))
    \<and> (h \<noteq> 0 \<longrightarrow> find_texture_locked h (dm_sets d) =
         (case chain_table (dm_sets d) h of None \<Rightarrow> None | Some (p, hs, t) \<Rightarrow> t))"
proof -
  obtain out' d' w' where cr: "CreateSwapTextureSet env pid (Some sd) (Some out) (d, w) = (out', d', w')" by (metis surj_pair)
  have "\<exists>x. out' = Some x"
    using cr by (auto simp: CreateSwapTextureSet_def Let_def split: prod.splits bool.splits if_splits)
  then obtain x where "out' = Some x" by blast
  with cr have "case CreateSwapTextureSet env pid (Some sd) (Some out) (d, w) of (out', d', w') \<Rightarrow>
      dm_sets d' = dm_sets d \<or> (\<exists>ts. length ts = 3 \<and> None \<notin> set ts
        \<and> chain_table (dm_sets d') = table_add pid (so_handles (the out')) ts (chain_table (dm_sets d)))"
    using swap_chains_ops(4) [OF assms, of env pid sd out w x d' w'] by simp
  then show ?thesis by (intro conjI impI swap_chains_ops(1,2,3,5) [OF assms])
qed


section \<open>A concrete run\<close>

definition traced_run :: "direct_mode \<times> client \<times> (nat \<times> (nat \<Rightarrow> u64 option)) \<times> gpu_call list" where
  "traced_run = foldl (direct_step (traced simple_gpu)) (direct_new, connected_client, (0, \<lambda>_. None), []) layer_submitted"

lemma traced_summary:
  "(case traced_run of (d, c, w) \<Rightarrow> (dm_outgoing d, dm_shut_down d)) = (None, False)"
  "(case present_frame (traced simple_gpu) 77 traced_run of (d, c, w) \<Rightarrow> dm_outgoing d \<noteq> None) = True"
  "(case traced_run of (d, c, w) \<Rightarrow> copies (snd w)) = []"
  by code_simp+

theorem copies_inside_witness:
  "\<exists>L R. copies (snd (snd (snd (present_frame (traced simple_gpu) 77 traced_run)))) = [L, R]
     \<and> bx_right (rc_box L) \<le> 2000 \<and> bx_right (rc_box R) \<le> 2000"
proof -
  obtain d c w l where s: "traced_run = (d, c, w, l)" by (metis surj_pair)
  obtain d' c' w' l' where p: "present_frame (traced simple_gpu) 77 (d, c, w, l) = (d', c', w', l')" by (metis surj_pair)
  have r: "(d, c, w, l) = foldl (direct_step (traced simple_gpu)) (direct_new, connected_client, (0, \<lambda>_. None), []) layer_submitted"
    by (simp flip: s add: traced_run_def)
  have w2: "td_width (g_get_desc simple_gpu t x) = 2000" for t x by (simp add: simple_gpu_def)
  obtain f where f: "dm_outgoing d' = Some f" "dm_outgoing d = None" "copies l = []"
    using traced_summary by (auto simp: s p)
  have "\<exists>cs w1. copies l' = copies l @ cs
    \<and> transported simple_gpu w1 (find_texture_locked (fst (fs_texture (dm_layer d))) (dm_sets d),
        find_texture_locked (snd (fs_texture (dm_layer d))) (dm_sets d)) (dm_outgoing d') (dm_ring d') cs"
    by (rule copies_inside [OF r f(2) _ p]) (simp add: w2)
  then show ?thesis by (auto simp: f s p transported_def box_inside_def w2)
qed

theorem texture_references_witness:
  "refs 0 (snd (snd (snd traced_run))) = held_refs (fst traced_run) 0
   \<and> refs 0 (snd (snd (direct_shutdown (traced simple_gpu) (fst traced_run, snd (snd traced_run))))) = 0"
proof -
  obtain d c w l where s: "traced_run = (d, c, w, l)" by (metis surj_pair)
  obtain d' w' l' where p: "direct_shutdown (traced simple_gpu) (d, w, l) = (d', w', l')" by (metis surj_pair)
  have r: "(d, c, w, l) = foldl (direct_step (traced simple_gpu)) (direct_new, connected_client, (0, \<lambda>_. None), []) layer_submitted"
    by (simp flip: s add: traced_run_def)
  have "\<not> dm_shut_down d" using traced_summary(1) by (simp add: s)
  then show ?thesis using texture_references [OF r p, of 0] by (simp add: s p)
qed

definition one_chain :: direct_mode where
  "one_chain = direct_new\<lparr>dm_sets := [\<lparr>ts_pid = 7, ts_textures = [Some 0, Some 1, Some 2], ts_handles = [100, 101, 102],
     ts_index = 0, ts_width = 2000, ts_height = 2000, ts_format = 28, ts_sample_count = 1\<rparr>]\<rparr>"

theorem swap_chains_refine_witness:
  "chain_table (dm_sets (fst (DestroySwapTextureSet simple_gpu 101 (one_chain, 0, \<lambda>_. None)))) 100 = None
   \<and> chain_table (dm_sets one_chain) 100 = Some (7, [100, 101, 102], Some 0)"
proof -
  have t: "chain_table (dm_sets one_chain) 100 = Some (7, [100, 101, 102], Some 0)"
    "chain_table (dm_sets one_chain) 101 = Some (7, [100, 101, 102], Some 1)" by code_simp+
  have "sets_inv (dm_sets one_chain)" "distinct (handles (dm_sets one_chain))" by code_simp+
  from swap_chains_refine [OF this, of simple_gpu 101 "(0, \<lambda>_. None)"] t show ?thesis
    by (simp add: table_destroy_def)
qed

text \<open>
  A creation that fails at its second texture releases the first one again, but
  the handle already written stays in the struct of the caller.
\<close>

definition second_fails :: "(nat \<times> (nat \<Rightarrow> u64 option)) gpu" where
  "second_fails = simple_gpu\<lparr>g_create_texture := (\<lambda>_ (n, f). (if n = 0 then Some 0 else None, (n + 1, f)))\<rparr>"

lemma failed_creation_leaves_handle:
  "case CreateSwapTextureSet second_fails 7 (Some \<lparr>sd_width = 64, sd_height = 64, sd_format = 28, sd_sample_count = 1\<rparr>)
      (Some \<lparr>so_handles = [0, 0, 0], so_flags = 0\<rparr>) (direct_new, 0, \<lambda>_. None) of
     (out, d, w) \<Rightarrow> so_handles (the out) = [100, 0, 0] \<and> dm_sets d = []"
  by (simp add: CreateSwapTextureSet_def start_vsync_thread_def ensure_device_locked_def direct_new_def second_fails_def simple_gpu_def
      empty_set_def kMaxDeviceAttempts_def kMaxTextureSets_def release_all_def safe_release_def Let_def)

end
