(* ===== verification/Spec2Isabelle.thy ===== *)
theory Spec2Isabelle
  imports Idr_Tracker Video_Out Frame_Staging Pipe_Protocol Bitrate_Laws Clock_Offset Pose_Sanitize Server_Loop
    Direct_Textures
begin

text \<open>
  A verification development of WiVRn-NX for Windows: the helper process
  (\<^verbatim>\<open>src/helper\<close>), which speaks the WiVRn protocol with a headset, and the
  SteamVR driver, the shim (\<^verbatim>\<open>src/shim\<close>), which shows the headset to SteamVR.
  The two talk over a named pipe whose messages \<^verbatim>\<open>src/ipc/wivrnnx_ipc.h\<close> defines.

  \<^bold>\<open>The program.\<close> The helper has three threads. The WiVRn thread accepts one
  headset at a time and runs its session: it reads packets, sanitizes poses,
  keeps the clock estimate, runs the bitrate controller and paces video out.
  The pipe thread serves the shim: it forwards what the session leaves in the
  \<^verbatim>\<open>Bridge\<close> and takes frames and haptics from the shim. The encoder thread takes
  frames from the intake, encodes them and leaves the result in the
  \<^verbatim>\<open>VideoBridge\<close>, from which the session sends it. In the shim, SteamVR's present
  thread copies each frame into a ring of shared textures, and a pipe thread
  announces it and waits for the helper's answer.

  \<^bold>\<open>Theories and sources.\<close>
  \<^item> \<^verbatim>\<open>Prelude\<close>: words, bounded queues, machines and their invariants, timed runs. The
    interfaces are the locales \<open>machine_invariant\<close>, \<open>bounded_fifo\<close> and
    \<open>generation_cell\<close> here and \<open>codec\<close> in \<^verbatim>\<open>Ipc_Wire\<close>, each interpreted on the
    components that keep its laws.
  \<^item> \<^verbatim>\<open>Ieee\<close>, \<^verbatim>\<open>Float_Bits\<close>: the floating point arithmetic of the sources, exact
    operations followed by one rounding, and its bit patterns.
  \<^item> \<^verbatim>\<open>Ipc_Wire\<close> (\<^verbatim>\<open>ipc/wivrnnx_ipc.h\<close>): the messages as bytes.
    \<^verbatim>\<open>Bridge\<close> (\<^verbatim>\<open>helper/src/bridge.{h,cpp}\<close>), \<^verbatim>\<open>Pipe_Server\<close>
    (\<^verbatim>\<open>helper/src/pipe_server.{h,cpp}\<close>), \<^verbatim>\<open>Ipc_Client\<close> (\<^verbatim>\<open>shim/src/ipc_client.{h,cpp}\<close>),
    and \<^verbatim>\<open>Pipe_Protocol\<close>, which puts the two ends together.
  \<^item> \<^verbatim>\<open>Frame_Staging\<close> (\<^verbatim>\<open>shim/src/frame_staging.{h,cpp}\<close>), \<^verbatim>\<open>Video_Intake\<close>
    (\<^verbatim>\<open>helper/src/video_intake.{h,cpp}\<close>), \<^verbatim>\<open>Video_Bridge\<close>
    (\<^verbatim>\<open>helper/src/wivrn/video_bridge.{h,cpp}\<close>): the path of a frame to the session.
  \<^item> \<^verbatim>\<open>Direct_Geometry\<close>, \<^verbatim>\<open>Direct_Mode\<close>, \<^verbatim>\<open>Direct_Textures\<close>
    (\<^verbatim>\<open>shim/src/direct_mode.{h,cpp}\<close>, \<^verbatim>\<open>shim/src/vr_util.h\<close>): the compositor of the shim,
    its matrices and rectangles, its layers, ring and vsync clock, and the textures
    it owns with their reference counts.
  \<^item> \<^verbatim>\<open>Idr_Tracker\<close>, \<^verbatim>\<open>Shard_Pacer\<close>, \<^verbatim>\<open>Video_Out\<close>, \<^verbatim>\<open>Max_Filter\<close>,
    \<^verbatim>\<open>Bitrate_Controller\<close>, \<^verbatim>\<open>Bitrate_Safety\<close>, \<^verbatim>\<open>Bitrate_Laws\<close>, \<^verbatim>\<open>Clock_Offset\<close>,
    \<^verbatim>\<open>Pose_Sanitize\<close>: the headers of the same names under \<^verbatim>\<open>helper/src/wivrn\<close>.
    \<^verbatim>\<open>Wivrn_Packets\<close> has the packet members they read.
  \<^item> \<^verbatim>\<open>Pairing_Store\<close> (\<^verbatim>\<open>wivrn/store.{h,cpp}\<close>), \<^verbatim>\<open>Session_Handshake\<close> (the constructor's
    half of \<^verbatim>\<open>wivrn/session.cpp\<close>), \<^verbatim>\<open>Session_State\<close> (its state and what it publishes),
    \<^verbatim>\<open>Session_Transport\<close> (bitrate and frustum), \<^verbatim>\<open>Session_Input\<close> (poses, controls,
    haptics), \<^verbatim>\<open>Session_Video\<close> (the video pump), \<^verbatim>\<open>Session_Loop\<close> (dispatch, the turn
    of the loop, the other threads), \<^verbatim>\<open>Server_Loop\<close> (\<^verbatim>\<open>wivrn/server.{h,cpp}\<close>).

  \<^bold>\<open>Correspondence.\<close> A class is a record with a prefix of two letters, a method a
  function of the same name on it, an enum a datatype, a mutex-protected call
  one step. Integers that may wrap are words of their width, times are integers
  of nanoseconds. Calls that leave the repository's code are arguments: the
  operating system (which call fails, what a read or a clock returns), the
  encoder, the packet library, the cryptography and the parity code of the
  Linux repository. Exceptions are values; loops are functions with a
  termination proof, or step relations where threads interleave.

  \<^bold>\<open>What the theorems show.\<close>
  \<^item> The pipe: every message survives encoding; each end accepts whatever the
    other sends, in order; the shim sees the latest state after any reconnect.
  \<^item> Frames: every frame the shim announces is answered exactly once, for every
    interleaving, within fifteen steps of the encoder thread; leases never
    collide; stale answers are ignored; a frame leaves the sender whole, in
    shards that fit, whatever the pacing.
  \<^item> Control: the bitrate stays in range, recovers, and lowers at most once per
    interval; the encoder follows it; key frames are requested after loss, not
    too often; the clock is only trusted with a full window.
  \<^item> The compositor: every region it copies lies inside the textures it copies
    between, no texture stays referenced once it is shut down, its table of swap
    texture sets behaves as a finite map, a frame is announced only in a ring the
    helper was told of and is counted once, the pose it announces is finite, and
    its vsync clock never falls behind nor runs away.
  \<^item> The session: only a headset that is paired or proves the PIN gets through,
    pairing survives on disk, the token is never sent in the clear; poses that
    reach SteamVR are finite, buttons follow the headset, pulses stay in bounds,
    the view frustum is never degenerate, the video queue is bounded and loses
    no frame silently; all this for every interleaving with the other threads,
    and between headsets nothing is left behind.
  \<^item> The theorems that show a flaw say so in their text; the flaws they show are
    a bitrate that jumps to the ceiling on a change of the frame rate, a touched
    bit that stays set, headset names that begin with a hash, a back-off that
    can raise the bitrate, a frame announced into the next session.

  \<^bold>\<open>Bounds and fuel.\<close> No function runs on fuel. Scripts (lists of turns, of
  reads, of accept events) stand for what the environment delivers; a function
  that reaches the end of its script returns the state in which it waits, and
  the theorems hold for scripts of every length. Capacities are the source's
  (ten pulses, four and six frames, three slots, a hundred clock samples).

  \<^bold>\<open>Not modelled.\<close> The OpenVR device classes of the shim and the AMF encoder call
  one vendor interface after another and keep little state of their own; the mDNS
  publisher is text and socket calls; the Winsock layer, logging, handles, the
  test programs and the vendored headers are operating system calls, text output
  or other projects' code. The five-second report of the session is text output.
  The two floating point zeros are one value, and all NaNs are one.
\<close>

end
